(* ===== verification/Prelude.thy ===== *)
theory Prelude
  imports Main "HOL-Library.Word" "HOL-Library.AList" "HOL-Library.Multiset"
begin

text \<open>
  Shared notions of the development: outcomes of a C++ statement that does not finish
  normally, sequencing of fallible statements, 64-bit unsigned arithmetic on \<^typ>\<open>int\<close>,
  the little-endian image of an \<open>int\<close>, C strings, and the erase-by-swap idiom
  (\<open>swap(v[i], v.back()); v.pop_back();\<close>) that several components use on vectors.
\<close>

section \<open>Outcomes\<close>

text \<open>
  A handler either finishes with a new state (\<open>Inr\<close>) or stops: by undefined behaviour
  (a null or dangling dereference, an access outside an object, an iterator used after
  \<open>erase\<close>), by a trap (division by zero), by a failed \<open>assert\<close>, by an uncaught C++
  exception, by \<open>exit\<close>, by by blocking for ever on a
  mutex the thread already holds, by a loop that does not end, by waiting for bytes that are not
  there, or by the use of a value that was never set.
\<close>

datatype fault =
    Null_Deref
  | Dangling
  | Out_Of_Bounds
  | Bad_Iterator
  | Div_By_Zero
  | Assert_Failed
  | Uncaught
  | Exited
  | Deadlock
  | Diverges
  | Blocked
  | Uninit

type_synonym 'a res = "fault + 'a"

named_theorems res_simps \<open>unfolding a sequence of fallible statements\<close>

definition bindE :: "'a res \<Rightarrow> ('a \<Rightarrow> 'b res) \<Rightarrow> 'b res" where
  "bindE m f = (case m of Inl e \<Rightarrow> Inl e | Inr x \<Rightarrow> f x)"

definition guardE :: "fault \<Rightarrow> bool \<Rightarrow> unit res" where
  "guardE e b = (if b then Inr () else Inl e)"

lemma bindE_Inr [simp]: "bindE (Inr x) f = f x"
  by (simp add: bindE_def)

lemma bindE_Inl [simp]: "bindE (Inl e) f = Inl e"
  by (simp add: bindE_def)

lemma bindE_eq_Inr [res_simps]: "bindE m f = Inr y \<longleftrightarrow> (\<exists>x. m = Inr x \<and> f x = Inr y)"
  by (cases m) auto

lemma bindE_eq_Inl [res_simps]:
  "bindE m f = Inl e \<longleftrightarrow> m = Inl e \<or> (\<exists>x. m = Inr x \<and> f x = Inl e)"
  by (cases m) auto

lemma guardE_eq_Inr [simp]: "guardE e b = Inr u \<longleftrightarrow> b"
  by (simp add: guardE_def)

lemma guardE_eq_Inl [simp]: "guardE e b = Inl f \<longleftrightarrow> \<not> b \<and> f = e"
  by (auto simp: guardE_def)

lemma guardE_True [simp]: "guardE e True = Inr ()"
  by (simp add: guardE_def)

lemma guardE_False [simp]: "guardE e False = Inl e"
  by (simp add: guardE_def)

text \<open>A statement for every element of a list, in order, stopping at the first fault.\<close>

fun foldE :: "('a \<Rightarrow> 's \<Rightarrow> 's res) \<Rightarrow> 'a list \<Rightarrow> 's \<Rightarrow> 's res" where
  "foldE f [] s = Inr s"
| "foldE f (x # xs) s = bindE (f x s) (foldE f xs)"

lemma foldE_append: "foldE f (xs @ ys) s = bindE (foldE f xs s) (foldE f ys)"
proof (induction xs arbitrary: s)
  case (Cons x xs)
  then show ?case by (cases "f x s") auto
qed simp

lemma foldE_snoc: "foldE f (xs @ [x]) s = bindE (foldE f xs s) (f x)"
  by (induction xs arbitrary: s) (auto simp: bindE_def split: sum.splits)

lemma foldE_invariant:
  assumes "foldE f xs s = Inr t" and "P s"
    and "\<And>x s t. x \<in> set xs \<Longrightarrow> P s \<Longrightarrow> f x s = Inr t \<Longrightarrow> P t"
  shows "P t"
  using assms
proof (induction xs arbitrary: s)
  case Nil
  then show ?case by simp
next
  case (Cons x xs)
  then obtain u where u: "f x s = Inr u" "foldE f xs u = Inr t"
    by (auto simp: res_simps)
  moreover have "P u"
    using Cons.prems(2) Cons.prems(3)[of x s u] u(1) by simp
  ultimately show ?case
    using Cons.IH[of u] Cons.prems(3) by (meson list.set_intros(2))
qed

section \<open>Unsigned 64-bit arithmetic\<close>

text \<open>
  \<open>size_t\<close> and \<open>unsigned long long\<close> values are integers in \<open>[0, 2^64)\<close>; every
  operation of the code that can wrap is written with \<open>u64\<close>.
\<close>

definition u64 :: "int \<Rightarrow> int" where
  "u64 x = x mod 18446744073709551616"

lemma u64_id [simp]: "0 \<le> x \<Longrightarrow> x < 18446744073709551616 \<Longrightarrow> u64 x = x"
  by (simp add: u64_def)

lemma u64_bounds: "0 \<le> u64 x" "u64 x < 18446744073709551616"
  by (simp_all add: u64_def)

lemma u64_idem [simp]: "u64 (u64 x) = u64 x"
  by (simp add: u64_def)

lemma u64_wraps:
  assumes "x < 0" "- 18446744073709551616 \<le> x"
  shows "u64 x = x + 18446744073709551616"
proof -
  have "u64 x = (x + 18446744073709551616) mod 18446744073709551616"
    by (simp add: u64_def)
  also have "\<dots> = x + 18446744073709551616"
    using assms by (intro mod_pos_pos_trivial) auto
  finally show ?thesis .
qed

text \<open>Conversions between \<open>int\<close> and \<open>unsigned int\<close>.\<close>

definition u32 :: "int \<Rightarrow> int" where
  "u32 x = x mod 4294967296"

definition s32 :: "int \<Rightarrow> int" where
  "s32 x = (let y = x mod 4294967296 in if y < 2147483648 then y else y - 4294967296)"

section \<open>Little-endian integers\<close>

text \<open>The four bytes of an \<open>int\<close> (two's complement), and the \<open>int\<close> of four bytes.\<close>

definition enc_int :: "int \<Rightarrow> string" where
  "enc_int x = [char_of (x mod 256), char_of (x div 256 mod 256),
                char_of (x div 256 div 256 mod 256), char_of (x div 256 div 256 div 256 mod 256)]"

fun uint_of_bytes :: "string \<Rightarrow> int" where
  "uint_of_bytes [] = 0"
| "uint_of_bytes (b # bs) = of_char b + 256 * uint_of_bytes bs"

definition dec_int :: "string \<Rightarrow> int" where
  "dec_int bs = (let u = uint_of_bytes (take 4 bs) in if u < 2147483648 then u else u - 4294967296)"

lemma length_enc_int [simp]: "length (enc_int x) = 4"
  by (simp add: enc_int_def)

lemma of_char_of_mod: "of_char (char_of (y mod 256 :: int)) = y mod 256"
  by (simp add: of_char_of)

lemma mod_bytes_step: "0 < c \<Longrightarrow> x mod (256 * c) = x mod 256 + 256 * (x div 256 mod c)" for x :: int
  by (subst zmod_zmult2_eq) auto

lemma mod_four_bytes:
  "x mod 4294967296 = x mod 256 + 256 * (x div 256 mod 256 + 256 * (x div 256 div 256 mod 256
     + 256 * (x div 256 div 256 div 256 mod 256)))" for x :: int
proof -
  have 1: "x mod 4294967296 = x mod 256 + 256 * (x div 256 mod 16777216)"
    using mod_bytes_step[of 16777216 x] by simp
  have 2: "x div 256 mod 16777216 = x div 256 mod 256 + 256 * (x div 256 div 256 mod 65536)"
    using mod_bytes_step[of 65536 "x div 256"] by simp
  have 3: "x div 256 div 256 mod 65536
      = x div 256 div 256 mod 256 + 256 * (x div 256 div 256 div 256 mod 256)"
    using mod_bytes_step[of 256 "x div 256 div 256"] by simp
  show ?thesis unfolding 1 2 3 ..
qed

lemma uint_of_enc_int: "uint_of_bytes (enc_int x) = x mod 4294967296"
  by (simp only: enc_int_def uint_of_bytes.simps of_char_of_mod mod_four_bytes[of x] mult_zero_right
      add_0_right)

lemma dec_enc_int [simp]:
  assumes "- 2147483648 \<le> x" "x < 2147483648"
  shows "dec_int (enc_int x @ bs) = x"
proof -
  have tk: "take 4 (enc_int x @ bs) = enc_int x" by simp
  have u: "dec_int (enc_int x @ bs) =
      (if x mod 4294967296 < 2147483648 then x mod 4294967296 else x mod 4294967296 - 4294967296)"
    unfolding dec_int_def tk uint_of_enc_int Let_def ..
  show ?thesis
  proof (cases "0 \<le> x")
    case True
    with assms show ?thesis by (simp add: u)
  next
    case False
    have "x mod 4294967296 = (x + 4294967296) mod 4294967296" by simp
    also have "\<dots> = x + 4294967296" using False assms by (intro mod_pos_pos_trivial) auto
    finally show ?thesis using False assms by (simp add: u)
  qed
qed

section \<open>C strings\<close>

text \<open>
  A character array holds the C string before its first NUL. \<open>strcpy_at\<close> is
  \<open>strcpy(&buf[off], s)\<close> for a string \<open>s\<close> without NUL: it writes \<open>s\<close> and a NUL, and
  leaves the array when there is no room.
\<close>

abbreviation NUL :: char where "NUL \<equiv> CHR 0x00"

definition cstr :: "string \<Rightarrow> string" where
  "cstr = takeWhile (\<lambda>c. c \<noteq> NUL)"

definition strcpy_at :: "string \<Rightarrow> nat \<Rightarrow> string \<Rightarrow> string res" where
  "strcpy_at buf off s =
     (if off + length s < length buf
      then Inr (take off buf @ s @ [NUL] @ drop (off + length s + 1) buf)
      else Inl Out_Of_Bounds)"

lemma cstr_append_NUL [simp]: "NUL \<notin> set s \<Longrightarrow> cstr (s @ NUL # t) = s"
  unfolding cstr_def by (induction s) auto

lemma cstr_id [simp]: "NUL \<notin> set s \<Longrightarrow> cstr s = s"
  unfolding cstr_def by (induction s) auto

lemma cstr_no_NUL: "NUL \<notin> set (cstr s)"
  unfolding cstr_def by (auto dest: set_takeWhileD)

lemma length_strcpy_at: "strcpy_at buf off s = Inr b \<Longrightarrow> length b = length buf"
  by (auto simp: strcpy_at_def split: if_splits)

section \<open>Erase by swap\<close>

text \<open>
  \<open>swap(v[i], v.back()); v.pop_back();\<close>: the element at \<open>i\<close> is replaced by the last one
  and the vector shrinks. With \<open>i\<close> outside the vector (the search loop before it found
  nothing) the access \<open>v[i]\<close> is undefined.
\<close>

definition swap_pop :: "'a list \<Rightarrow> nat \<Rightarrow> 'a list res" where
  "swap_pop v i = (if i < length v then Inr (butlast (v[i := last v])) else Inl Out_Of_Bounds)"

lemma mset_swap_pop:
  assumes "swap_pop v i = Inr w"
  shows "add_mset (v ! i) (mset w) = mset v"
proof -
  from assms have i: "i < length v" and w: "w = butlast (v[i := last v])"
    by (auto simp: swap_pop_def split: if_splits)
  have ne: "v[i := last v] \<noteq> []" using i by auto
  have l: "last (v[i := last v]) = last v"
    using i by (metis last_conv_nth last_list_update list_update_nonempty)
  have "mset (v[i := last v]) = mset w + {#last v#}"
    using w ne l by (metis append_butlast_last_id mset_append mset_single_iff_right)
  moreover have "mset (v[i := last v]) = add_mset (last v) (mset v - {#v ! i#})"
    using i by (simp add: mset_update)
  ultimately have "mset w = mset v - {#v ! i#}" by simp
  then show ?thesis using i by simp
qed

lemma map_swap_pop: "map_sum id (map f) (swap_pop v i) = swap_pop (map f v) i"
proof (cases "i < length v")
  case True
  then have "last (map f v) = f (last v)" by (intro last_map) auto
  with True show ?thesis by (simp add: swap_pop_def map_butlast map_update)
next
  case False
  then show ?thesis by (simp add: swap_pop_def)
qed

lemma length_swap_pop: "swap_pop v i = Inr w \<Longrightarrow> length w = length v - 1"
  by (auto simp: swap_pop_def split: if_splits)

lemma set_swap_pop: "swap_pop v i = Inr w \<Longrightarrow> set w \<subseteq> set v"
  by (metis mset_swap_pop set_mset_mset set_mset_add_mset_insert subset_insertI)

lemma distinct_swap_pop:
  "swap_pop v i = Inr w \<Longrightarrow> distinct v \<Longrightarrow> distinct w \<and> set w = set v - {v ! i}"
  by (metis Diff_insert_absorb distinct.simps(2) mset.simps(2) mset_eq_imp_distinct_iff
      mset_eq_setD mset_swap_pop list.simps(15))

section \<open>Search loops\<close>

text \<open>
  \<open>for (; ind < v.size(); ind++) if (p(v[ind])) break;\<close>: the first index that satisfies
  the test, or the size.
\<close>

fun find_index :: "('a \<Rightarrow> bool) \<Rightarrow> 'a list \<Rightarrow> nat" where
  "find_index p [] = 0"
| "find_index p (x # xs) = (if p x then 0 else Suc (find_index p xs))"

lemma find_index_le: "find_index p xs \<le> length xs"
  by (induction xs) auto

lemma find_index_less: "find_index p xs < length xs \<longleftrightarrow> (\<exists>x\<in>set xs. p x)"
  by (induction xs) auto

lemma find_index_nth: "find_index p xs < length xs \<Longrightarrow> p (xs ! find_index p xs)"
  by (induction xs) auto

lemma find_index_append: "\<forall>x\<in>set xs. \<not> p x \<Longrightarrow> p y \<Longrightarrow> find_index p (xs @ y # ys) = length xs"
  by (induction xs) auto

lemma find_index_map: "find_index p (map f xs) = find_index (p \<circ> f) xs"
  by (induction xs) auto

end
