(* ===== verification/Structures.thy ===== *)
theory Structures
  imports Prelude
begin

text \<open>
  The data of \<^verbatim>\<open>include/structure.h\<close>: the constants of the gateway, the message types, the
  \<open>address\<close> object that travels over the pipes and the registration sockets, the IPC
  \<open>message\<close>, the cached client events and the per-client bookkeeping. A \<open>bufferevent *\<close>
  is a handle (\<^typ>\<open>nat\<close>), a \<open>time_t\<close> an \<^typ>\<open>int\<close>, a character array a string of its
  length, a pointer into the memory pool an address (\<^typ>\<open>int\<close>, NULL is 0).
\<close>

section \<open>Constants\<close>

definition MSG_QUEUE_LEN :: nat where "MSG_QUEUE_LEN = 100000"
definition BUF_LEN :: nat where "BUF_LEN = 1024"
definition SQL_LEN :: nat where "SQL_LEN = 1024"
definition MSG_TIMEOUT :: int where "MSG_TIMEOUT = 30"
definition FIN_TIMEOUT :: int where "FIN_TIMEOUT = 10"
definition CB_TIMEOUT :: int where "CB_TIMEOUT = 2"

text \<open>
  The pool sizes. \<open>MEM_POOL_SIZE\<close> is a \<open>double\<close> expression
  (\<open>0.5 * GB + 500 * MB + 500 * KB\<close>); its value is an integer far below \<open>2^53\<close>, so the
  conversion to \<open>mem_size_t\<close> is exact.
\<close>

definition KB :: int where "KB = 1024"
definition MB :: int where "MB = 1048576"
definition GB :: int where "GB = 1073741824"
definition MAX_MEM :: int where "MAX_MEM = 1 * GB + 1000 * MB + 1000 * KB"
definition MEM_POOL_SIZE :: int where "MEM_POOL_SIZE = GB div 2 + 500 * MB + 500 * KB"

text \<open>The rows of the black list: 1000 rows of \<open>IP_SIZE\<close> bytes.\<close>

definition IP_SIZE :: nat where "IP_SIZE = 20"
definition HEI_MING_DAN_BUFFER_SIZE :: nat where "HEI_MING_DAN_BUFFER_SIZE = 20 * 1000"

section \<open>Message types\<close>

datatype OPTION_TYPE_E = EN_LOGIN | EN_REGISTER | EN_EXIT | EN_INQUIRY | EN_SCRAMBLE | EN_CREATE

fun option_code :: "OPTION_TYPE_E \<Rightarrow> int" where
  "option_code EN_LOGIN = 1"
| "option_code EN_REGISTER = 2"
| "option_code EN_EXIT = 3"
| "option_code EN_INQUIRY = 4"
| "option_code EN_SCRAMBLE = 5"
| "option_code EN_CREATE = 6"

lemma option_code_inject: "option_code a = option_code b \<longleftrightarrow> a = b"
  by (cases a; cases b) simp_all

text \<open>The enumerators are ordered by their values, as C++ compares them.\<close>

instantiation OPTION_TYPE_E :: linorder
begin

definition less_eq_OPTION_TYPE_E :: "OPTION_TYPE_E \<Rightarrow> OPTION_TYPE_E \<Rightarrow> bool" where
  "less_eq_OPTION_TYPE_E a b \<longleftrightarrow> option_code a \<le> option_code b"

definition less_OPTION_TYPE_E :: "OPTION_TYPE_E \<Rightarrow> OPTION_TYPE_E \<Rightarrow> bool" where
  "less_OPTION_TYPE_E a b \<longleftrightarrow> option_code a < option_code b"

instance
  by standard (auto simp: less_eq_OPTION_TYPE_E_def less_OPTION_TYPE_E_def option_code_inject)

end

section \<open>Addresses on the wire\<close>

text \<open>
  \<open>struct address\<close>: an \<open>int\<close>, \<open>char ip[20]\<close>, \<open>char token[10]\<close> and two bytes of padding,
  36 bytes in all. The constructor zeroes the two arrays and leaves \<open>port\<close> as it was.
\<close>

record address =
  addr_port :: int
  addr_ip :: string
  addr_token :: string

definition SIZEOF_ADDRESS :: nat where "SIZEOF_ADDRESS = 36"

definition new_address :: "int \<Rightarrow> address" where
  "new_address junk = \<lparr>addr_port = junk, addr_ip = replicate 20 NUL, addr_token = replicate 10 NUL\<rparr>"

definition address_wf :: "address \<Rightarrow> bool" where
  "address_wf a \<longleftrightarrow> length (addr_ip a) = 20 \<and> length (addr_token a) = 10 \<and>
     - 2147483648 \<le> addr_port a \<and> addr_port a < 2147483648"

text \<open>The bytes of an \<open>address\<close>, and the object read back from 36 bytes.\<close>

definition enc_address :: "address \<Rightarrow> string" where
  "enc_address a = enc_int (addr_port a) @ addr_ip a @ addr_token a @ [NUL, NUL]"

definition dec_address :: "string \<Rightarrow> address" where
  "dec_address bs = \<lparr>addr_port = dec_int bs, addr_ip = take 20 (drop 4 bs),
                     addr_token = take 10 (drop 24 bs)\<rparr>"

text \<open>
  \<open>recv(fd, &server_add, length, 0)\<close> (and \<open>bufferevent_read\<close>): the bytes received overwrite
  the front of the object; more than 36 of them run over its end.
\<close>

definition fill_address :: "address \<Rightarrow> string \<Rightarrow> address res" where
  "fill_address a bs =
     (if length bs \<le> SIZEOF_ADDRESS then Inr (dec_address (bs @ drop (length bs) (enc_address a)))
      else Inl Out_Of_Bounds)"

lemma length_enc_address: "address_wf a \<Longrightarrow> length (enc_address a) = SIZEOF_ADDRESS"
  by (simp add: enc_address_def address_wf_def SIZEOF_ADDRESS_def)

lemma dec_enc_address: "address_wf a \<Longrightarrow> dec_address (enc_address a @ bs) = a"
  unfolding dec_address_def enc_address_def address_wf_def by simp

lemma fill_enc_address: "address_wf a \<Longrightarrow> fill_address b (enc_address a) = Inr a"
  using length_enc_address[of a] dec_enc_address[of a] by (simp add: fill_address_def)

text \<open>
  \<open>strcpy(server_add.ip, ip)\<close> and \<open>strcpy(server_add.token, token)\<close>.
\<close>

definition set_ip :: "string \<Rightarrow> address \<Rightarrow> address res" where
  "set_ip s a = bindE (strcpy_at (addr_ip a) 0 s) (\<lambda>b. Inr (a\<lparr>addr_ip := b\<rparr>))"

definition set_token :: "string \<Rightarrow> address \<Rightarrow> address res" where
  "set_token s a = bindE (strcpy_at (addr_token a) 0 s) (\<lambda>b. Inr (a\<lparr>addr_token := b\<rparr>))"

lemma set_ip_wf: "set_ip s a = Inr b \<Longrightarrow> address_wf a \<Longrightarrow> address_wf b"
  by (auto simp: set_ip_def res_simps address_wf_def dest: length_strcpy_at)

lemma set_token_wf: "set_token s a = Inr b \<Longrightarrow> address_wf a \<Longrightarrow> address_wf b"
  by (auto simp: set_token_def res_simps address_wf_def dest: length_strcpy_at)

lemma set_ip_cstr: "set_ip s a = Inr b \<Longrightarrow> NUL \<notin> set s \<Longrightarrow> cstr (addr_ip b) = s"
  by (auto simp: set_ip_def strcpy_at_def res_simps split: if_splits)

lemma set_token_cstr: "set_token s a = Inr b \<Longrightarrow> NUL \<notin> set s \<Longrightarrow> cstr (addr_token b) = s"
  by (auto simp: set_token_def strcpy_at_def res_simps split: if_splits)

section \<open>Messages to the main process\<close>

text \<open>
  \<open>struct message\<close>, sent over the System V message queue: type 1 reports a server the worker
  lost, type 2 a client that exceeded its rate. \<open>msg_ip\<close> is the C string of the array.
\<close>

record message =
  msg_type :: int
  msg_port :: int
  msg_ip :: string
  process_id :: int

section \<open>Cached events and clients\<close>

text \<open>
  \<open>struct Head\<close> is its one field \<open>length\<close>, an \<open>int\<close>. \<open>cli_event\<close> objects live in blocks of
  the memory pool; the pool does not run constructors, so the initialisers
  \<open>msg_flag = false\<close> and \<open>finish_flag = false\<close> of the declaration never take effect there.
  \<open>c_info\<close> holds the C string written into the array.
\<close>

record cli_event =
  ev_bev :: nat
  usr_uuid :: int
  head_length :: int
  c_info :: string
  arr_time :: int
  msg_flag :: bool
  finish_flag :: bool

definition SIZEOF_CLI_EVENT :: int where "SIZEOF_CLI_EVENT = 1056"
definition SIZEOF_HEAD :: nat where "SIZEOF_HEAD = 4"

text \<open>\<open>client_information\<close>: \<open>cli_event_map\<close> maps a packet number to the cached event.\<close>

record client_information =
  cl_bev :: nat
  cl_count :: int
  cl_ip :: string
  close_flag :: bool
  pack_id :: int
  cli_event_map :: "(int \<times> int) list"

definition new_client_information :: "nat \<Rightarrow> string \<Rightarrow> client_information" where
  "new_client_information bev ip = \<lparr>cl_bev = bev, cl_count = 0, cl_ip = ip, close_flag = False,
     pack_id = 0, cli_event_map = []\<rparr>"

end
