(* ===== verification/Memory_Pool.thy ===== *)
theory Memory_Pool
  imports Structures
begin

text \<open>
  The memory pool (\<^verbatim>\<open>include/memorypool.h\<close>, \<^verbatim>\<open>src/proxy/memorypool.cpp\<close>). A pool owns
  blocks obtained from \<open>malloc\<close>; a block is cut into chunks laid end to end, each with a
  header at its first byte (\<open>alloc_mem\<close>, the chunk's size, the links of the list it is on and
  \<open>is_free\<close>) and, in its last eight bytes, a pointer back to the header. Free and allocated
  chunks are on two doubly linked lists threaded through the headers.

  The headers are a map from addresses to chunks and the back pointers a map from addresses
  to addresses: the model follows the links and the address arithmetic of the code. An address
  is an \<^typ>\<open>int\<close> and NULL is 0; the structures \<open>_MP_Memory\<close>, reached only through
  \<open>mlist\<close>, are records in a list. \<open>mem_size_t\<close> arithmetic is written with \<^term>\<open>u64\<close>.
  Sizes of types are those of the LP64 target: \<open>sizeof(long)\<close> 8, a pointer 8,
  \<open>struct _mp_chunk\<close> 32, \<open>_MP_Memory\<close> 64. A loop that follows links is a
  \<open>partial_function (option)\<close>: \<^term>\<open>None\<close> is a walk that does not end.
\<close>

unbundle bit_operations_syntax

section \<open>State\<close>

type_synonym addr = int

record mp_chunk =
  c_alloc_mem :: int
  c_prev :: addr
  c_next :: addr
  c_is_free :: bool

record store =
  hdr :: "addr \<Rightarrow> mp_chunk option"
  ftr :: "addr \<Rightarrow> addr option"

record mp_memory =
  m_start :: addr
  m_id :: int
  m_mem_pool_size :: int
  m_alloc_mem :: int
  m_alloc_prog_mem :: int
  m_free_list :: addr
  m_alloc_list :: addr

record MemoryPool =
  last_id :: int
  auto_extend :: int
  mem_pool_size :: int
  total_mem_pool_size :: int
  max_mem_pool_size :: int
  mlist :: "mp_memory list"
  mp_lock :: bool
  mem :: store

definition MP_CHUNKHEADER :: int where "MP_CHUNKHEADER = 32"
definition MP_CHUNKEND :: int where "MP_CHUNKEND = 8"
definition SIZEOF_MP_MEMORY :: int where "SIZEOF_MP_MEMORY = 64"

text \<open>\<open>(_n + sizeof(long) - ((sizeof(long) - 1) & _n))\<close>\<close>

definition MP_ALIGN_SIZE :: "int \<Rightarrow> int" where
  "MP_ALIGN_SIZE n = u64 (u64 (n + 8) - (7 AND n))"

section \<open>Headers and lists\<close>

definition get_hdr :: "store \<Rightarrow> addr \<Rightarrow> mp_chunk res" where
  "get_hdr st a =
     (if a = 0 then Inl Null_Deref
      else case hdr st a of None \<Rightarrow> Inl Out_Of_Bounds | Some c \<Rightarrow> Inr c)"

definition put_hdr :: "addr \<Rightarrow> mp_chunk \<Rightarrow> store \<Rightarrow> store" where
  "put_hdr a c st = st\<lparr>hdr := (hdr st)(a \<mapsto> c)\<rparr>"

definition mod_hdr :: "addr \<Rightarrow> (mp_chunk \<Rightarrow> mp_chunk) \<Rightarrow> store \<Rightarrow> store res" where
  "mod_hdr a f st = bindE (get_hdr st a) (\<lambda>c. Inr (put_hdr a (f c) st))"

definition put_ftr :: "addr \<Rightarrow> addr \<Rightarrow> store \<Rightarrow> store" where
  "put_ftr a p st = st\<lparr>ftr := (ftr st)(a \<mapsto> p)\<rparr>"

text \<open>\<open>MP_INIT_MEMORY_STRUCT\<close>: one free chunk that covers the block.\<close>

definition MP_INIT_MEMORY_STRUCT :: "int \<Rightarrow> mp_memory \<times> store \<Rightarrow> mp_memory \<times> store" where
  "MP_INIT_MEMORY_STRUCT mem_sz ms =
     (let mm = fst ms; st = snd ms in
      (mm\<lparr>m_mem_pool_size := mem_sz, m_alloc_mem := 0, m_alloc_prog_mem := 0,
          m_free_list := m_start mm, m_alloc_list := 0\<rparr>,
       put_hdr (m_start mm)
         \<lparr>c_alloc_mem = mem_sz, c_prev = 0, c_next = 0, c_is_free = True\<rparr> st))"

text \<open>\<open>MP_DLINKLIST_INS_FRT\<close> and \<open>MP_DLINKLIST_DEL\<close> return the new head with the store.\<close>

definition MP_DLINKLIST_INS_FRT :: "addr \<Rightarrow> addr \<Rightarrow> store \<Rightarrow> (addr \<times> store) res" where
  "MP_DLINKLIST_INS_FRT head x st =
     bindE (mod_hdr x (\<lambda>c. c\<lparr>c_prev := 0, c_next := head\<rparr>) st) (\<lambda>st.
     bindE (if head \<noteq> 0 then mod_hdr head (\<lambda>c. c\<lparr>c_prev := x\<rparr>) st else Inr st) (\<lambda>st.
     Inr (x, st)))"

definition MP_DLINKLIST_DEL :: "addr \<Rightarrow> addr \<Rightarrow> store \<Rightarrow> (addr \<times> store) res" where
  "MP_DLINKLIST_DEL head x st =
     bindE (get_hdr st x) (\<lambda>c.
     if c_prev c = 0 then
       bindE (if c_next c \<noteq> 0 then mod_hdr (c_next c) (\<lambda>d. d\<lparr>c_prev := 0\<rparr>) st else Inr st)
         (\<lambda>st. Inr (c_next c, st))
     else
       bindE (mod_hdr (c_prev c) (\<lambda>d. d\<lparr>c_next := c_next c\<rparr>) st) (\<lambda>st.
       bindE (if c_next c \<noteq> 0 then mod_hdr (c_next c) (\<lambda>d. d\<lparr>c_prev := c_prev c\<rparr>) st else Inr st)
         (\<lambda>st. Inr (head, st))))"

section \<open>Blocks\<close>

text \<open>
  \<open>malloc\<close> is a parameter: given the pool and a size it returns the address of a fresh
  region, or 0.
\<close>

type_synonym malloc = "MemoryPool \<Rightarrow> int \<Rightarrow> addr"

definition extend_memory_list :: "malloc \<Rightarrow> MemoryPool \<Rightarrow> int \<Rightarrow> MemoryPool option" where
  "extend_memory_list mal mp new_mem_sz =
     (let s = mal mp (u64 (SIZEOF_MP_MEMORY + new_mem_sz)) in
      if s = 0 then None
      else
        let (mm, st) = MP_INIT_MEMORY_STRUCT new_mem_sz
              (\<lparr>m_start = s + SIZEOF_MP_MEMORY, m_id = last_id mp, m_mem_pool_size = 0,
                m_alloc_mem = 0, m_alloc_prog_mem = 0, m_free_list = 0, m_alloc_list = 0\<rparr>, mem mp)
        in Some (mp\<lparr>last_id := (last_id mp + 1) mod 4294967296, mlist := mm # mlist mp, mem := st\<rparr>))"

text \<open>\<open>find_memory_list\<close>: the index of the first block that seems to hold \<open>p\<close>.\<close>

definition find_memory_list :: "MemoryPool \<Rightarrow> addr \<Rightarrow> nat option" where
  "find_memory_list mp p =
     (let i = find_index (\<lambda>mm. m_start mm \<le> p \<and> p < m_start mm + mem_pool_size mp) (mlist mp)
      in if i < length (mlist mp) then Some i else None)"

text \<open>
  \<open>MemoryPoolInit\<close>: \<open>junk\<close> is the content of the uninitialised \<open>auto_extend\<close>, kept when the
  two sizes are equal; \<open>mpa\<close> and \<open>s\<close> are what the two calls of \<open>malloc\<close> return.
\<close>

definition empty_store :: store where
  "empty_store = \<lparr>hdr = (\<lambda>_. None), ftr = (\<lambda>_. None)\<rparr>"

definition MemoryPoolInit :: "int \<Rightarrow> addr \<Rightarrow> addr \<Rightarrow> int \<Rightarrow> int \<Rightarrow> MemoryPool option" where
  "MemoryPoolInit junk mpa s maxmempoolsize mempoolsize =
     (if mempoolsize > maxmempoolsize then None
      else if mpa = 0 then None
      else if s = 0 then None
      else
        let (mm, st) = MP_INIT_MEMORY_STRUCT mempoolsize
              (\<lparr>m_start = s + SIZEOF_MP_MEMORY, m_id = 0, m_mem_pool_size = 0,
                m_alloc_mem = 0, m_alloc_prog_mem = 0, m_free_list = 0, m_alloc_list = 0\<rparr>,
               empty_store)
        in Some \<lparr>last_id = 1,
                 auto_extend = (if mempoolsize < maxmempoolsize then 1 else junk),
                 mem_pool_size = mempoolsize, total_mem_pool_size = mempoolsize,
                 max_mem_pool_size = maxmempoolsize, mlist = [mm], mp_lock = False, mem = st\<rparr>)"

section \<open>Allocation\<close>

text \<open>\<open>while (_free)\<close>: the first chunk on the free list that is large enough, 0 if none.\<close>

partial_function (option) find_free :: "store \<Rightarrow> addr \<Rightarrow> int \<Rightarrow> addr res option" where
  "find_free st p n =
     (if p = 0 then Some (Inr 0)
      else case get_hdr st p of
             Inl e \<Rightarrow> Some (Inl e)
           | Inr c \<Rightarrow> if n \<le> c_alloc_mem c then Some (Inr p) else find_free st (c_next c) n)"

text \<open>
  The outer \<open>while (mm)\<close>: the index of the first block, and the chunk in it, that can serve
  the request.
\<close>

fun find_block :: "store \<Rightarrow> int \<Rightarrow> int \<Rightarrow> nat \<Rightarrow> mp_memory list \<Rightarrow> (nat \<times> addr) option res option" where
  "find_block st psz n i [] = Some (Inr None)"
| "find_block st psz n i (mm # ms) =
     (if u64 (psz - m_alloc_mem mm) < n then find_block st psz n (Suc i) ms
      else case find_free st (m_free_list mm) n of
             None \<Rightarrow> None
           | Some (Inl e) \<Rightarrow> Some (Inl e)
           | Some (Inr p) \<Rightarrow> if p = 0 then find_block st psz n (Suc i) ms
                             else Some (Inr (Some (i, p))))"

text \<open>
  The body of the inner loop once a chunk is found: the chunk is split when more than a
  header and an end remain, else it is taken whole; it goes to the front of the allocated
  list and the block's counters grow.
\<close>

definition split_chunk :: "int \<Rightarrow> addr \<Rightarrow> mp_memory \<times> store \<Rightarrow> (mp_memory \<times> store) res" where
  "split_chunk n nf ms =
     (let mm = fst ms; st = snd ms; fr = nf + n in
      bindE (get_hdr st nf) (\<lambda>c.
      let rest = u64 (c_alloc_mem c - n);
          st = put_hdr fr (c\<lparr>c_alloc_mem := rest\<rparr>) st;
          st = put_ftr (fr + rest - MP_CHUNKEND) fr st in
      bindE (if c_prev c = 0 then Inr (mm\<lparr>m_free_list := fr\<rparr>, st)
             else bindE (mod_hdr (c_prev c) (\<lambda>d. d\<lparr>c_next := fr\<rparr>) st) (\<lambda>st. Inr (mm, st))) (\<lambda>(mm, st).
      bindE (if c_next c \<noteq> 0 then mod_hdr (c_next c) (\<lambda>d. d\<lparr>c_prev := fr\<rparr>) st else Inr st) (\<lambda>st.
      bindE (mod_hdr nf (\<lambda>d. d\<lparr>c_is_free := False, c_alloc_mem := n\<rparr>) st) (\<lambda>st.
      Inr (mm, put_ftr (nf + n - MP_CHUNKEND) nf st))))))"

definition whole_chunk :: "addr \<Rightarrow> mp_memory \<times> store \<Rightarrow> (mp_memory \<times> store) res" where
  "whole_chunk nf ms =
     bindE (MP_DLINKLIST_DEL (m_free_list (fst ms)) nf (snd ms)) (\<lambda>(fl, st).
     bindE (mod_hdr nf (\<lambda>d. d\<lparr>c_is_free := False\<rparr>) st) (\<lambda>st.
     Inr ((fst ms)\<lparr>m_free_list := fl\<rparr>, st)))"

definition take_chunk :: "int \<Rightarrow> addr \<Rightarrow> mp_memory \<times> store \<Rightarrow> (mp_memory \<times> store) res" where
  "take_chunk n nf ms =
     bindE (get_hdr (snd ms) nf) (\<lambda>c.
     bindE (if u64 (c_alloc_mem c - n) > MP_CHUNKHEADER + MP_CHUNKEND
            then split_chunk n nf ms else whole_chunk nf ms) (\<lambda>(mm, st).
     bindE (MP_DLINKLIST_INS_FRT (m_alloc_list mm) nf st) (\<lambda>(al, st).
     bindE (get_hdr st nf) (\<lambda>c.
     Inr (mm\<lparr>m_alloc_list := al,
             m_alloc_mem := u64 (m_alloc_mem mm + c_alloc_mem c),
             m_alloc_prog_mem := u64 (m_alloc_prog_mem mm
                + (c_alloc_mem c - MP_CHUNKHEADER - MP_CHUNKEND))\<rparr>, st)))))"

text \<open>From \<open>FIND_FREE_CHUNK\<close> to the return, with the lock held. The address is 0 on failure.\<close>

partial_function (option) alloc_loop ::
    "malloc \<Rightarrow> MemoryPool \<Rightarrow> int \<Rightarrow> (addr \<times> MemoryPool) res option" where
  "alloc_loop mal mp n =
     (case find_block (mem mp) (mem_pool_size mp) n 0 (mlist mp) of
        None \<Rightarrow> None
      | Some (Inl e) \<Rightarrow> Some (Inl e)
      | Some (Inr (Some (i, p))) \<Rightarrow>
          Some (bindE (take_chunk n p (mlist mp ! i, mem mp)) (\<lambda>(mm, st).
            Inr (p + MP_CHUNKHEADER, mp\<lparr>mlist := (mlist mp)[i := mm], mem := st\<rparr>)))
      | Some (Inr None) \<Rightarrow>
          if auto_extend mp \<noteq> 0 then
            if total_mem_pool_size mp \<ge> max_mem_pool_size mp then Some (Inr (0, mp))
            else
              let add0 = u64 (max_mem_pool_size mp - mem_pool_size mp);
                  add_mem_sz = (if add0 \<ge> mem_pool_size mp then mem_pool_size mp else add0)
              in (case extend_memory_list mal mp add_mem_sz of
                    None \<Rightarrow> Some (Inr (0, mp))
                  | Some mp' \<Rightarrow> alloc_loop mal
                      (mp'\<lparr>total_mem_pool_size := u64 (total_mem_pool_size mp' + add_mem_sz)\<rparr>) n)
          else Some (Inr (0, mp)))"

definition total_needed_size :: "int \<Rightarrow> int" where
  "total_needed_size wantsize = MP_ALIGN_SIZE (u64 (wantsize + MP_CHUNKHEADER + MP_CHUNKEND))"

definition MP_LOCK :: "MemoryPool \<Rightarrow> MemoryPool res" where
  "MP_LOCK mp = (if mp_lock mp then Inl Deadlock else Inr (mp\<lparr>mp_lock := True\<rparr>))"

definition MP_UNLOCK :: "MemoryPool \<Rightarrow> MemoryPool" where
  "MP_UNLOCK mp = mp\<lparr>mp_lock := False\<rparr>"

definition MemoryPoolAlloc :: "malloc \<Rightarrow> MemoryPool \<Rightarrow> int \<Rightarrow> (addr \<times> MemoryPool) res option" where
  "MemoryPoolAlloc mal mp wantsize =
     (if wantsize \<le> 0 then Some (Inr (0, mp))
      else if total_needed_size wantsize > mem_pool_size mp then Some (Inr (0, mp))
      else case MP_LOCK mp of
             Inl e \<Rightarrow> Some (Inl e)
           | Inr mp \<Rightarrow> map_option (\<lambda>r. bindE r (\<lambda>(p, mp). Inr (p, MP_UNLOCK mp)))
                         (alloc_loop mal mp (total_needed_size wantsize)))"

section \<open>Release\<close>

text \<open>
  \<open>merge_free_chunk\<close>. The first loop walks back over free neighbours through the pointers at
  their ends; it returns \<open>p1\<close>, the leftmost. The second absorbs the free chunks to the right.
\<close>

partial_function (option) merge_back :: "store \<Rightarrow> addr \<Rightarrow> addr \<Rightarrow> addr \<Rightarrow> addr res option" where
  "merge_back st start p0 p1 =
     (case get_hdr st p0 of
        Inl e \<Rightarrow> Some (Inl e)
      | Inr c \<Rightarrow>
          if c_is_free c then
            if p0 - MP_CHUNKEND - MP_CHUNKHEADER \<le> start then Some (Inr p0)
            else case ftr st (p0 - MP_CHUNKEND) of
                   None \<Rightarrow> Some (Inl Out_Of_Bounds)
                 | Some q \<Rightarrow> merge_back st start q p0
          else Some (Inr p1))"

partial_function (option) merge_fwd ::
    "addr \<Rightarrow> addr \<Rightarrow> addr \<Rightarrow> addr \<Rightarrow> store \<Rightarrow> (addr \<times> store) res option" where
  "merge_fwd limit p1 p0 fl st =
     (if p0 < limit then
        case get_hdr st p0 of
          Inl e \<Rightarrow> Some (Inl e)
        | Inr c \<Rightarrow>
            if c_is_free c then
              case bindE (MP_DLINKLIST_DEL fl p0 st) (\<lambda>(fl, st).
                   bindE (mod_hdr p1 (\<lambda>d. d\<lparr>c_alloc_mem := u64 (c_alloc_mem d + c_alloc_mem c)\<rparr>) st)
                     (\<lambda>st. Inr (fl, st))) of
                Inl e \<Rightarrow> Some (Inl e)
              | Inr (fl, st) \<Rightarrow> merge_fwd limit p1 (p0 + c_alloc_mem c) fl st
            else Some (Inr (fl, st))
      else Some (Inr (fl, st)))"

definition merge_free_chunk :: "int \<Rightarrow> addr \<Rightarrow> mp_memory \<times> store \<Rightarrow> (mp_memory \<times> store) res option" where
  "merge_free_chunk psz c ms =
     (let mm = fst ms; st = snd ms in
      case merge_back st (m_start mm) c c of
        None \<Rightarrow> None
      | Some (Inl e) \<Rightarrow> Some (Inl e)
      | Some (Inr p1) \<Rightarrow>
          (case get_hdr st p1 of
             Inl e \<Rightarrow> Some (Inl e)
           | Inr h \<Rightarrow>
               (case merge_fwd (m_start mm + psz) p1 (p1 + c_alloc_mem h) (m_free_list mm) st of
                  None \<Rightarrow> None
                | Some (Inl e) \<Rightarrow> Some (Inl e)
                | Some (Inr (fl, st)) \<Rightarrow>
                    Some (bindE (get_hdr st p1) (\<lambda>h.
                      Inr (mm\<lparr>m_free_list := fl\<rparr>,
                           put_ftr (p1 + c_alloc_mem h - MP_CHUNKEND) p1 st))))))"

text \<open>The part of \<open>MemoryPoolFree\<close> that works on one block, before the merge.\<close>

definition release_chunk :: "addr \<Rightarrow> mp_memory \<times> store \<Rightarrow> (mp_memory \<times> store) res" where
  "release_chunk ck ms =
     (let mm = fst ms; st = snd ms in
      bindE (MP_DLINKLIST_DEL (m_alloc_list mm) ck st) (\<lambda>(al, st).
      bindE (MP_DLINKLIST_INS_FRT (m_free_list mm) ck st) (\<lambda>(fl, st).
      bindE (mod_hdr ck (\<lambda>c. c\<lparr>c_is_free := True\<rparr>) st) (\<lambda>st.
      bindE (get_hdr st ck) (\<lambda>c.
      Inr (mm\<lparr>m_alloc_list := al, m_free_list := fl,
              m_alloc_mem := u64 (m_alloc_mem mm - c_alloc_mem c),
              m_alloc_prog_mem := u64 (m_alloc_prog_mem mm
                 - (c_alloc_mem c - MP_CHUNKHEADER - MP_CHUNKEND))\<rparr>, st))))))"

definition MemoryPoolFree :: "MemoryPool \<Rightarrow> addr \<Rightarrow> (int \<times> MemoryPool) res option" where
  "MemoryPoolFree mp p =
     (if p = 0 then Some (Inr (1, mp))
      else case MP_LOCK mp of
             Inl e \<Rightarrow> Some (Inl e)
           | Inr mp \<Rightarrow>
               (case (if auto_extend mp \<noteq> 0 then find_memory_list mp p
                      else if mlist mp = [] then None else Some 0) of
                  None \<Rightarrow> Some (Inl Null_Deref)
                | Some i \<Rightarrow>
                    (case release_chunk (p - MP_CHUNKHEADER) (mlist mp ! i, mem mp) of
                       Inl e \<Rightarrow> Some (Inl e)
                     | Inr ms \<Rightarrow>
                         map_option (\<lambda>r. bindE r (\<lambda>(mm, st).
                             Inr (0, MP_UNLOCK (mp\<lparr>mlist := (mlist mp)[i := mm], mem := st\<rparr>))))
                           (merge_free_chunk (mem_pool_size mp) (p - MP_CHUNKHEADER) ms))))"

section \<open>Whole-pool operations and statistics\<close>

fun clear_blocks :: "mp_memory list \<Rightarrow> store \<Rightarrow> mp_memory list \<times> store" where
  "clear_blocks [] st = ([], st)"
| "clear_blocks (mm # ms) st =
     (let (mm', st) = MP_INIT_MEMORY_STRUCT (m_mem_pool_size mm) (mm, st);
          (ms', st) = clear_blocks ms st
      in (mm' # ms', st))"

definition MemoryPoolClear :: "MemoryPool \<Rightarrow> MemoryPool res" where
  "MemoryPoolClear mp =
     bindE (MP_LOCK mp) (\<lambda>mp.
     let (ms, st) = clear_blocks (mlist mp) (mem mp) in
     Inr (MP_UNLOCK (mp\<lparr>mlist := ms, mem := st\<rparr>)))"

text \<open>\<open>MemoryPoolDestroy\<close> returns 0 and the regions given back to \<open>free\<close>, in order.\<close>

definition MemoryPoolDestroy :: "MemoryPool \<Rightarrow> (int \<times> addr list) res" where
  "MemoryPoolDestroy mp =
     bindE (MP_LOCK mp) (\<lambda>mp. Inr (0, map (\<lambda>mm. m_start mm - SIZEOF_MP_MEMORY) (mlist mp)))"

definition GetTotalMemory :: "MemoryPool \<Rightarrow> int" where
  "GetTotalMemory mp = total_mem_pool_size mp"

definition GetUsedMemory :: "MemoryPool \<Rightarrow> int res" where
  "GetUsedMemory mp = bindE (MP_LOCK mp) (\<lambda>mp. Inr (u64 (\<Sum>mm\<leftarrow>mlist mp. m_alloc_mem mm)))"

definition GetProgMemory :: "MemoryPool \<Rightarrow> int res" where
  "GetProgMemory mp = bindE (MP_LOCK mp) (\<lambda>mp. Inr (u64 (\<Sum>mm\<leftarrow>mlist mp. m_alloc_prog_mem mm)))"

definition get_memory_list_count :: "MemoryPool \<Rightarrow> nat res" where
  "get_memory_list_count mp = bindE (MP_LOCK mp) (\<lambda>mp. Inr (length (mlist mp)))"

partial_function (option) list_length :: "store \<Rightarrow> addr \<Rightarrow> nat \<Rightarrow> nat res option" where
  "list_length st p k =
     (if p = 0 then Some (Inr k)
      else case get_hdr st p of
             Inl e \<Rightarrow> Some (Inl e)
           | Inr c \<Rightarrow> list_length st (c_next c) (Suc k))"

text \<open>\<open>get_memory_info\<close>: the lengths of the two lists of a block.\<close>

definition get_memory_info :: "MemoryPool \<Rightarrow> mp_memory \<Rightarrow> (nat \<times> nat) res option" where
  "get_memory_info mp mm =
     (case MP_LOCK mp of
        Inl e \<Rightarrow> Some (Inl e)
      | Inr mp \<Rightarrow>
          (case list_length (mem mp) (m_free_list mm) 0 of
             None \<Rightarrow> None
           | Some (Inl e) \<Rightarrow> Some (Inl e)
           | Some (Inr f) \<Rightarrow>
               map_option (\<lambda>r. bindE r (\<lambda>a. Inr (f, a))) (list_length (mem mp) (m_alloc_list mm) 0)))"

definition get_memory_id :: "mp_memory \<Rightarrow> int" where
  "get_memory_id mm = m_id mm"

end
