(* ===== verification/Chunk_Lists.thy ===== *)
theory Chunk_Lists
  imports Memory_Pool
begin

text \<open>
  The doubly linked lists of the memory pool: \<open>seg st pr p xs e\<close> says that following
  \<open>next\<close> from \<open>p\<close> visits the chunks \<open>xs\<close> and ends at \<open>e\<close>, and that each \<open>prev\<close> points
  to the chunk before (\<open>pr\<close> for the first). The macros of the code are shown to be deletion,
  insertion at the front and replacement on these lists, to leave every size, flag and back
  pointer alone, and to write only to headers of the list.
\<close>

section \<open>Segments\<close>

fun seg :: "store \<Rightarrow> addr \<Rightarrow> addr \<Rightarrow> addr list \<Rightarrow> addr \<Rightarrow> bool" where
  "seg st pr p [] e \<longleftrightarrow> p = e"
| "seg st pr p (x # xs) e \<longleftrightarrow>
     p = x \<and> x \<noteq> 0 \<and> (\<exists>k. hdr st x = Some k \<and> c_prev k = pr \<and> seg st x (c_next k) xs e)"

abbreviation dll :: "store \<Rightarrow> addr \<Rightarrow> addr list \<Rightarrow> bool" where
  "dll st p xs \<equiv> seg st 0 p xs 0"

lemma seg_append:
  "seg st pr p (xs @ ys) e \<longleftrightarrow> (\<exists>m. seg st pr p xs m \<and> seg st (last (pr # xs)) m ys e)"
  by (induction xs arbitrary: pr p) auto

lemma seg_cong:
  "(\<And>a. a \<in> set xs \<Longrightarrow> hdr st' a = hdr st a) \<Longrightarrow> seg st' pr p xs e \<longleftrightarrow> seg st pr p xs e"
  by (induction xs arbitrary: pr p) auto

lemma seg_nonzero: "seg st pr p xs e \<Longrightarrow> x \<in> set xs \<Longrightarrow> x \<noteq> 0 \<and> hdr st x \<noteq> None"
  by (induction xs arbitrary: pr p) auto

lemma dll_head: "dll st p xs \<Longrightarrow> p = (case xs of [] \<Rightarrow> 0 | x # _ \<Rightarrow> x)"
  by (cases xs) auto

section \<open>What a header update leaves alone\<close>

definition csz :: "store \<Rightarrow> addr \<Rightarrow> int" where
  "csz st a = (case hdr st a of None \<Rightarrow> 0 | Some k \<Rightarrow> c_alloc_mem k)"

definition cfree :: "store \<Rightarrow> addr \<Rightarrow> bool" where
  "cfree st a = (case hdr st a of None \<Rightarrow> False | Some k \<Rightarrow> c_is_free k)"

definition mapped :: "store \<Rightarrow> addr \<Rightarrow> bool" where
  "mapped st a \<longleftrightarrow> hdr st a \<noteq> None"

text \<open>Only links differ.\<close>

definition same_shape :: "store \<Rightarrow> store \<Rightarrow> bool" where
  "same_shape st st' \<longleftrightarrow> ftr st' = ftr st \<and>
     (\<forall>a. csz st' a = csz st a \<and> cfree st' a = cfree st a \<and> mapped st' a = mapped st a)"

lemma same_shape_refl [simp]: "same_shape st st"
  by (simp add: same_shape_def)

lemma same_shape_trans: "same_shape s t \<Longrightarrow> same_shape t u \<Longrightarrow> same_shape s u"
  by (simp add: same_shape_def)

lemma same_shapeD:
  "same_shape st st' \<Longrightarrow> csz st' a = csz st a"
  "same_shape st st' \<Longrightarrow> cfree st' a = cfree st a"
  "same_shape st st' \<Longrightarrow> mapped st' a = mapped st a"
  "same_shape st st' \<Longrightarrow> ftr st' = ftr st"
  by (simp_all add: same_shape_def)

lemma hdr_put_hdr [simp]: "hdr (put_hdr a c st) = (hdr st)(a \<mapsto> c)"
  by (simp add: put_hdr_def)

lemma ftr_put_hdr [simp]: "ftr (put_hdr a c st) = ftr st"
  by (simp add: put_hdr_def)

lemma hdr_put_ftr [simp]: "hdr (put_ftr a p st) = hdr st"
  by (simp add: put_ftr_def)

lemma ftr_put_ftr [simp]: "ftr (put_ftr a p st) = (ftr st)(a \<mapsto> p)"
  by (simp add: put_ftr_def)

lemma get_hdr_Some [simp]: "hdr st a = Some k \<Longrightarrow> a \<noteq> 0 \<Longrightarrow> get_hdr st a = Inr k"
  by (simp add: get_hdr_def)

lemma mod_hdr_Some [simp]: "hdr st a = Some k \<Longrightarrow> a \<noteq> 0 \<Longrightarrow> mod_hdr a f st = Inr (put_hdr a (f k) st)"
  by (simp add: mod_hdr_def)

lemma csz_put_hdr: "csz (put_hdr a c st) b = (if b = a then c_alloc_mem c else csz st b)"
  by (simp add: csz_def)

lemma cfree_put_hdr: "cfree (put_hdr a c st) b = (if b = a then c_is_free c else cfree st b)"
  by (simp add: cfree_def)

lemma mapped_put_hdr: "mapped (put_hdr a c st) b = (b = a \<or> mapped st b)"
  by (auto simp: mapped_def)

lemma put_ftr_same [simp]:
  "csz (put_ftr a p st) = csz st" "cfree (put_ftr a p st) = cfree st"
  "mapped (put_ftr a p st) = mapped st"
  by (simp_all add: csz_def cfree_def mapped_def fun_eq_iff)

lemma seg_put_ftr [simp]: "seg (put_ftr a q st) pr p xs e = seg st pr p xs e"
  by (rule seg_cong) simp

lemma csz_Some: "hdr st a = Some k \<Longrightarrow> csz st a = c_alloc_mem k"
  by (simp add: csz_def)

lemma cfree_Some: "hdr st a = Some k \<Longrightarrow> cfree st a = c_is_free k"
  by (simp add: cfree_def)

lemma mapped_Some: "hdr st a = Some k \<Longrightarrow> mapped st a"
  by (simp add: mapped_def)

lemmas shape_simps = csz_put_hdr cfree_put_hdr mapped_put_hdr csz_Some cfree_Some mapped_Some

lemma same_shape_put_hdr:
  "hdr st a = Some k \<Longrightarrow> c_alloc_mem k' = c_alloc_mem k \<Longrightarrow> c_is_free k' = c_is_free k \<Longrightarrow>
     same_shape st (put_hdr a k' st)"
  by (auto simp: same_shape_def shape_simps)

section \<open>Insertion at the front\<close>

text \<open>The first chunk of a list occurs once.\<close>

lemma dll_first_once:
  assumes "dll st y (y # ys)"
  shows "y \<notin> set ys"
proof
  assume "y \<in> set ys"
  then obtain us vs where ys: "ys = us @ y # vs" by (meson split_list)
  from assms have e: "\<exists>k. hdr st y = Some k \<and> c_prev k = 0 \<and> seg st y (c_next k) ys 0" "y \<noteq> 0" by auto
  then obtain k where k: "hdr st y = Some k" "c_prev k = 0" "seg st y (c_next k) ys 0" by blast
  then have "last (y # us) = 0" by (auto simp: ys seg_append)
  moreover have "last (y # us) \<noteq> 0"
  proof (cases us)
    case Nil
    then show ?thesis using e(2) by simp
  next
    case (Cons u us')
    then have "last us \<in> set ys" unfolding ys by simp
    then show ?thesis using seg_nonzero[OF k(3)] Cons by auto
  qed
  ultimately show False by simp
qed

lemma dlinklist_ins_frt:
  assumes "dll st head xs" "x \<notin> set xs" "x \<noteq> 0" "mapped st x"
  shows "\<exists>st'. MP_DLINKLIST_INS_FRT head x st = Inr (x, st') \<and> dll st' x (x # xs) \<and>
           same_shape st st' \<and> (\<forall>a. a \<notin> set (x # xs) \<longrightarrow> hdr st' a = hdr st a)"
proof -
  from assms(4) obtain k where k: "hdr st x = Some k" by (auto simp: mapped_def)
  define k' where "k' = k\<lparr>c_prev := 0, c_next := head\<rparr>"
  define st1 where "st1 = put_hdr x k' st"
  have s1: "same_shape st st1"
    unfolding st1_def by (rule same_shape_put_hdr[OF k]) (simp_all add: k'_def)
  show ?thesis
  proof (cases xs)
    case Nil
    with assms have "head = 0" by simp
    then have "MP_DLINKLIST_INS_FRT head x st = Inr (x, st1)"
      using k assms(3) by (simp add: MP_DLINKLIST_INS_FRT_def st1_def k'_def)
    moreover have "dll st1 x (x # xs)"
      using Nil assms(3) \<open>head = 0\<close> by (simp add: st1_def k'_def)
    ultimately show ?thesis using s1 by (auto simp: st1_def)
  next
    case (Cons y ys)
    with assms obtain ky where ky: "head = y" "y \<noteq> 0" "hdr st y = Some ky" "c_prev ky = 0"
      "seg st y (c_next ky) ys 0" and ne: "y \<noteq> x" "x \<notin> set ys" by auto
    have once: "y \<notin> set ys" using dll_first_once[of st y ys] ky by simp
    define st2 where "st2 = put_hdr y (ky\<lparr>c_prev := x\<rparr>) st1"
    have hy: "hdr st1 y = Some ky" using ky ne by (simp add: st1_def)
    have "MP_DLINKLIST_INS_FRT head x st = Inr (x, st2)"
      using k assms(3) ky hy by (simp add: MP_DLINKLIST_INS_FRT_def st1_def k'_def st2_def)
    moreover have "same_shape st1 st2"
      unfolding st2_def by (rule same_shape_put_hdr[OF hy]) simp_all
    moreover have "seg st2 y (c_next ky) ys 0"
      using ky(5) ne once by (subst seg_cong[of _ st2 st]) (auto simp: st2_def st1_def)
    then have "dll st2 x (x # xs)"
      using Cons ky ne assms(3) by (simp add: st2_def st1_def k'_def)
    ultimately show ?thesis
      using s1 Cons same_shape_trans[of st st1 st2] by (auto simp: st2_def st1_def)
  qed
qed

section \<open>Deletion\<close>

lemma seg_distinct_step:
  assumes "seg st pr p (xs @ x # ys) e"
  obtains k where "hdr st x = Some k" "x \<noteq> 0" "c_prev k = last (pr # xs)" "seg st pr p xs x"
    "seg st x (c_next k) ys e"
  using assms by (auto simp: seg_append)

text \<open>The \<open>prev\<close> of the first chunk of a segment is redirected.\<close>

lemma seg_new_prev:
  assumes "seg st pr p ys e" "distinct ys" "p \<noteq> 0" "e = 0"
  shows "\<exists>k. hdr st p = Some k \<and> seg (put_hdr p (k\<lparr>c_prev := q\<rparr>) st) q p ys e"
proof (cases ys)
  case Nil
  with assms show ?thesis by simp
next
  case (Cons y zs)
  with assms obtain k where k: "p = y" "hdr st y = Some k" "seg st y (c_next k) zs e" "y \<noteq> 0"
    "y \<notin> set zs" by auto
  then have "seg (put_hdr y (k\<lparr>c_prev := q\<rparr>) st) y (c_next k) zs e"
    by (subst seg_cong[of _ _ st]) auto
  with k Cons show ?thesis by auto
qed

text \<open>The \<open>next\<close> of the last chunk of a segment is redirected.\<close>

lemma seg_new_next:
  assumes "seg st pr p (us @ [u]) m" "distinct (us @ [u])"
  shows "\<exists>k. hdr st u = Some k \<and> seg (put_hdr u (k\<lparr>c_next := q\<rparr>) st) pr p (us @ [u]) q"
proof -
  from assms(1) obtain k where k: "hdr st u = Some k" "u \<noteq> 0" "c_prev k = last (pr # us)"
    "seg st pr p us u" by (rule seg_distinct_step)
  then have "seg (put_hdr u (k\<lparr>c_next := q\<rparr>) st) pr p us u"
    using assms(2) by (subst seg_cong[of _ _ st]) auto
  with k show ?thesis by (auto simp: seg_append)
qed

lemma redirect_prev:
  assumes "seg s x m ys 0" "distinct ys"
  shows "\<exists>st'. (if m \<noteq> 0 then mod_hdr m (\<lambda>d. d\<lparr>c_prev := q\<rparr>) s else Inr s) = Inr st' \<and>
      seg st' q m ys 0 \<and> same_shape s st' \<and> (\<forall>a. a \<notin> set ys \<longrightarrow> hdr st' a = hdr s a)"
proof (cases "m = 0")
  case True
  with assms have "ys = []" by (cases ys) auto
  with True show ?thesis by simp
next
  case False
  with assms obtain km where km: "hdr s m = Some km"
    "seg (put_hdr m (km\<lparr>c_prev := q\<rparr>) s) q m ys 0"
    using seg_new_prev[of s x m ys 0 q] by auto
  moreover have "m \<in> set ys" using assms(1) False by (cases ys) auto
  ultimately show ?thesis
    using False same_shape_put_hdr[OF km(1), of "km\<lparr>c_prev := q\<rparr>"] by auto
qed

lemma redirect_next:
  assumes "seg s 0 h us x" "distinct us" "us \<noteq> []"
  shows "last us \<noteq> 0 \<and> (\<exists>st'. mod_hdr (last us) (\<lambda>d. d\<lparr>c_next := q\<rparr>) s = Inr st' \<and>
      seg st' 0 h us q \<and> same_shape s st' \<and> (\<forall>a. a \<notin> set us \<longrightarrow> hdr st' a = hdr s a))"
proof -
  from assms(3) obtain vs u where us: "us = vs @ [u]" by (cases us rule: rev_cases) auto
  have u: "u \<noteq> 0" using seg_nonzero[OF assms(1), of u] us by simp
  obtain ku where ku: "hdr s u = Some ku" "seg (put_hdr u (ku\<lparr>c_next := q\<rparr>) s) 0 h us q"
    using seg_new_next[of s 0 h vs u x q] assms us by auto
  moreover have "same_shape s (put_hdr u (ku\<lparr>c_next := q\<rparr>) s)"
    by (rule same_shape_put_hdr[OF ku(1)]) simp_all
  ultimately show ?thesis using u us by auto
qed

lemma dlinklist_del:
  assumes "dll st head (xs @ x # ys)" "distinct (xs @ x # ys)"
  shows "\<exists>head' st'. MP_DLINKLIST_DEL head x st = Inr (head', st') \<and> dll st' head' (xs @ ys) \<and>
           same_shape st st' \<and> (\<forall>a. a \<notin> set (xs @ ys) \<longrightarrow> hdr st' a = hdr st a)"
proof -
  from assms(1) obtain k where k: "hdr st x = Some k" "x \<noteq> 0" "c_prev k = last (0 # xs)"
    "seg st 0 head xs x" "seg st x (c_next k) ys 0" by (rule seg_distinct_step)
  have d: "distinct xs" "distinct ys" "set xs \<inter> set ys = {}" using assms(2) by auto
  show ?thesis
  proof (cases "xs = []")
    case True
    with k redirect_prev[OF k(5) d(2), of 0] show ?thesis
      by (auto simp: MP_DLINKLIST_DEL_def)
  next
    case False
    obtain st1 where st1: "last xs \<noteq> 0" "mod_hdr (last xs) (\<lambda>d. d\<lparr>c_next := c_next k\<rparr>) st = Inr st1"
      "seg st1 0 head xs (c_next k)" "same_shape st st1" "\<forall>a. a \<notin> set xs \<longrightarrow> hdr st1 a = hdr st a"
      using redirect_next[OF k(4) d(1) False, of "c_next k"] by auto
    have "seg st1 x (c_next k) ys 0"
      using k(5) st1(5) d(3) by (subst seg_cong[of _ _ st]) auto
    from redirect_prev[OF this d(2), of "last xs"] obtain st2 where st2:
      "(if c_next k \<noteq> 0 then mod_hdr (c_next k) (\<lambda>d. d\<lparr>c_prev := last xs\<rparr>) st1 else Inr st1) = Inr st2"
      "seg st2 (last xs) (c_next k) ys 0" "same_shape st1 st2"
      "\<forall>a. a \<notin> set ys \<longrightarrow> hdr st2 a = hdr st1 a" by blast
    have "seg st2 0 head xs (c_next k)"
      using st1(3) st2(4) d(3) by (subst seg_cong[of _ _ st1]) auto
    then have "dll st2 head (xs @ ys)"
      using st2(2) False by (auto simp: seg_append)
    moreover have "MP_DLINKLIST_DEL head x st = Inr (head, st2)"
      using k(1,2,3) False st1(1,2) st2(1)
      by (cases "c_next k = 0") (simp_all add: MP_DLINKLIST_DEL_def)
    ultimately show ?thesis
      using same_shape_trans[OF st1(4) st2(3)] st2(4) st1(5) by auto
  qed
qed

section \<open>Search along a list\<close>

lemma find_free_seg:
  assumes "seg st pr p xs 0"
  shows "\<exists>c. find_free st p n = Some (Inr c) \<and>
    (if \<exists>x\<in>set xs. n \<le> csz st x then c \<in> set xs \<and> n \<le> csz st c \<and> c \<noteq> 0 else c = 0)"
  using assms
proof (induction xs arbitrary: pr p)
  case Nil
  then show ?case by (simp add: find_free.simps)
next
  case (Cons x xs)
  then obtain k where k: "p = x" "x \<noteq> 0" "hdr st x = Some k" "seg st x (c_next k) xs 0" by auto
  from Cons.IH[OF k(4)] obtain c where c: "find_free st (c_next k) n = Some (Inr c)"
    "if \<exists>x\<in>set xs. n \<le> csz st x then c \<in> set xs \<and> n \<le> csz st c \<and> c \<noteq> 0 else c = 0"
    by blast
  show ?case
    using k c by (subst find_free.simps) (auto simp: csz_Some)
qed

lemma list_length_seg:
  "seg st pr p xs 0 \<Longrightarrow> list_length st p k = Some (Inr (k + length xs))"
proof (induction xs arbitrary: pr p k)
  case Nil
  then show ?case by (simp add: list_length.simps)
next
  case (Cons x xs)
  then show ?case by (subst list_length.simps) auto
qed

end
