(* ===== verification/Chunk_Blocks.thy ===== *)
theory Chunk_Blocks
  imports Chunk_Lists
begin

text \<open>
  The well-formedness of one block of the memory pool and its preservation by the steps of
  allocation and release: the chunks tile the block, the two lists hold exactly the free and
  the allocated chunks, the counters are the sums over the allocated ones, every chunk but the
  last carries the pointer back to its header, and no two free chunks touch.
\<close>

section \<open>Tilings\<close>

fun tiles :: "store \<Rightarrow> addr \<Rightarrow> addr list \<Rightarrow> addr \<Rightarrow> bool" where
  "tiles st a [] e \<longleftrightarrow> a = e"
| "tiles st a (c # cs) e \<longleftrightarrow> c = a \<and> mapped st c \<and> 40 < csz st c \<and> tiles st (a + csz st c) cs e"

lemma tiles_append: "tiles st a (xs @ ys) e \<longleftrightarrow> (\<exists>m. tiles st a xs m \<and> tiles st m ys e)"
  by (induction xs arbitrary: a) auto

lemma tiles_cong:
  "(\<And>c. c \<in> set cs \<Longrightarrow> csz st' c = csz st c \<and> mapped st' c = mapped st c) \<Longrightarrow>
     tiles st' a cs e = tiles st a cs e"
  by (induction cs arbitrary: a) auto

lemma tiles_le: "tiles st a cs e \<Longrightarrow> a \<le> e"
proof (induction cs arbitrary: a)
  case (Cons c cs)
  then have "a + csz st c \<le> e" "40 < csz st c" by auto
  then show ?case by linarith
qed simp

lemma tiles_bounds:
  "tiles st a cs e \<Longrightarrow> c \<in> set cs \<Longrightarrow>
     a \<le> c \<and> c + csz st c \<le> e \<and> 40 < csz st c \<and> mapped st c"
proof (induction cs arbitrary: a)
  case (Cons d cs)
  then have t: "d = a" "tiles st (a + csz st d) cs e" "40 < csz st d" "mapped st d" by auto
  show ?case
  proof (cases "c = d")
    case True
    with t show ?thesis using tiles_le[OF t(2)] by auto
  next
    case False
    with Cons.prems have "c \<in> set cs" by simp
    from Cons.IH[OF t(2) this] t show ?thesis by auto
  qed
qed simp

lemma tiles_apart:
  "tiles st a cs e \<Longrightarrow> c \<in> set cs \<Longrightarrow> d \<in> set cs \<Longrightarrow> c < d \<Longrightarrow> c + csz st c \<le> d"
proof (induction cs arbitrary: a)
  case (Cons x cs)
  then have t: "x = a" "tiles st (a + csz st x) cs e" "40 < csz st x" by auto
  have ge: "y \<in> set cs \<Longrightarrow> a + csz st x \<le> y" for y
    using tiles_bounds[OF t(2)] by blast
  consider "c = x" "d \<in> set cs" | "c \<in> set cs" "d \<in> set cs" | "d = x"
    using Cons.prems by auto
  then show ?case
  proof cases
    case 1
    then show ?thesis using ge t by auto
  next
    case 2
    then show ?thesis using Cons.IH[OF t(2)] Cons.prems by blast
  next
    case 3
    then have "d \<le> c" using Cons.prems ge[of c] t by auto
    then show ?thesis using Cons.prems by simp
  qed
qed simp

lemma tiles_distinct: "tiles st a cs e \<Longrightarrow> distinct cs"
proof (induction cs arbitrary: a)
  case (Cons x cs)
  then have t: "x = a" "tiles st (a + csz st x) cs e" "40 < csz st x" by auto
  then show ?case using Cons.IH[OF t(2)] tiles_bounds[OF t(2), of x] by auto
qed simp

lemma tiles_next:
  "tiles st a cs e \<Longrightarrow> c \<in> set cs \<Longrightarrow> c + csz st c < e \<Longrightarrow>
     \<exists>xs ys. cs = xs @ c # (c + csz st c) # ys"
proof -
  assume t: "tiles st a cs e" and c: "c \<in> set cs" and l: "c + csz st c < e"
  from c obtain xs ys where cs: "cs = xs @ c # ys" by (meson split_list)
  from t have "tiles st (c + csz st c) ys e" unfolding cs by (auto simp: tiles_append)
  with l obtain zs where "ys = (c + csz st c) # zs" by (cases ys) auto
  with cs show ?thesis by blast
qed

lemma tiles_prev:
  "tiles st a cs e \<Longrightarrow> c \<in> set cs \<Longrightarrow> a < c \<Longrightarrow>
     \<exists>p xs ys. cs = xs @ p # c # ys \<and> p + csz st p = c"
proof -
  assume t: "tiles st a cs e" and c: "c \<in> set cs" and l: "a < c"
  from c obtain xs ys where cs: "cs = xs @ c # ys" by (meson split_list)
  from t have x: "tiles st a xs c" unfolding cs by (auto simp: tiles_append)
  with l have "xs \<noteq> []" by auto
  then obtain us p where us: "xs = us @ [p]" by (cases xs rule: rev_cases) auto
  with x have "p + csz st p = c" by (auto simp: tiles_append)
  with cs us show ?thesis by auto
qed

section \<open>Well-formed blocks\<close>

definition block_end :: "mp_memory \<Rightarrow> addr" where
  "block_end mm = m_start mm + m_mem_pool_size mm"

text \<open>
  \<open>cs\<close> are the chunks in address order, \<open>fl\<close> and \<open>al\<close> the two lists, \<open>X\<close> the chunks whose
  back pointer need not be right, \<open>D\<close> the chunks that are on neither list. Between operations
  both sets are empty.
\<close>

definition block_core ::
    "addr set \<Rightarrow> addr set \<Rightarrow> store \<Rightarrow> mp_memory \<Rightarrow> addr list \<Rightarrow> addr list \<Rightarrow> addr list \<Rightarrow> bool" where
  "block_core X D st mm cs fl al \<longleftrightarrow>
     0 < m_start mm \<and> m_mem_pool_size mm < 18446744073709551616 \<and>
     tiles st (m_start mm) cs (block_end mm) \<and>
     dll st (m_free_list mm) fl \<and> dll st (m_alloc_list mm) al \<and> distinct fl \<and> distinct al \<and>
     D \<subseteq> set cs \<and> set fl = {c \<in> set cs. cfree st c} - D \<and>
     set al = {c \<in> set cs. \<not> cfree st c} - D \<and>
     m_alloc_mem mm = (\<Sum>c\<leftarrow>al. csz st c) \<and> m_alloc_prog_mem mm = (\<Sum>c\<leftarrow>al. csz st c - 40) \<and>
     (\<forall>c\<in>set cs - X. c + csz st c < block_end mm \<longrightarrow> ftr st (c + csz st c - 8) = Some c)"

text \<open>No free chunk outside \<open>X\<close> is followed by a free chunk.\<close>

definition coalesced :: "addr set \<Rightarrow> store \<Rightarrow> mp_memory \<Rightarrow> addr list \<Rightarrow> bool" where
  "coalesced X st mm cs \<longleftrightarrow>
     (\<forall>c\<in>set cs - X. cfree st c \<longrightarrow> c + csz st c < block_end mm \<longrightarrow> \<not> cfree st (c + csz st c))"

definition block_ok :: "store \<Rightarrow> mp_memory \<Rightarrow> addr list \<Rightarrow> addr list \<Rightarrow> addr list \<Rightarrow> bool" where
  "block_ok st mm cs fl al \<longleftrightarrow> block_core {} {} st mm cs fl al \<and> coalesced {} st mm cs"

text \<open>Two stores that agree outside a range of addresses.\<close>

definition agree_outside :: "addr \<Rightarrow> addr \<Rightarrow> store \<Rightarrow> store \<Rightarrow> bool" where
  "agree_outside lo hi st st' \<longleftrightarrow>
     (\<forall>a. a < lo \<or> hi \<le> a \<longrightarrow> hdr st' a = hdr st a \<and> ftr st' a = ftr st a)"

lemma agree_outside_refl [simp]: "agree_outside lo hi st st"
  by (simp add: agree_outside_def)

lemma agree_outside_trans:
  "agree_outside lo hi s t \<Longrightarrow> agree_outside lo hi t u \<Longrightarrow> agree_outside lo hi s u"
  by (simp add: agree_outside_def)

lemma block_coreD:
  assumes "block_core X D st mm cs fl al"
  shows "tiles st (m_start mm) cs (block_end mm)" "dll st (m_free_list mm) fl"
    "dll st (m_alloc_list mm) al" "distinct fl" "distinct al" "0 < m_start mm"
    "set fl = {c \<in> set cs. cfree st c} - D" "set al = {c \<in> set cs. \<not> cfree st c} - D"
    "m_mem_pool_size mm < 18446744073709551616"
    "m_alloc_mem mm = (\<Sum>c\<leftarrow>al. csz st c)" "m_alloc_prog_mem mm = (\<Sum>c\<leftarrow>al. csz st c - 40)"
    "D \<subseteq> set cs"
  using assms unfolding block_core_def by blast+

lemma block_chunk:
  assumes "block_core X D st mm cs fl al" "c \<in> set cs"
  shows "m_start mm \<le> c" "c + csz st c \<le> block_end mm" "40 < csz st c" "mapped st c" "c \<noteq> 0"
    "csz st c < 18446744073709551616"
  using tiles_bounds[OF block_coreD(1)[OF assms(1)] assms(2)] block_coreD(6,9)[OF assms(1)]
  by (auto simp: block_end_def)

lemma block_ftr:
  "block_core X D st mm cs fl al \<Longrightarrow> c \<in> set cs \<Longrightarrow> c \<notin> X \<Longrightarrow> c + csz st c < block_end mm \<Longrightarrow>
     ftr st (c + csz st c - 8) = Some c"
  by (simp add: block_core_def)

lemma block_cs: "block_core X D st mm cs fl al \<Longrightarrow> set cs = set fl \<union> set al \<union> D"
  unfolding block_core_def by blast

lemma block_lists_disjoint: "block_core X D st mm cs fl al \<Longrightarrow> set fl \<inter> set al = {}"
  unfolding block_core_def by blast

lemma block_ok_core: "block_ok st mm cs fl al \<Longrightarrow> block_core {} {} st mm cs fl al"
  by (simp add: block_ok_def)

text \<open>The allocated part of a block fits in it.\<close>

lemma tiles_sum: "tiles st a cs e \<Longrightarrow> (\<Sum>c\<leftarrow>cs. csz st c) = e - a"
  by (induction cs arbitrary: a) auto

lemma tiles_sum_part:
  assumes t: "tiles st a cs e" and "distinct xs" "set xs \<subseteq> set cs"
  shows "(\<Sum>c\<leftarrow>xs. csz st c) \<le> e - a"
proof -
  have "(\<Sum>c\<leftarrow>xs. csz st c) = (\<Sum>c\<in>set xs. csz st c)"
    using assms(2) by (simp add: sum_list_distinct_conv_sum_set)
  also have "\<dots> \<le> (\<Sum>c\<in>set cs. csz st c)"
    using assms(3) tiles_bounds[OF t] by (intro sum_mono2) force+
  also have "\<dots> = (\<Sum>c\<leftarrow>cs. csz st c)"
    using tiles_distinct[OF t] by (simp add: sum_list_distinct_conv_sum_set)
  also have "\<dots> = e - a" by (rule tiles_sum[OF t])
  finally show ?thesis .
qed

lemma block_counter_bounds:
  assumes b: "block_core X D st mm cs fl al"
  shows "0 \<le> m_alloc_prog_mem mm" "m_alloc_prog_mem mm \<le> m_alloc_mem mm"
    "m_alloc_mem mm \<le> m_mem_pool_size mm"
proof -
  have "40 \<le> csz st c" if "c \<in> set al" for c
    using block_chunk(3)[OF b, of c] block_cs[OF b] that by simp
  then show "0 \<le> m_alloc_prog_mem mm"
    by (auto simp: block_coreD(11)[OF b] intro!: sum_list_nonneg)
  show "m_alloc_prog_mem mm \<le> m_alloc_mem mm"
    unfolding block_coreD(10,11)[OF b] by (rule sum_list_mono) simp
  have "set al \<subseteq> set cs" using block_cs[OF b] by blast
  then show "m_alloc_mem mm \<le> m_mem_pool_size mm"
    using tiles_sum_part[OF block_coreD(1,5)[OF b]]
    by (simp add: block_coreD(10)[OF b] block_end_def)
qed

lemma block_room:
  assumes b: "block_core X D st mm cs fl al" and c: "c \<in> set fl"
  shows "m_alloc_mem mm + csz st c \<le> m_mem_pool_size mm"
proof -
  have "set (c # al) \<subseteq> set cs" "distinct (c # al)"
    using block_cs[OF b] block_lists_disjoint[OF b] c block_coreD(5)[OF b] by auto
  from tiles_sum_part[OF block_coreD(1)[OF b] this(2,1)] show ?thesis
    by (simp add: block_coreD(10)[OF b] block_end_def)
qed

text \<open>A block sees only its own addresses.\<close>

lemma block_ok_outside:
  assumes "block_ok st mm cs fl al" "agree_outside lo hi st st'"
    and "block_end mm \<le> lo \<or> hi \<le> m_start mm"
  shows "block_ok st' mm cs fl al"
proof -
  note b = block_ok_core[OF assms(1)]
  have out: "a < lo \<or> hi \<le> a" if "m_start mm \<le> a" "a < block_end mm" for a
    using assms(3) that by auto
  have inside: "m_start mm \<le> c" "c < block_end mm" if "c \<in> set cs" for c
    using block_chunk[OF b that] by auto
  have h: "hdr st' c = hdr st c" if "c \<in> set cs" for c
    using assms(2) out[OF inside[OF that]] by (auto simp: agree_outside_def)
  then have same: "csz st' c = csz st c" "cfree st' c = cfree st c" "mapped st' c = mapped st c"
    if "c \<in> set cs" for c using that by (simp_all add: csz_def cfree_def mapped_def)
  have f: "ftr st' (c + csz st c - 8) = ftr st (c + csz st c - 8)" if "c \<in> set cs" for c
    using assms(2) out[of "c + csz st c - 8"] block_chunk[OF b that]
    by (auto simp: agree_outside_def)
  have sub: "set fl \<subseteq> set cs" "set al \<subseteq> set cs" using block_cs[OF b] by auto
  have t: "tiles st' (m_start mm) cs (block_end mm)"
    using block_coreD(1)[OF b] same by (subst tiles_cong[of _ _ st]) auto
  have l: "dll st' (m_free_list mm) fl" "dll st' (m_alloc_list mm) al"
    using block_coreD(2,3)[OF b] sub h by (subst seg_cong[of _ _ st]; auto)+
  have sums: "(\<Sum>c\<leftarrow>al. csz st' c) = (\<Sum>c\<leftarrow>al. csz st c)"
    "(\<Sum>c\<leftarrow>al. csz st' c - 40) = (\<Sum>c\<leftarrow>al. csz st c - 40)"
    using sub same by (auto intro!: arg_cong[where f = sum_list] map_cong)
  have nx: "c + csz st c \<in> set cs" if "c \<in> set cs" "c + csz st c < block_end mm" for c
    using tiles_next[OF block_coreD(1)[OF b] that] by auto
  have "block_core {} {} st' mm cs fl al"
    using b t l sums same f sub unfolding block_core_def by auto
  moreover have "coalesced {} st' mm cs"
    using assms(1) same nx unfolding block_ok_def coalesced_def by auto
  ultimately show ?thesis by (simp add: block_ok_def)
qed

end
