(* ===== verification/Chunk_Steps.thy ===== *)
theory Chunk_Steps
  imports Chunk_Blocks
begin

text \<open>
  The steps of allocation and release on one block, against the well-formedness of
  \<^verbatim>\<open>Chunk_Blocks\<close>: taking a free chunk (split or whole), putting a chunk back, absorbing a
  free right neighbour, and the whole merge.
\<close>

section \<open>Moving a chunk between the lists\<close>

text \<open>
  A change of links only, confined to the headers of the block, with new lists in place of
  the old ones.
\<close>

lemma block_core_relink:
  assumes b: "block_core X D st mm cs fl al" and s: "same_shape st st'"
    and l: "dll st' fh fl'" "dll st' ah al'" "distinct fl'" "distinct al'" "D' \<subseteq> set cs"
      "set fl' = {c \<in> set cs. cfree st c} - D'" "set al' = {c \<in> set cs. \<not> cfree st c} - D'"
    and n: "m_start mm' = m_start mm" "m_mem_pool_size mm' = m_mem_pool_size mm"
      "m_free_list mm' = fh" "m_alloc_list mm' = ah"
      "m_alloc_mem mm' = (\<Sum>c\<leftarrow>al'. csz st c)" "m_alloc_prog_mem mm' = (\<Sum>c\<leftarrow>al'. csz st c - 40)"
  shows "block_core X D' st' mm' cs fl' al'"
proof -
  have "tiles st' (m_start mm) cs (block_end mm)"
    using block_coreD(1)[OF b] same_shapeD[OF s] by (subst tiles_cong[of _ _ st]) auto
  then show ?thesis
    using b l n by (simp add: block_core_def block_end_def same_shapeD[OF s])
qed

lemma coalesced_same:
  assumes "same_shape st st'" "m_start mm' = m_start mm" "m_mem_pool_size mm' = m_mem_pool_size mm"
  shows "coalesced X st' mm' cs = coalesced X st mm cs"
  using assms by (simp add: coalesced_def block_end_def same_shapeD[OF assms(1)])

text \<open>A header may change as long as its links do not.\<close>

lemma seg_put_links:
  "hdr st p = Some k \<Longrightarrow> c_prev k' = c_prev k \<Longrightarrow> c_next k' = c_next k \<Longrightarrow> seg (put_hdr p k' st) pr q xs e = seg st pr q xs e"
  by (induction xs arbitrary: pr q) auto

lemma core_del_free:
  assumes b: "block_core X D st mm cs (us @ c # vs) al"
  shows "\<exists>h st'. MP_DLINKLIST_DEL (m_free_list mm) c st = Inr (h, st') \<and>
     block_core X (insert c D) st' (mm\<lparr>m_free_list := h\<rparr>) cs (us @ vs) al \<and> same_shape st st' \<and>
     (\<forall>a. a \<notin> set cs \<longrightarrow> hdr st' a = hdr st a)"
proof -
  note d = block_coreD[OF b]
  obtain h st' where r: "MP_DLINKLIST_DEL (m_free_list mm) c st = Inr (h, st')" "dll st' h (us @ vs)"
    "same_shape st st'" "\<forall>a. a \<notin> set (us @ vs) \<longrightarrow> hdr st' a = hdr st a"
    using dlinklist_del[OF d(2,4)] by blast
  have sub: "set (us @ c # vs) \<subseteq> set cs" "set al \<inter> set (us @ c # vs) = {}"
    using d(7,8) by blast+
  have "dll st' (m_alloc_list mm) al"
    using d(3) r(4) sub(2) by (subst seg_cong[of _ _ st]) auto
  moreover have "insert c D \<subseteq> set cs" using d(12) sub(1) by auto
  moreover have "set (us @ vs) = {c \<in> set cs. cfree st c} - insert c D"
    using d(7,4) by auto
  moreover have "set al = {c \<in> set cs. \<not> cfree st c} - insert c D"
    using d(8) sub by auto
  ultimately have "block_core X (insert c D) st' (mm\<lparr>m_free_list := h\<rparr>) cs (us @ vs) al"
    using d by (intro block_core_relink[OF b r(3,2)]) auto
  moreover have "\<forall>a. a \<notin> set cs \<longrightarrow> hdr st' a = hdr st a" using r(4) sub(1) by auto
  ultimately show ?thesis using r(1,3) by blast
qed

lemma core_del_alloc:
  assumes b: "block_core X D st mm cs fl (us @ c # vs)"
  shows "\<exists>h st'. MP_DLINKLIST_DEL (m_alloc_list mm) c st = Inr (h, st') \<and>
     block_core X (insert c D) st' (mm\<lparr>m_alloc_list := h, m_alloc_mem := m_alloc_mem mm - csz st c,
        m_alloc_prog_mem := m_alloc_prog_mem mm - (csz st c - 40)\<rparr>) cs fl (us @ vs) \<and>
     same_shape st st' \<and> (\<forall>a. a \<notin> set cs \<longrightarrow> hdr st' a = hdr st a)"
proof -
  note d = block_coreD[OF b]
  obtain h st' where r: "MP_DLINKLIST_DEL (m_alloc_list mm) c st = Inr (h, st')" "dll st' h (us @ vs)"
    "same_shape st st'" "\<forall>a. a \<notin> set (us @ vs) \<longrightarrow> hdr st' a = hdr st a"
    using dlinklist_del[OF d(3,5)] by blast
  have sub: "set (us @ c # vs) \<subseteq> set cs" "set fl \<inter> set (us @ c # vs) = {}"
    using d(7,8) by blast+
  have "dll st' (m_free_list mm) fl"
    using d(2) r(4) sub(2) by (subst seg_cong[of _ _ st]) auto
  moreover have "insert c D \<subseteq> set cs" using d(12) sub(1) by auto
  moreover have "set (us @ vs) = {c \<in> set cs. \<not> cfree st c} - insert c D"
    using d(8,5) by auto
  moreover have "set fl = {c \<in> set cs. cfree st c} - insert c D"
    using d(7) sub by auto
  ultimately have "block_core X (insert c D) st' (mm\<lparr>m_alloc_list := h,
      m_alloc_mem := m_alloc_mem mm - csz st c,
      m_alloc_prog_mem := m_alloc_prog_mem mm - (csz st c - 40)\<rparr>) cs fl (us @ vs)"
    using d r(2) by (intro block_core_relink[OF b r(3)]) auto
  moreover have "\<forall>a. a \<notin> set cs \<longrightarrow> hdr st' a = hdr st a" using r(4) sub(1) by auto
  ultimately show ?thesis using r(1,3) by blast
qed

lemma core_ins_free:
  assumes b: "block_core X D st mm cs fl al" and c: "c \<in> D" "cfree st c"
  shows "\<exists>st'. MP_DLINKLIST_INS_FRT (m_free_list mm) c st = Inr (c, st') \<and>
     block_core X (D - {c}) st' (mm\<lparr>m_free_list := c\<rparr>) cs (c # fl) al \<and> same_shape st st' \<and>
     (\<forall>a. a \<notin> set cs \<longrightarrow> hdr st' a = hdr st a)"
proof -
  note d = block_coreD[OF b]
  have cs: "c \<in> set cs" "c \<notin> set fl" "c \<notin> set al" using d(7,8,12) c by auto
  obtain st' where r: "MP_DLINKLIST_INS_FRT (m_free_list mm) c st = Inr (c, st')"
    "dll st' c (c # fl)" "same_shape st st'" "\<forall>a. a \<notin> set (c # fl) \<longrightarrow> hdr st' a = hdr st a"
    using dlinklist_ins_frt[OF d(2) cs(2)] block_chunk[OF b cs(1)] by blast
  have sub: "set (c # fl) \<subseteq> set cs" "set al \<inter> set (c # fl) = {}"
    using d(7,8) cs by auto
  have "dll st' (m_alloc_list mm) al"
    using d(3) r(4) sub(2) by (subst seg_cong[of _ _ st]) auto
  moreover have "set (c # fl) = {c \<in> set cs. cfree st c} - (D - {c})" "D - {c} \<subseteq> set cs"
    "set al = {c \<in> set cs. \<not> cfree st c} - (D - {c})"
    using d(7,8,12) cs c by auto
  ultimately have "block_core X (D - {c}) st' (mm\<lparr>m_free_list := c\<rparr>) cs (c # fl) al"
    using d cs by (intro block_core_relink[OF b r(3,2)]) auto
  moreover have "\<forall>a. a \<notin> set cs \<longrightarrow> hdr st' a = hdr st a" using r(4) sub(1) by auto
  ultimately show ?thesis using r(1,3) by blast
qed

lemma core_ins_alloc:
  assumes b: "block_core X D st mm cs fl al" and c: "c \<in> D" "\<not> cfree st c"
  shows "\<exists>st'. MP_DLINKLIST_INS_FRT (m_alloc_list mm) c st = Inr (c, st') \<and>
     block_core X (D - {c}) st' (mm\<lparr>m_alloc_list := c, m_alloc_mem := m_alloc_mem mm + csz st c,
        m_alloc_prog_mem := m_alloc_prog_mem mm + (csz st c - 40)\<rparr>) cs fl (c # al) \<and>
     same_shape st st' \<and> (\<forall>a. a \<notin> set cs \<longrightarrow> hdr st' a = hdr st a)"
proof -
  note d = block_coreD[OF b]
  have cs: "c \<in> set cs" "c \<notin> set fl" "c \<notin> set al" using d(7,8,12) c by auto
  obtain st' where r: "MP_DLINKLIST_INS_FRT (m_alloc_list mm) c st = Inr (c, st')"
    "dll st' c (c # al)" "same_shape st st'" "\<forall>a. a \<notin> set (c # al) \<longrightarrow> hdr st' a = hdr st a"
    using dlinklist_ins_frt[OF d(3) cs(3)] block_chunk[OF b cs(1)] by blast
  have sub: "set (c # al) \<subseteq> set cs" "set fl \<inter> set (c # al) = {}"
    using d(7,8) cs by auto
  have "dll st' (m_free_list mm) fl"
    using d(2) r(4) sub(2) by (subst seg_cong[of _ _ st]) auto
  moreover have "set (c # al) = {c \<in> set cs. \<not> cfree st c} - (D - {c})" "D - {c} \<subseteq> set cs"
    "set fl = {c \<in> set cs. cfree st c} - (D - {c})"
    using d(7,8,12) cs c by auto
  ultimately have "block_core X (D - {c}) st' (mm\<lparr>m_alloc_list := c,
      m_alloc_mem := m_alloc_mem mm + csz st c,
      m_alloc_prog_mem := m_alloc_prog_mem mm + (csz st c - 40)\<rparr>) cs fl (c # al)"
    using d cs r(2) by (intro block_core_relink[OF b r(3)]) auto
  moreover have "\<forall>a. a \<notin> set cs \<longrightarrow> hdr st' a = hdr st a" using r(4) sub(1) by auto
  ultimately show ?thesis using r(1,3) by blast
qed

text \<open>The flag of a chunk on neither list is set.\<close>

lemma core_flag:
  assumes b: "block_core X D st mm cs fl al" and c: "c \<in> D"
  shows "\<exists>k. hdr st c = Some k \<and> mod_hdr c (\<lambda>d. d\<lparr>c_is_free := v\<rparr>) st
        = Inr (put_hdr c (k\<lparr>c_is_free := v\<rparr>) st) \<and>
     block_core X D (put_hdr c (k\<lparr>c_is_free := v\<rparr>) st) mm cs fl al"
proof -
  note d = block_coreD[OF b]
  have cs: "c \<in> set cs" "c \<notin> set fl" "c \<notin> set al" using d(7,8,12) c by auto
  obtain k where k: "hdr st c = Some k" using block_chunk(4)[OF b cs(1)] by (auto simp: mapped_def)
  let ?st = "put_hdr c (k\<lparr>c_is_free := v\<rparr>) st"
  have z: "csz ?st = csz st" "mapped ?st = mapped st"
    using k by (auto simp: shape_simps fun_eq_iff)
  have "tiles ?st (m_start mm) cs (block_end mm)"
    using d(1) z by (subst tiles_cong[of _ _ st]) auto
  moreover have "dll ?st (m_free_list mm) fl" "dll ?st (m_alloc_list mm) al"
    using d(2,3) cs by (subst seg_cong[of _ _ st]; auto)+
  moreover have "set fl = {c \<in> set cs. cfree ?st c} - D" "set al = {c \<in> set cs. \<not> cfree ?st c} - D"
    using d(7,8) c by (auto simp: cfree_put_hdr)
  ultimately have "block_core X D ?st mm cs fl al"
    using b unfolding block_core_def z ftr_put_hdr by blast
  with k block_chunk(5)[OF b cs(1)] show ?thesis by auto
qed

section \<open>Taking a free chunk\<close>

text \<open>The neighbours of a chunk on a list get the remainder in its place.\<close>

lemma split_redirect:
  assumes s: "seg st 0 (m_free_list mm) us c" "seg st c nx vs 0" and d: "distinct us" "distinct vs" "set us \<inter> set vs = {}"
  shows "\<exists>fl' st1 st2. (if last (0 # us) = 0 then Inr (mm\<lparr>m_free_list := q\<rparr>, st)
      else bindE (mod_hdr (last (0 # us)) (\<lambda>d. d\<lparr>c_next := q\<rparr>) st) (\<lambda>st. Inr (mm, st))) = Inr (mm\<lparr>m_free_list := fl'\<rparr>, st1) \<and>
    (if nx \<noteq> 0 then mod_hdr nx (\<lambda>d. d\<lparr>c_prev := q\<rparr>) st1 else Inr st1) = Inr st2 \<and>
    seg st2 0 fl' us q \<and> seg st2 q nx vs 0 \<and> same_shape st st2 \<and>
    (\<forall>a. a \<notin> set us \<union> set vs \<longrightarrow> hdr st2 a = hdr st a)"
proof -
  have "\<exists>fl' st1. (if last (0 # us) = 0 then Inr (mm\<lparr>m_free_list := q\<rparr>, st)
      else bindE (mod_hdr (last (0 # us)) (\<lambda>d. d\<lparr>c_next := q\<rparr>) st) (\<lambda>st. Inr (mm, st))) = Inr (mm\<lparr>m_free_list := fl'\<rparr>, st1) \<and>
      seg st1 0 fl' us q \<and> same_shape st st1 \<and> (\<forall>a. a \<notin> set us \<longrightarrow> hdr st1 a = hdr st a)"
  proof (cases "us = []")
    case False
    with redirect_next[OF s(1) d(1) False, of q] show ?thesis
      by (auto intro!: exI[of _ "m_free_list mm"])
  qed auto
  then obtain fl' st1 where st1: "(if last (0 # us) = 0 then Inr (mm\<lparr>m_free_list := q\<rparr>, st)
      else bindE (mod_hdr (last (0 # us)) (\<lambda>d. d\<lparr>c_next := q\<rparr>) st) (\<lambda>st. Inr (mm, st))) = Inr (mm\<lparr>m_free_list := fl'\<rparr>, st1)"
    "seg st1 0 fl' us q" "same_shape st st1" "\<forall>a. a \<notin> set us \<longrightarrow> hdr st1 a = hdr st a"
    by blast
  have "seg st1 c nx vs 0"
    using s(2) st1(4) d(3) by (subst seg_cong[of _ _ st]) auto
  from redirect_prev[OF this d(2), of q] obtain st2 where st2:
    "(if nx \<noteq> 0 then mod_hdr nx (\<lambda>d. d\<lparr>c_prev := q\<rparr>) st1 else Inr st1) = Inr st2"
    "seg st2 q nx vs 0" "same_shape st1 st2" "\<forall>a. a \<notin> set vs \<longrightarrow> hdr st2 a = hdr st1 a" by blast
  have "seg st2 0 fl' us q"
    using st1(2) st2(4) d(3) by (subst seg_cong[of _ _ st1]) auto
  with st1 st2 same_shape_trans[OF st1(3) st2(3)] show ?thesis by auto
qed

text \<open>The store after a split.\<close>

definition split_store :: "store \<Rightarrow> addr \<Rightarrow> int \<Rightarrow> store \<Rightarrow> bool" where
  "split_store st c n st' \<longleftrightarrow>
     ftr st' = (ftr st)(c + csz st c - 8 \<mapsto> c + n, c + n - 8 \<mapsto> c) \<and>
     csz st' c = n \<and> \<not> cfree st' c \<and> mapped st' c \<and>
     csz st' (c + n) = csz st c - n \<and> cfree st' (c + n) = cfree st c \<and> mapped st' (c + n) \<and>
     (\<forall>a. a \<noteq> c \<longrightarrow> a \<noteq> c + n \<longrightarrow>
        csz st' a = csz st a \<and> cfree st' a = cfree st a \<and> mapped st' a = mapped st a)"

lemma split_storeD:
  assumes "split_store st c n st'"
  shows "ftr st' = (ftr st)(c + csz st c - 8 \<mapsto> c + n, c + n - 8 \<mapsto> c)" "csz st' c = n" "\<not> cfree st' c" "mapped st' c"
    "csz st' (c + n) = csz st c - n" "cfree st' (c + n) = cfree st c" "mapped st' (c + n)"
    "a \<noteq> c \<Longrightarrow> a \<noteq> c + n \<Longrightarrow> csz st' a = csz st a" "a \<noteq> c \<Longrightarrow> a \<noteq> c + n \<Longrightarrow> cfree st' a = cfree st a"
    "a \<noteq> c \<Longrightarrow> a \<noteq> c + n \<Longrightarrow> mapped st' a = mapped st a"
  using assms by (auto simp: split_store_def)

text \<open>The split puts the remainder in the chunk's place on the free list.\<close>

lemma split_chunk_links:
  assumes l: "dll st (m_free_list mm) (us @ c # vs)" "distinct (us @ c # vs)"
    and fr: "c + n \<notin> set (us @ c # vs)" "c + n \<noteq> 0"
    and sz: "0 \<le> csz st c - n" "csz st c - n < 18446744073709551616"
  shows "\<exists>fl' st'. split_chunk n c (mm, st) = Inr (mm\<lparr>m_free_list := fl'\<rparr>, st') \<and>
     dll st' fl' (us @ (c + n) # vs) \<and> split_store st c n st' \<and>
     (\<forall>a. a \<notin> set (us @ vs) \<union> {c, c + n} \<longrightarrow> hdr st' a = hdr st a)"
proof -
  from l(1) obtain k where k: "hdr st c = Some k" "c \<noteq> 0" "c_prev k = last (0 # us)"
    "seg st 0 (m_free_list mm) us c" "seg st c (c_next k) vs 0" by (rule seg_distinct_step)
  have d: "distinct us" "distinct vs" "set us \<inter> set vs = {}" "c \<notin> set us" "c \<notin> set vs"
    using l(2) by auto
  define rest where "rest = csz st c - n"
  have u: "u64 (c_alloc_mem k - n) = rest" using sz k(1) by (simp add: rest_def csz_Some)
  define st0 where
    "st0 = put_ftr (c + n + rest - 8) (c + n) (put_hdr (c + n) (k\<lparr>c_alloc_mem := rest\<rparr>) st)"
  have "seg st0 0 (m_free_list mm) us c" "seg st0 c (c_next k) vs 0"
    using k(4,5) fr(1) by (subst seg_cong[of _ _ st]; auto simp: st0_def)+
  from split_redirect[OF this d(1-3), of "c + n"] obtain fl' st1 st2 where r:
    "(if c_prev k = 0 then Inr (mm\<lparr>m_free_list := c + n\<rparr>, st0)
      else bindE (mod_hdr (c_prev k) (\<lambda>d. d\<lparr>c_next := c + n\<rparr>) st0) (\<lambda>st. Inr (mm, st))) = Inr (mm\<lparr>m_free_list := fl'\<rparr>, st1)"
    "(if c_next k \<noteq> 0 then mod_hdr (c_next k) (\<lambda>d. d\<lparr>c_prev := c + n\<rparr>) st1 else Inr st1) = Inr st2"
    "seg st2 0 fl' us (c + n)" "seg st2 (c + n) (c_next k) vs 0" "same_shape st0 st2"
    and hd: "\<forall>a. a \<notin> set us \<union> set vs \<longrightarrow> hdr st2 a = hdr st0 a"
    unfolding k(3) by blast
  have nc: "c + n \<noteq> c" using fr(1) by auto
  have hc: "hdr st2 c = Some k" "hdr st2 (c + n) = Some (k\<lparr>c_alloc_mem := rest\<rparr>)"
    using hd d(4,5) k(1) fr(1) nc by (auto simp: st0_def)
  define st3 where "st3 = put_ftr (c + n - 8) c (put_hdr c (k\<lparr>c_is_free := False, c_alloc_mem := n\<rparr>) st2)"
  have run: "split_chunk n c (mm, st) = Inr (mm\<lparr>m_free_list := fl'\<rparr>, st3)"
    unfolding split_chunk_def fst_conv snd_conv Let_def get_hdr_Some[OF k(1,2)] bindE_Inr u
      MP_CHUNKEND_def st0_def[symmetric] r(1) prod.case r(2)
    using hc(1) k(2) by (simp add: st3_def)
  have "seg st3 0 fl' us (c + n)" "seg st3 (c + n) (c_next k) vs 0"
    using r(3,4) d(4,5) by (subst seg_cong[of _ _ st2]; auto simp: st3_def)+
  then have "dll st3 fl' (us @ (c + n) # vs)"
    using hc(2) nc fr(2) k(3) by (auto simp: seg_append st3_def)
  moreover have "split_store st c n st3"
    unfolding split_store_def using same_shapeD[OF r(5)] hc(2) nc k(1)
    by (simp add: st3_def st0_def rest_def shape_simps)
  moreover have "\<forall>a. a \<notin> set (us @ vs) \<union> {c, c + n} \<longrightarrow> hdr st3 a = hdr st a"
    using hd by (auto simp: st3_def st0_def)
  ultimately show ?thesis using run by blast
qed

lemma agree_outsideI:
  assumes "\<And>a. a < lo \<or> hi \<le> a \<Longrightarrow> hdr st' a = hdr st a \<and> ftr st' a = ftr st a"
  shows "agree_outside lo hi st st'"
  using assms by (simp add: agree_outside_def)

text \<open>Headers of the chunks are inside the block.\<close>

lemma agree_outside_chunks:
  assumes b: "block_core X D st mm cs fl al" and "\<forall>a. a \<notin> set cs \<longrightarrow> hdr st' a = hdr st a"
    and "ftr st' = ftr st"
  shows "agree_outside (m_start mm) (block_end mm) st st'"
proof (rule agree_outsideI)
  fix a assume a: "a < m_start mm \<or> block_end mm \<le> a"
  then have "a \<notin> set cs" using block_chunk(1-3)[OF b, of a] by auto
  then show "hdr st' a = hdr st a \<and> ftr st' a = ftr st a" using assms by simp
qed

lemma free_chunk:
  assumes "block_core X D st mm cs fl al" "c \<in> set fl"
  shows "c \<in> set cs" "cfree st c" "c \<notin> set al" "c \<notin> D"
  using assms block_coreD(7,8)[OF assms(1)] by auto

lemma allocated_chunk:
  assumes "block_core X D st mm cs fl al" "c \<in> set al"
  shows "c \<in> set cs" "\<not> cfree st c" "c \<notin> set fl" "c \<notin> D"
  using assms block_coreD(7,8)[OF assms(1)] by auto

lemma chunk_apart:
  assumes "block_core X D st mm cs fl al" "c \<in> set cs" "d \<in> set cs" "c \<noteq> d"
  shows "c + csz st c \<le> d \<or> d + csz st d \<le> c"
  using tiles_apart[OF block_coreD(1)[OF assms(1)]] assms(2-4)
  by (cases "c < d") auto

text \<open>The conditions on the block after a split, one after the other.\<close>

lemma split_fresh:
  assumes "block_core X D st mm cs fl al" "c \<in> set cs" "40 < n" "40 < csz st c - n"
  shows "c + n \<notin> set cs"
proof
  assume "c + n \<in> set cs"
  with chunk_apart[OF assms(1,2) this] block_chunk[OF assms(1) this] assms(3,4) show False by auto
qed

lemma split_tiles:
  assumes t: "tiles st lo (xs @ c # ys) hi" and s: "split_store st c n st'"
    and n: "c + n \<notin> set (xs @ c # ys)" "40 < n" "40 < csz st c - n"
  shows "tiles st' lo (xs @ c # (c + n) # ys) hi"
proof -
  from t have p: "tiles st lo xs c" "tiles st (c + csz st c) ys hi" by (auto simp: tiles_append)
  have "c \<notin> set xs" "c \<notin> set ys" using tiles_distinct[OF t] by auto
  then have "tiles st' lo xs c" "tiles st' (c + csz st c) ys hi"
    using p n(1) split_storeD[OF s] by (subst tiles_cong[of _ _ st]; force)+
  then show ?thesis using split_storeD[OF s] n t by (auto simp: tiles_append)
qed

lemma split_ftr:
  assumes b: "block_core {} D st mm cs fl al" and c: "c \<in> set cs" and s: "split_store st c n st'"
    and n: "40 < n" "40 < csz st c - n" and a: "a \<in> insert (c + n) (set cs)" "a + csz st' a < block_end mm"
  shows "ftr st' (a + csz st' a - 8) = Some a"
proof -
  note sd = split_storeD[OF s]
  consider "a = c" | "a = c + n" | "a \<in> set cs" "a \<noteq> c" "a \<noteq> c + n" using a(1) by auto
  then show ?thesis
  proof cases
    case 3
    then have "a + csz st a \<noteq> c + csz st c \<and> a + csz st a \<noteq> c + n"
      using chunk_apart[OF b c 3(1)] block_chunk[OF b 3(1)] n by auto
    then show ?thesis
      using sd(8)[OF 3(2,3)] block_ftr[OF b 3(1)] a(2) by (auto simp: sd(1))
  qed (use sd n in auto)
qed

lemma split_coalesced:
  assumes b: "block_core {} D st mm cs fl al" "coalesced {} st mm cs" and c: "c \<in> set cs" "cfree st c"
    and s: "split_store st c n st'" and new: "c + n \<notin> set cs" and cs': "set cs' = insert (c + n) (set cs)"
  shows "coalesced {} st' mm cs'"
  unfolding coalesced_def
proof (intro ballI impI)
  note sd = split_storeD[OF s]
  have oth: "csz st' x = csz st x" "cfree st' x = cfree st x" if "x \<in> set cs" "x \<noteq> c" for x
    using that new sd(8,9) by auto
  have co: "x \<in> set cs \<Longrightarrow> cfree st x \<Longrightarrow> x + csz st x < block_end mm \<Longrightarrow> \<not> cfree st (x + csz st x)" for x
    using b(2) by (auto simp: coalesced_def)
  have nx: "x \<in> set cs \<Longrightarrow> x + csz st x < block_end mm \<Longrightarrow> x + csz st x \<in> set cs" for x
    using tiles_next[OF block_coreD(1)[OF b(1)], of x] by auto
  fix a assume a: "a \<in> set cs' - {}" "cfree st' a" "a + csz st' a < block_end mm"
  consider "a = c + n" | "a \<in> set cs" "a \<noteq> c" using a(1,2) cs' sd(3) by auto
  then show "\<not> cfree st' (a + csz st' a)"
  proof cases
    case 1
    then have e: "a + csz st' a = c + csz st c" using sd(5) by simp
    then have "c + csz st c \<in> set cs" "c + csz st c \<noteq> c"
      using nx[OF c(1)] a(3) block_chunk[OF b(1) c(1)] by auto
    then show ?thesis using co[OF c] oth[of "c + csz st c"] a(3) e by simp
  next
    case 2
    then have e: "a + csz st' a = a + csz st a" using oth by simp
    have "a + csz st a \<in> set cs" using nx[OF 2(1)] a(3) e by simp
    then show ?thesis using co[OF 2(1)] oth[OF 2] a(2,3) oth[of "a + csz st a"] sd(3) e
      by (cases "a + csz st a = c") auto
  qed
qed

text \<open>Cutting a free chunk in two: which chunks the lists hold, and what stays as it was outside the block.\<close>

lemma split_sets:
  assumes core: "block_core {} {} st mm cs fl al" and c: "c \<in> set fl" and n: "40 < n" "40 < csz st c - n"
    and s: "split_store st c n st'" and fl: "fl = us @ c # vs" and set': "set cs' = insert (c + n) (set cs)"
  shows "set (us @ (c + n) # vs) = {a \<in> set cs'. cfree st' a} - {c}" "set al = {a \<in> set cs'. \<not> cfree st' a} - {c}"
    "distinct (us @ (c + n) # vs)"
proof -
  note d = block_coreD[OF core]
  note fc = free_chunk[OF core c]
  note new = split_fresh[OF core fc(1) n]
  note sd = split_storeD[OF s]
  have sub: "set fl \<subseteq> set cs" using d(7) by auto
  have nc: "c + n \<noteq> c" using new fc(1) by metis
  have fr: "cfree st' a \<longleftrightarrow> cfree st a \<and> a \<noteq> c" if "a \<in> set cs" for a
    using that new sd(3) sd(9)[of a] by (cases "a = c") auto
  have "set (us @ (c + n) # vs) = insert (c + n) (set fl - {c})" using d(4) fl by auto
  then show "set (us @ (c + n) # vs) = {a \<in> set cs'. cfree st' a} - {c}" using d(7) sd(6) fc(2) nc fr by (auto simp: set')
  show "set al = {a \<in> set cs'. \<not> cfree st' a} - {c}" using d(8) sd(6) fc(2) fr by (auto simp: set')
  show "distinct (us @ (c + n) # vs)" using d(4) fl new sub by auto
qed

lemma split_outside:
  assumes core: "block_core {} {} st mm cs fl al" and c: "c \<in> set fl" and n: "40 < n" "40 < csz st c - n"
    and s: "split_store st c n st'" and fl: "fl = us @ c # vs"
    and hd: "\<forall>a. a \<notin> set (us @ vs) \<union> {c, c + n} \<longrightarrow> hdr st' a = hdr st a"
  shows "agree_outside (m_start mm) (block_end mm) st st'"
proof (rule agree_outsideI)
  note fc = free_chunk[OF core c]
  note cc = block_chunk[OF core fc(1)]
  have sub: "set fl \<subseteq> set cs" using block_coreD(7)[OF core] by auto
  fix a assume "a < m_start mm \<or> block_end mm \<le> a"
  then have "a \<notin> set cs" "a \<noteq> c + n" "a \<noteq> c + n - 8" "a \<noteq> c + csz st c - 8"
    using block_chunk(1-3)[OF core, of a] cc n by auto
  then show "hdr st' a = hdr st a \<and> ftr st' a = ftr st a"
    using hd sub fl fc(1) by (auto simp: split_storeD(1)[OF s])
qed

lemma split_chunk_core:
  assumes b: "block_ok st mm cs fl al" and c: "c \<in> set fl" and n: "40 < n" "40 < csz st c - n"
  shows "\<exists>fl' st' cs' fs. split_chunk n c (mm, st) = Inr (mm\<lparr>m_free_list := fl'\<rparr>, st') \<and>
     block_core {} {c} st' (mm\<lparr>m_free_list := fl'\<rparr>) cs' fs al \<and>
     coalesced {} st' mm cs' \<and> \<not> cfree st' c \<and> csz st' c = n \<and>
     (\<forall>d\<in>set al. csz st' d = csz st d) \<and> agree_outside (m_start mm) (block_end mm) st st'"
proof -
  note core = block_ok_core[OF b]
  note d = block_coreD[OF core]
  note fc = free_chunk[OF core c]
  note cc = block_chunk[OF core fc(1)]
  note new = split_fresh[OF core fc(1) n]
  obtain us vs where fl: "fl = us @ c # vs" using c by (meson split_list)
  obtain xs ys where cs: "cs = xs @ c # ys" using fc(1) by (meson split_list)
  have sub: "set fl \<subseteq> set cs" "set al \<subseteq> set cs" using d(7,8) by auto
  have "dll st (m_free_list mm) (us @ c # vs)" "distinct (us @ c # vs)" "c + n \<notin> set (us @ c # vs)" "c + n \<noteq> 0"
    "0 \<le> csz st c - n" "csz st c - n < 18446744073709551616"
    using d(2,4) new sub fl n cc d(6) by auto
  then obtain fl' st' where r: "split_chunk n c (mm, st) = Inr (mm\<lparr>m_free_list := fl'\<rparr>, st')"
    "dll st' fl' (us @ (c + n) # vs)" and s: "split_store st c n st'"
    and hd: "\<forall>a. a \<notin> set (us @ vs) \<union> {c, c + n} \<longrightarrow> hdr st' a = hdr st a"
    using split_chunk_links by blast
  note sd = split_storeD[OF s]
  define cs' where "cs' = xs @ c # (c + n) # ys"
  have set': "set cs' = insert (c + n) (set cs)" by (auto simp: cs'_def cs)
  have alsame: "\<forall>a\<in>set al. csz st' a = csz st a" using sub(2) fc(3) new by (metis sd(8) subsetD)
  have "tiles st' (m_start mm) cs' (block_end mm)"
    unfolding cs'_def by (rule split_tiles[OF _ s _ n]) (use d(1) new in \<open>simp_all add: cs\<close>)
  moreover have "dll st' (m_alloc_list mm) al"
    using d(3) hd new sub fc(3) d(7,8) fl by (subst seg_cong[of _ _ st]) auto
  moreover note split_sets[OF core c n s fl set']
  moreover have "m_alloc_mem mm = (\<Sum>c\<leftarrow>al. csz st' c)" "m_alloc_prog_mem mm = (\<Sum>c\<leftarrow>al. csz st' c - 40)"
    unfolding d(10,11) using alsame by (auto intro!: arg_cong[where f = sum_list] map_cong)
  ultimately have "block_core {} {c} st' (mm\<lparr>m_free_list := fl'\<rparr>) cs' (us @ (c + n) # vs) al"
    using r(2) split_ftr[OF core fc(1) s n] d(5,6,9) set' fc(1)
    unfolding block_core_def block_end_def by simp
  moreover have "coalesced {} st' mm cs'"
    by (rule split_coalesced[OF core _ fc(1,2) s new set']) (use b in \<open>simp add: block_ok_def\<close>)
  moreover have "agree_outside (m_start mm) (block_end mm) st st'"
    using split_outside[OF core c n s fl hd] .
  ultimately show ?thesis using r(1) sd(2,3) alsame by blast
qed

lemma whole_chunk_core:
  assumes b: "block_ok st mm cs fl al" and c: "c \<in> set fl"
  shows "\<exists>fl' st' fs. whole_chunk c (mm, st) = Inr (mm\<lparr>m_free_list := fl'\<rparr>, st') \<and>
     block_core {} {c} st' (mm\<lparr>m_free_list := fl'\<rparr>) cs fs al \<and>
     coalesced {} st' mm cs \<and> \<not> cfree st' c \<and> (\<forall>d. csz st' d = csz st d) \<and>
     agree_outside (m_start mm) (block_end mm) st st'"
proof -
  note core = block_ok_core[OF b]
  note fc = free_chunk[OF core c]
  obtain us vs where fl: "fl = us @ c # vs" using c by (meson split_list)
  obtain h st1 where r: "MP_DLINKLIST_DEL (m_free_list mm) c st = Inr (h, st1)"
    "block_core {} {c} st1 (mm\<lparr>m_free_list := h\<rparr>) cs (us @ vs) al" "same_shape st st1"
    "\<forall>a. a \<notin> set cs \<longrightarrow> hdr st1 a = hdr st a"
    using core_del_free[OF core[unfolded fl]] by auto
  from core_flag[OF r(2), of c False] obtain k where k: "hdr st1 c = Some k"
    "mod_hdr c (\<lambda>d. d\<lparr>c_is_free := False\<rparr>) st1 = Inr (put_hdr c (k\<lparr>c_is_free := False\<rparr>) st1)"
    "block_core {} {c} (put_hdr c (k\<lparr>c_is_free := False\<rparr>) st1) (mm\<lparr>m_free_list := h\<rparr>) cs (us @ vs) al"
    by auto
  define st' where "st' = put_hdr c (k\<lparr>c_is_free := False\<rparr>) st1"
  have z: "csz st' a = csz st a" for a
    using same_shapeD(1)[OF r(3), of a] csz_Some[OF k(1)] by (auto simp: st'_def csz_put_hdr)
  have f: "cfree st' a \<longleftrightarrow> cfree st a \<and> a \<noteq> c" for a
    using same_shapeD(2)[OF r(3)] by (auto simp: st'_def shape_simps)
  have "coalesced {} st' mm cs"
    using b unfolding block_ok_def coalesced_def z f by blast
  moreover have "agree_outside (m_start mm) (block_end mm) st st'"
    using r(4) fc(1) same_shapeD(4)[OF r(3)]
    by (intro agree_outside_chunks[OF core]) (auto simp: st'_def)
  moreover have "whole_chunk c (mm, st) = Inr (mm\<lparr>m_free_list := h\<rparr>, st')"
    using r(1) k(2) by (simp add: whole_chunk_def st'_def)
  ultimately show ?thesis using k(3) z f unfolding st'_def by blast
qed

lemma u64_counters:
  assumes "block_core X D st mm cs fl al"
  shows "u64 (m_alloc_mem mm) = m_alloc_mem mm" "u64 (m_alloc_prog_mem mm) = m_alloc_prog_mem mm"
  using block_counter_bounds[OF assms] block_coreD(9)[OF assms] by simp_all

lemma taken_core:
  assumes b: "block_ok st mm cs fl al" and c: "c \<in> set fl" and n: "40 < n" "n \<le> csz st c"
  shows "\<exists>h st' cs' fs. (if u64 (csz st c - n) > MP_CHUNKHEADER + MP_CHUNKEND
        then split_chunk n c (mm, st) else whole_chunk c (mm, st)) = Inr (mm\<lparr>m_free_list := h\<rparr>, st') \<and>
     block_core {} {c} st' (mm\<lparr>m_free_list := h\<rparr>) cs' fs al \<and> coalesced {} st' mm cs' \<and>
     \<not> cfree st' c \<and> n \<le> csz st' c \<and> csz st' c \<le> n + 40 \<and> (\<forall>d\<in>set al. csz st' d = csz st d) \<and>
     agree_outside (m_start mm) (block_end mm) st st'"
proof -
  note core = block_ok_core[OF b]
  have u: "u64 (csz st c - n) = csz st c - n"
    using n block_chunk(6)[OF core free_chunk(1)[OF core c]] by simp
  show ?thesis
  proof (cases "40 < csz st c - n")
    case True
    with split_chunk_core[OF b c n(1) True] show ?thesis
      unfolding u by (fastforce simp: MP_CHUNKHEADER_def MP_CHUNKEND_def)
  next
    case False
    with whole_chunk_core[OF b c] n show ?thesis
      unfolding u by (fastforce simp: MP_CHUNKHEADER_def MP_CHUNKEND_def)
  qed
qed

theorem take_chunk_ok:
  assumes b: "block_ok st mm cs fl al" and c: "c \<in> set fl" and n: "40 < n" "n \<le> csz st c"
  shows "\<exists>mm' st' cs' fl'. take_chunk n c (mm, st) = Inr (mm', st') \<and>
     block_ok st' mm' cs' fl' (c # al) \<and> n \<le> csz st' c \<and> csz st' c \<le> n + 40 \<and>
     (\<forall>d\<in>set al. csz st' d = csz st d) \<and> agree_outside (m_start mm) (block_end mm) st st' \<and>
     m_start mm' = m_start mm \<and> m_mem_pool_size mm' = m_mem_pool_size mm \<and> m_id mm' = m_id mm"
proof -
  note core = block_ok_core[OF b]
  note fc = free_chunk[OF core c]
  note cc = block_chunk[OF core fc(1)]
  obtain k where k: "hdr st c = Some k" using cc(4) by (auto simp: mapped_def)
  obtain h st1 cs' fs where r: "(if u64 (c_alloc_mem k - n) > MP_CHUNKHEADER + MP_CHUNKEND
        then split_chunk n c (mm, st) else whole_chunk c (mm, st)) = Inr (mm\<lparr>m_free_list := h\<rparr>, st1)"
    "block_core {} {c} st1 (mm\<lparr>m_free_list := h\<rparr>) cs' fs al" "coalesced {} st1 mm cs'"
    "\<not> cfree st1 c" "n \<le> csz st1 c" "csz st1 c \<le> n + 40" "\<forall>d\<in>set al. csz st1 d = csz st d"
    "agree_outside (m_start mm) (block_end mm) st st1"
    using taken_core[OF b c n, unfolded csz_Some[OF k]] csz_Some[OF k] by blast
  let ?m1 = "mm\<lparr>m_free_list := h\<rparr>"
  from core_ins_alloc[OF r(2) _ r(4)] obtain st' where s:
    "MP_DLINKLIST_INS_FRT (m_alloc_list ?m1) c st1 = Inr (c, st')"
    "block_core {} {} st' (?m1\<lparr>m_alloc_list := c, m_alloc_mem := m_alloc_mem mm + csz st1 c,
        m_alloc_prog_mem := m_alloc_prog_mem mm + (csz st1 c - 40)\<rparr>) cs' fs (c # al)"
    "same_shape st1 st'" "\<forall>a. a \<notin> set cs' \<longrightarrow> hdr st' a = hdr st1 a"
    by auto
  define mm' where "mm' = ?m1\<lparr>m_alloc_list := c, m_alloc_mem := m_alloc_mem mm + csz st1 c,
        m_alloc_prog_mem := m_alloc_prog_mem mm + (csz st1 c - 40)\<rparr>"
  note core' = s(2)[folded mm'_def]
  obtain k' where k': "hdr st' c = Some k'" "c_alloc_mem k' = csz st1 c"
    using block_chunk(4)[OF core', of c] block_cs[OF core'] same_shapeD(1)[OF s(3), of c]
    by (auto simp: mapped_def csz_Some)
  have u2: "u64 (m_alloc_mem mm + csz st1 c) = m_alloc_mem mm + csz st1 c"
    "u64 (m_alloc_prog_mem mm + (csz st1 c - 32 - 8)) = m_alloc_prog_mem mm + (csz st1 c - 40)"
    using u64_counters[OF core'] by (simp_all add: mm'_def algebra_simps)
  have run: "take_chunk n c (mm, st) = Inr (mm', st')"
    unfolding take_chunk_def snd_conv get_hdr_Some[OF k cc(5)] bindE_Inr r(1) prod.case s(1)
    using k' cc(5) u2 by (simp add: mm'_def MP_CHUNKHEADER_def MP_CHUNKEND_def)
  have "coalesced {} st' mm' cs'"
    using r(3) coalesced_same[OF s(3), of mm' mm] by (simp add: mm'_def)
  then have ok: "block_ok st' mm' cs' fs (c # al)" using core' by (simp add: block_ok_def)
  have "agree_outside (m_start mm) (block_end mm) st1 st'"
    using agree_outside_chunks[OF r(2) s(4) same_shapeD(4)[OF s(3)]] by (simp add: block_end_def)
  then have "agree_outside (m_start mm) (block_end mm) st st'"
    by (rule agree_outside_trans[OF r(8)])
  moreover have "m_start mm' = m_start mm" "m_mem_pool_size mm' = m_mem_pool_size mm" "m_id mm' = m_id mm"
    by (simp_all add: mm'_def)
  ultimately show ?thesis
    using run ok r(5,6,7) same_shapeD(1)[OF s(3)] by auto
qed

end
