(* ===== verification/Chunk_Merge.thy ===== *)
theory Chunk_Merge
  imports Chunk_Steps
begin

text \<open>
  Release on one block: the chunk goes from the allocated to the free list, and
  \<open>merge_free_chunk\<close> joins it with its free neighbours. The two loops are shown to end, and
  the block is well formed again with the chunk no longer allocated.
\<close>

section \<open>Absorbing the right neighbour\<close>

definition absorb :: "addr \<Rightarrow> addr \<Rightarrow> int \<Rightarrow> addr \<Rightarrow> store \<Rightarrow> (addr \<times> store) res" where
  "absorb p w k fl st =
     bindE (MP_DLINKLIST_DEL fl w st) (\<lambda>(fl, st).
     bindE (mod_hdr p (\<lambda>d. d\<lparr>c_alloc_mem := u64 (c_alloc_mem d + k)\<rparr>) st) (\<lambda>st. Inr (fl, st)))"

text \<open>The store after it.\<close>

definition absorbed :: "store \<Rightarrow> addr \<Rightarrow> addr \<Rightarrow> store \<Rightarrow> bool" where
  "absorbed st p w st' \<longleftrightarrow> ftr st' = ftr st \<and> csz st' p = csz st p + csz st w \<and>
     (\<forall>a. a \<noteq> p \<longrightarrow> csz st' a = csz st a) \<and> (\<forall>a. cfree st' a = cfree st a) \<and> (\<forall>a. mapped st' a = mapped st a)"

lemma absorbedD:
  assumes "absorbed st p w st'"
  shows "ftr st' = ftr st" "csz st' p = csz st p + csz st w" "a \<noteq> p \<Longrightarrow> csz st' a = csz st a"
    "cfree st' a = cfree st a" "mapped st' a = mapped st a"
  using assms by (simp_all add: absorbed_def)

lemma absorbed_shape: "same_shape st st1 \<Longrightarrow> absorbed st1 p w st' \<Longrightarrow> absorbed st p w st'"
  by (simp add: absorbed_def same_shape_def)

lemma absorbed_tiles:
  assumes t: "tiles st lo (xs @ p # w # ys) hi" and s: "absorbed st p w st'"
  shows "tiles st' lo (xs @ p # ys) hi"
proof -
  from t have x: "tiles st lo xs p" "w = p + csz st p" "40 < csz st p" "40 < csz st w" "mapped st p"
    "tiles st (w + csz st w) ys hi" by (auto simp: tiles_append)
  have "p \<notin> set xs" "p \<notin> set ys" using tiles_distinct[OF t] by auto
  then have "tiles st' lo xs p" "tiles st' (w + csz st w) ys hi"
    using x(1,6) absorbedD[OF s] by (subst tiles_cong[of _ _ st]; metis)+
  then show ?thesis using x absorbedD[OF s] t by (auto simp: tiles_append add.assoc)
qed

text \<open>Two neighbours become one when the size of the first grows by that of the second, which is on no list.\<close>

lemma core_join:
  assumes b: "block_core {p} {w} st mm (xs @ p # w # ys) fl al" and f: "cfree st p" "cfree st w" and k: "hdr st p = Some k"
    and st': "st' = put_hdr p (k\<lparr>c_alloc_mem := csz st p + csz st w\<rparr>) st"
  shows "block_core {p} {} st' mm (xs @ p # ys) fl al \<and> absorbed st p w st'"
proof -
  note d = block_coreD[OF b]
  have s: "absorbed st p w st'"
    using k by (auto simp: absorbed_def st' shape_simps)
  note sd = absorbedD[OF s]
  have set': "set (xs @ p # ys) = set (xs @ p # w # ys) - {w}" using tiles_distinct[OF d(1)] by auto
  have z: "\<forall>c\<in>set al. csz st' c = csz st c" using d(8) f(1) sd(3) by (metis (mono_tags, lifting) DiffD1 mem_Collect_eq)
  have "dll st' (m_free_list mm) fl" "dll st' (m_alloc_list mm) al"
    using d(2,3) k by (simp_all add: st' seg_put_links)
  moreover have "set fl = {c \<in> set (xs @ p # ys). cfree st' c}" "set al = {c \<in> set (xs @ p # ys). \<not> cfree st' c}"
    unfolding set' sd(4) using d(7,8) by blast+
  moreover have "m_alloc_mem mm = (\<Sum>c\<leftarrow>al. csz st' c)" "m_alloc_prog_mem mm = (\<Sum>c\<leftarrow>al. csz st' c - 40)"
    unfolding d(10,11) using z by (auto intro!: arg_cong[where f = sum_list] map_cong)
  moreover have "ftr st' (c + csz st' c - 8) = Some c"
    if "c \<in> set (xs @ p # ys) - {p}" "c + csz st' c < block_end mm" for c
    using block_ftr[OF b, of c] that sd(3)[of c] by (auto simp: sd(1))
  ultimately have "block_core {p} {} st' mm (xs @ p # ys) fl al"
    using absorbed_tiles[OF d(1) s] d(4-6,9) unfolding block_core_def by simp
  with s show ?thesis by blast
qed

lemma absorb_core:
  assumes b: "block_core {p} {} st mm cs fl al" and cs: "cs = xs @ p # w # ys"
    and f: "cfree st p" "cfree st w"
  shows "\<exists>fl' st' fs. absorb p w (csz st w) (m_free_list mm) st = Inr (fl', st') \<and>
     block_core {p} {} st' (mm\<lparr>m_free_list := fl'\<rparr>) (xs @ p # ys) fs al \<and>
     absorbed st p w st' \<and> agree_outside (m_start mm) (block_end mm) st st'"
proof -
  note d = block_coreD[OF b]
  have pw: "p \<in> set cs" "w \<in> set cs" using cs by auto
  have wp: "w = p + csz st p" using d(1) cs by (auto simp: tiles_append)
  note cp = block_chunk[OF b pw(1)] and cw = block_chunk[OF b pw(2)]
  have "w \<in> set fl" using d(7) pw f by auto
  then obtain us vs where fl: "fl = us @ w # vs" by (meson split_list)
  obtain h st1 where r: "MP_DLINKLIST_DEL (m_free_list mm) w st = Inr (h, st1)"
    "block_core {p} {w} st1 (mm\<lparr>m_free_list := h\<rparr>) cs (us @ vs) al" "same_shape st st1"
    "\<forall>a. a \<notin> set cs \<longrightarrow> hdr st1 a = hdr st a"
    using core_del_free[OF b[unfolded fl]] by auto
  note z = same_shapeD[OF r(3)]
  obtain k where k: "hdr st1 p = Some k" "c_alloc_mem k = csz st p"
    using block_chunk(4)[OF r(2) pw(1)] z(1)[of p] by (auto simp: mapped_def csz_Some)
  have u: "u64 (csz st p + csz st w) = csz st p + csz st w"
    using cp cw wp d(9) by (simp add: block_end_def)
  define st' where "st' = put_hdr p (k\<lparr>c_alloc_mem := csz st1 p + csz st1 w\<rparr>) st1"
  have run: "absorb p w (csz st w) (m_free_list mm) st = Inr (h, st')"
    using r(1) k cp(5) u z(1) by (simp add: absorb_def st'_def)
  have j: "block_core {p} {} st' (mm\<lparr>m_free_list := h\<rparr>) (xs @ p # ys) (us @ vs) al" "absorbed st1 p w st'"
    using core_join[OF r(2)[unfolded cs] _ _ k(1) st'_def] f z(2) by auto
  have "agree_outside (m_start mm) (block_end mm) st st'"
    using r(4) pw z(4) by (intro agree_outside_chunks[OF b]) (auto simp: st'_def)
  then show ?thesis using run j(1) absorbed_shape[OF r(3) j(2)] by blast
qed

section \<open>The loops of the merge\<close>

lemma core_weaken: "block_core X D st mm cs fl al \<Longrightarrow> X \<subseteq> Y \<Longrightarrow> block_core Y D st mm cs fl al"
  unfolding block_core_def by blast

lemma chunk_next_in:
  assumes "block_core X D st mm cs fl al" "c \<in> set cs" "c + csz st c < block_end mm"
  shows "c + csz st c \<in> set cs"
  using tiles_next[OF block_coreD(1)[OF assms(1)] assms(2,3)] by auto

text \<open>Two chunks that end at the same address are the same chunk.\<close>

lemma chunk_prev_unique:
  assumes b: "block_core X D st mm cs fl al" and "c \<in> set cs" "d \<in> set cs"
    and "c + csz st c = d + csz st d"
  shows "c = d"
proof (rule ccontr)
  assume "c \<noteq> d"
  from chunk_apart[OF b assms(2,3) this] assms(4) block_chunk(3)[OF b assms(2)]
    block_chunk(3)[OF b assms(3)] show False by auto
qed

lemma merge_back_step:
  assumes b: "block_core {} {} st mm cs fl al" and c: "c \<in> set cs" "cfree st c"
  shows "(c = m_start mm \<and> merge_back st (m_start mm) c q = Some (Inr c)) \<or>
     (\<exists>p. p \<in> set cs \<and> p + csz st p = c \<and>
        merge_back st (m_start mm) c q = merge_back st (m_start mm) p c)"
proof -
  note cc = block_chunk[OF b c(1)]
  obtain k where k: "hdr st c = Some k" "c_is_free k"
    using cc(4) c(2) by (auto simp: mapped_def cfree_Some)
  show ?thesis
  proof (cases "c = m_start mm")
    case True
    then show ?thesis using k cc(5)
      by (subst merge_back.simps) (simp add: MP_CHUNKEND_def MP_CHUNKHEADER_def)
  next
    case False
    with cc(1) have "m_start mm < c" by simp
    from tiles_prev[OF block_coreD(1)[OF b] c(1) this] obtain p xs ys where
      xs: "cs = xs @ p # c # ys" and pc0: "p + csz st p = c" by blast
    then have p: "p \<in> set cs" "p + csz st p = c" by simp_all
    have pc: "m_start mm \<le> p" "40 < csz st p" using block_chunk[OF b p(1)] by auto
    have "ftr st (c - 8) = Some p"
      using block_ftr[OF b p(1)] p(2) cc by auto
    moreover have "\<not> c - MP_CHUNKEND - MP_CHUNKHEADER \<le> m_start mm"
      using p(2) pc by (simp add: MP_CHUNKEND_def MP_CHUNKHEADER_def)
    ultimately have "merge_back st (m_start mm) c q = merge_back st (m_start mm) p c"
      using k cc(5) by (subst merge_back.simps) (simp add: MP_CHUNKEND_def)
    with p show ?thesis by blast
  qed
qed

lemma merge_back_stop:
  assumes b: "block_core {} {} st mm cs fl al" and p: "p \<in> set cs" "\<not> cfree st p"
  shows "merge_back st (m_start mm) p c = Some (Inr c)"
proof -
  obtain k where "hdr st p = Some k" "\<not> c_is_free k"
    using block_chunk(4)[OF b p(1)] p(2) by (auto simp: mapped_def cfree_Some)
  then show ?thesis using block_chunk(5)[OF b p(1)] by (subst merge_back.simps) simp
qed

text \<open>The first loop ends at the leftmost of two free chunks.\<close>

lemma merge_back_left:
  assumes b: "block_core {} {} st mm cs fl al" and p: "p \<in> set cs" "cfree st p" and left: "\<And>q. q \<in> set cs \<Longrightarrow> q + csz st q = p \<Longrightarrow> \<not> cfree st q"
  shows "merge_back st (m_start mm) p c = Some (Inr p)"
proof -
  from merge_back_step[OF b p, of c] show ?thesis
  proof (elim disjE conjE exE)
    fix q assume q: "q \<in> set cs" "q + csz st q = p" "merge_back st (m_start mm) p c = merge_back st (m_start mm) q p"
    show ?thesis using q(3) merge_back_stop[OF b q(1) left[OF q(1,2)]] by simp
  qed
qed

lemma merge_back_run:
  assumes b: "block_core {} {} st mm cs fl al" and c: "c \<in> set cs" "cfree st c"
    and coal: "\<And>d. d \<in> set cs \<Longrightarrow> d \<noteq> c \<Longrightarrow> d + csz st d \<noteq> c \<Longrightarrow> cfree st d \<Longrightarrow>
        d + csz st d < block_end mm \<Longrightarrow> \<not> cfree st (d + csz st d)"
  shows "\<exists>p1. merge_back st (m_start mm) c c = Some (Inr p1) \<and> p1 \<in> set cs \<and> cfree st p1 \<and>
     (p1 = c \<or> p1 + csz st p1 = c) \<and> (\<forall>d\<in>set cs. d + csz st d = p1 \<longrightarrow> \<not> cfree st d)"
proof (cases "\<exists>p\<in>set cs. p + csz st p = c \<and> cfree st p")
  case False
  then show ?thesis using merge_back_left[OF b c] c by blast
next
  case True
  then obtain p where p: "p \<in> set cs" "p + csz st p = c" "cfree st p" by blast
  have left: "\<not> cfree st q" if q: "q \<in> set cs" "q + csz st q = p" for q
  proof -
    have "q \<noteq> c" "q + csz st q \<noteq> c" "q + csz st q < block_end mm"
      using q p(2) block_chunk(2,3)[OF b p(1)] block_chunk(3)[OF b q(1)] by auto
    then show ?thesis using coal[OF q(1)] q(2) p(3) by auto
  qed
  have "c \<noteq> m_start mm" using p block_chunk(1,3)[OF b p(1)] by auto
  then obtain p' where p': "p' \<in> set cs" "p' + csz st p' = c" "merge_back st (m_start mm) c c = merge_back st (m_start mm) p' c"
    using merge_back_step[OF b c, of c] by blast
  have "p' = p" using chunk_prev_unique[OF b p'(1) p(1)] p'(2) p(2) by simp
  then show ?thesis using p'(3) p merge_back_left[OF b p(1,3) left] left by auto
qed

lemma merge_fwd_stop:
  assumes "p0 = limit \<or> (mapped st p0 \<and> p0 \<noteq> 0 \<and> \<not> cfree st p0)"
  shows "merge_fwd limit p1 p0 fl st = Some (Inr (fl, st))"
  using assms by (subst merge_fwd.simps) (auto simp: mapped_def cfree_def)

lemma merge_fwd_step:
  assumes "w < limit" "mapped st w" "w \<noteq> 0" "cfree st w" "absorb p w (csz st w) fl st = Inr (fl', st')"
  shows "merge_fwd limit p w fl st = merge_fwd limit p (w + csz st w) fl' st'"
proof -
  obtain k where k: "hdr st w = Some k" "c_is_free k" "csz st w = c_alloc_mem k"
    using assms(2,4) by (auto simp: mapped_def cfree_Some csz_Some)
  show ?thesis
    using assms(1,3,5) k by (subst merge_fwd.simps) (simp add: absorb_def)
qed

text \<open>The second loop ends well from the chunk \<open>p\<close>.\<close>

definition forward_ok :: "store \<Rightarrow> mp_memory \<Rightarrow> addr \<Rightarrow> addr list \<Rightarrow> bool" where
  "forward_ok st mm p al \<longleftrightarrow> (\<exists>fl' st' cs' fs.
     merge_fwd (block_end mm) p (p + csz st p) (m_free_list mm) st = Some (Inr (fl', st')) \<and>
     block_core {p} {} st' (mm\<lparr>m_free_list := fl'\<rparr>) cs' fs al \<and> coalesced {} st' mm cs' \<and>
     p \<in> set cs' \<and> (\<forall>d\<in>set al. csz st' d = csz st d) \<and>
     agree_outside (m_start mm) (block_end mm) st st')"

lemma forward_stop:
  assumes b: "block_core {p} {} st mm cs fl al" and p: "p \<in> set cs" and co: "coalesced {p} st mm cs"
    and stop: "p + csz st p < block_end mm \<longrightarrow> \<not> cfree st (p + csz st p)"
  shows "forward_ok st mm p al"
proof -
  have "coalesced {} st mm cs" using co stop unfolding coalesced_def by force
  moreover have "merge_fwd (block_end mm) p (p + csz st p) (m_free_list mm) st = Some (Inr (m_free_list mm, st))"
    using stop block_chunk(2)[OF b p] block_chunk(4,5)[OF b chunk_next_in[OF b p]] by (intro merge_fwd_stop) force
  ultimately show ?thesis unfolding forward_ok_def
    using b p by (intro exI[of _ "m_free_list mm"] exI[of _ st] exI[of _ cs] exI[of _ fl]) simp
qed

lemma forward_absorb:
  assumes b: "block_core {p} {} st mm cs fl al" and p: "p \<in> set cs" "cfree st p"
    and w: "p + csz st p = w" "w < block_end mm" "cfree st w"
    and rest: "\<And>fl' st' cs' fs. block_core {p} {} st' (mm\<lparr>m_free_list := fl'\<rparr>) cs' fs al \<Longrightarrow> absorbed st p w st' \<Longrightarrow>
      set cs' = set cs - {w} \<Longrightarrow> forward_ok st' (mm\<lparr>m_free_list := fl'\<rparr>) p al"
  shows "forward_ok st mm p al"
proof -
  obtain xs ys where cs: "cs = xs @ p # w # ys"
    using tiles_next[OF block_coreD(1)[OF b] p(1)] w(1,2) by auto
  then have wc: "w \<in> set cs" by simp
  obtain fl1 st1 fs1 where a: "absorb p w (csz st w) (m_free_list mm) st = Inr (fl1, st1)"
    "block_core {p} {} st1 (mm\<lparr>m_free_list := fl1\<rparr>) (xs @ p # ys) fs1 al" "absorbed st p w st1"
    "agree_outside (m_start mm) (block_end mm) st st1"
    using absorb_core[OF b cs p(2) w(3)] by blast
  note s = absorbedD[OF a(3)]
  have "set (xs @ p # ys) = set cs - {w}" using tiles_distinct[OF block_coreD(1)[OF b]] cs by auto
  from rest[OF a(2,3) this] obtain fl' st' cs' fs where f:
    "merge_fwd (block_end mm) p (p + csz st1 p) fl1 st1 = Some (Inr (fl', st'))"
    "block_core {p} {} st' (mm\<lparr>m_free_list := fl'\<rparr>) cs' fs al" "coalesced {} st' mm cs'"
    "p \<in> set cs'" "\<forall>d\<in>set al. csz st' d = csz st1 d" "agree_outside (m_start mm) (block_end mm) st1 st'"
    unfolding forward_ok_def by (auto simp: block_end_def coalesced_def)
  have "merge_fwd (block_end mm) p w (m_free_list mm) st = Some (Inr (fl', st'))"
    using merge_fwd_step[OF w(2) _ _ w(3) a(1)] block_chunk(4,5)[OF b wc] f(1) s(2) w(1)
    by (simp add: add.assoc[symmetric])
  moreover have "\<forall>d\<in>set al. csz st' d = csz st d"
    using f(5) s(3) block_coreD(8)[OF b] p(2) by (metis (mono_tags, lifting) DiffD1 mem_Collect_eq)
  ultimately show ?thesis unfolding forward_ok_def w(1)
    using f(2-4) agree_outside_trans[OF a(4) f(6)] by blast
qed

text \<open>From the leftmost free chunk, the second loop absorbs at most one more chunk.\<close>

lemma merge_fwd_tail:
  assumes b: "block_core {p} {} st mm cs fl al" and p: "p \<in> set cs" "cfree st p"
    and co: "coalesced {p} st mm cs"
  shows "forward_ok st mm p al"
proof (cases "p + csz st p < block_end mm \<and> cfree st (p + csz st p)")
  case False
  then show ?thesis by (intro forward_stop[OF b p(1) co]) auto
next
  case True
  let ?w = "p + csz st p"
  have w: "?w \<in> set cs" "p \<noteq> ?w" using chunk_next_in[OF b p(1)] True block_chunk(3)[OF b p(1)] by auto
  show ?thesis
  proof (rule forward_absorb[OF b p refl])
    fix fl' st' cs' fs
    assume b': "block_core {p} {} st' (mm\<lparr>m_free_list := fl'\<rparr>) cs' fs al" and s: "absorbed st p ?w st'" and cs': "set cs' = set cs - {?w}"
    note sd = absorbedD[OF s]
    have "coalesced {p} st' (mm\<lparr>m_free_list := fl'\<rparr>) cs'"
      using co sd(3,4) cs' by (auto simp: coalesced_def block_end_def)
    moreover have "?w + csz st ?w < block_end mm \<longrightarrow> \<not> cfree st (?w + csz st ?w)"
      using co w True by (auto simp: coalesced_def)
    ultimately show "forward_ok st' (mm\<lparr>m_free_list := fl'\<rparr>) p al"
      using p(1) w(2) sd(2,4) by (intro forward_stop[OF b']) (auto simp: cs' block_end_def add.assoc[symmetric])
  qed (use True in auto)
qed

text \<open>From the left neighbour of the chunk that was released, it absorbs that chunk first.\<close>

lemma merge_fwd_left:
  assumes b: "block_core {p} {} st mm cs fl al" and p: "p \<in> set cs" "cfree st p" "p + csz st p = c"
    and c: "c \<in> set cs" "cfree st c"
    and coal: "\<And>d. d \<in> set cs \<Longrightarrow> d \<noteq> c \<Longrightarrow> d + csz st d \<noteq> c \<Longrightarrow> cfree st d \<Longrightarrow>
        d + csz st d < block_end mm \<Longrightarrow> \<not> cfree st (d + csz st d)"
  shows "forward_ok st mm p al"
proof (rule forward_absorb[OF b p _ c(2)])
  show "c < block_end mm" using block_chunk(2,3)[OF b c(1)] by simp
  have pc: "p \<noteq> c" using p(3) block_chunk(3)[OF b p(1)] by auto
  fix fl' st' cs' fs
  assume b': "block_core {p} {} st' (mm\<lparr>m_free_list := fl'\<rparr>) cs' fs al" and s: "absorbed st p c st'" and cs': "set cs' = set cs - {c}"
  note sd = absorbedD[OF s]
  show "forward_ok st' (mm\<lparr>m_free_list := fl'\<rparr>) p al"
  proof (rule merge_fwd_tail[OF b'])
    show "coalesced {p} st' (mm\<lparr>m_free_list := fl'\<rparr>) cs'"
      unfolding coalesced_def
    proof (intro ballI impI)
      fix d assume d: "d \<in> set cs' - {p}" "cfree st' d" "d + csz st' d < block_end (mm\<lparr>m_free_list := fl'\<rparr>)"
      then have dc: "d \<in> set cs" "d \<noteq> c" "d \<noteq> p" "csz st' d = csz st d" using cs' sd(3) by auto
      moreover have "d + csz st d \<noteq> c"
        using chunk_prev_unique[OF b dc(1) p(1)] dc(3) p(3) by auto
      ultimately show "\<not> cfree st' (d + csz st' d)" using coal d(2,3) sd(4) by (simp add: block_end_def)
    qed
  qed (use p pc sd(4) cs' in auto)
qed

text \<open>Writing the back pointer of the merged chunk restores the block.\<close>

lemma core_put_ftr:
  assumes b: "block_core {p} {} st mm cs fl al" and p: "p \<in> set cs"
  shows "block_core {} {} (put_ftr (p + csz st p - 8) p st) mm cs fl al"
    "agree_outside (m_start mm) (block_end mm) st (put_ftr (p + csz st p - 8) p st)"
proof -
  let ?st = "put_ftr (p + csz st p - 8) p st"
  have ft: "ftr ?st (c + csz st c - 8) = Some c" if "c \<in> set cs" "c + csz st c < block_end mm" for c
  proof (cases "c = p")
    case False
    then have "c + csz st c \<noteq> p + csz st p" using chunk_prev_unique[OF b that(1) p] by blast
    then show ?thesis using block_ftr[OF b that(1)] False that(2) by simp
  qed simp
  have "tiles ?st (m_start mm) cs (block_end mm)"
    using block_coreD(1)[OF b] by (subst tiles_cong[of _ _ st]) auto
  then show "block_core {} {} ?st mm cs fl al"
    using b ft unfolding block_core_def by simp
  show "agree_outside (m_start mm) (block_end mm) st ?st"
    using block_chunk(1-3)[OF b p] by (auto simp: agree_outside_def)
qed

theorem merge_free_chunk_ok:
  assumes b: "block_core {} {} st mm cs fl al" and c: "c \<in> set cs" "cfree st c"
    and coal: "\<And>d. d \<in> set cs \<Longrightarrow> d \<noteq> c \<Longrightarrow> d + csz st d \<noteq> c \<Longrightarrow> cfree st d \<Longrightarrow>
        d + csz st d < block_end mm \<Longrightarrow> \<not> cfree st (d + csz st d)"
    and psz: "psz = m_mem_pool_size mm"
  shows "\<exists>mm' st' cs' fs. merge_free_chunk psz c (mm, st) = Some (Inr (mm', st')) \<and>
     block_ok st' mm' cs' fs al \<and> (\<forall>d\<in>set al. csz st' d = csz st d) \<and>
     agree_outside (m_start mm) (block_end mm) st st' \<and>
     m_start mm' = m_start mm \<and> m_mem_pool_size mm' = m_mem_pool_size mm \<and> m_id mm' = m_id mm"
proof -
  obtain p where p: "merge_back st (m_start mm) c c = Some (Inr p)" "p \<in> set cs" "cfree st p"
    "p = c \<or> p + csz st p = c" "\<forall>d\<in>set cs. d + csz st d = p \<longrightarrow> \<not> cfree st d"
    using merge_back_run[OF b c coal] by blast
  have lim: "m_start mm + psz = block_end mm" using psz by (simp add: block_end_def)
  obtain k where k: "hdr st p = Some k" "c_alloc_mem k = csz st p" "p \<noteq> 0"
    using block_chunk(4,5)[OF b p(2)] by (auto simp: mapped_def csz_Some)
  have bp: "block_core {p} {} st mm cs fl al" by (rule core_weaken[OF b]) simp
  have "forward_ok st mm p al"
  proof (cases "p = c")
    case True
    have "coalesced {p} st mm cs"
      unfolding coalesced_def using coal p(5) True by blast
    then show ?thesis by (rule merge_fwd_tail[OF bp p(2,3)])
  next
    case False
    with p(4) show ?thesis by (intro merge_fwd_left[OF bp p(2,3) _ c coal]) auto
  qed
  then obtain fl' st' cs' fs where f:
    "merge_fwd (block_end mm) p (p + csz st p) (m_free_list mm) st = Some (Inr (fl', st'))"
    "block_core {p} {} st' (mm\<lparr>m_free_list := fl'\<rparr>) cs' fs al" "coalesced {} st' mm cs'"
    "p \<in> set cs'" "\<forall>d\<in>set al. csz st' d = csz st d"
    "agree_outside (m_start mm) (block_end mm) st st'" unfolding forward_ok_def by blast
  obtain k' where k': "hdr st' p = Some k'" "c_alloc_mem k' = csz st' p"
    using block_chunk(4)[OF f(2,4)] by (auto simp: mapped_def csz_Some)
  let ?st = "put_ftr (p + csz st' p - 8) p st'"
  have run: "merge_free_chunk psz c (mm, st) = Some (Inr (mm\<lparr>m_free_list := fl'\<rparr>, ?st))"
    unfolding merge_free_chunk_def using p(1) k k' f(1)
    by (simp add: lim MP_CHUNKEND_def)
  have "coalesced {} ?st (mm\<lparr>m_free_list := fl'\<rparr>) cs'"
    using f(3) by (simp add: coalesced_def block_end_def)
  then have ok: "block_ok ?st (mm\<lparr>m_free_list := fl'\<rparr>) cs' fs al"
    using core_put_ftr(1)[OF f(2,4)] by (simp add: block_ok_def)
  have "agree_outside (m_start mm) (block_end mm) st ?st"
    using agree_outside_trans[OF f(6)] core_put_ftr(2)[OF f(2,4)] by (simp add: block_end_def)
  with run ok f(5) show ?thesis by auto
qed

section \<open>Release of an allocated chunk\<close>

text \<open>The chunk moves to the free list, and its flag is set there.\<close>

lemma core_flag_listed:
  assumes b: "block_core {} {c} st mm cs fl al" and c: "\<not> cfree st c"
  shows "\<exists>st' k. MP_DLINKLIST_INS_FRT (m_free_list mm) c st = Inr (c, st') \<and> hdr st' c = Some k \<and> same_shape st st' \<and>
     (\<forall>a. a \<notin> set cs \<longrightarrow> hdr st' a = hdr st a) \<and>
     block_core {} {} (put_hdr c (k\<lparr>c_is_free := True\<rparr>) st') (mm\<lparr>m_free_list := c\<rparr>) cs (c # fl) al"
proof -
  note d = block_coreD[OF b]
  have cs: "c \<in> set cs" "c \<notin> set fl" "c \<notin> set al" using d(7,8,12) by auto
  note cc = block_chunk[OF b cs(1)]
  obtain st' where i: "MP_DLINKLIST_INS_FRT (m_free_list mm) c st = Inr (c, st')"
    "dll st' c (c # fl)" "same_shape st st'" "\<forall>a. a \<notin> set (c # fl) \<longrightarrow> hdr st' a = hdr st a"
    using dlinklist_ins_frt[OF d(2) cs(2) cc(5,4)] by blast
  note z = same_shapeD[OF i(3)]
  obtain k where k: "hdr st' c = Some k" using cc(4) z(3)[of c] by (auto simp: mapped_def)
  define t where "t = put_hdr c (k\<lparr>c_is_free := True\<rparr>) st'"
  have sz: "csz t = csz st" "mapped t = mapped st" "ftr t = ftr st" "cfree t a \<longleftrightarrow> cfree st a \<or> a = c" for a
    using z k csz_Some[OF k] mapped_Some[OF k] by (auto simp: t_def fun_eq_iff shape_simps)
  have "set (c # fl) \<inter> set al = {}" using d(7,8) cs(3) by auto
  then have "dll st' (m_alloc_list mm) al" using d(3) i(4) by (subst seg_cong[of _ _ st]) auto
  then have "dll t c (c # fl)" "dll t (m_alloc_list mm) al"
    unfolding t_def by (subst seg_put_links[OF k]; use i(2) in simp)+
  moreover have "tiles t (m_start mm) cs (block_end mm)"
    using d(1) sz by (subst tiles_cong[of _ _ st]) auto
  moreover have "set (c # fl) = {a \<in> set cs. cfree t a}" "set al = {a \<in> set cs. \<not> cfree t a}"
    using d(7,8) cs by (auto simp: sz(4))
  ultimately have "block_core {} {} t (mm\<lparr>m_free_list := c\<rparr>) cs (c # fl) al"
    using b cs(2) unfolding block_core_def sz(1,3) by (simp add: block_end_def)
  moreover have "\<forall>a. a \<notin> set cs \<longrightarrow> hdr st' a = hdr st a" using i(4) d(7) cs(1) by auto
  ultimately show ?thesis using i(1,3) k unfolding t_def by blast
qed

lemma release_core:
  assumes b: "block_ok st mm cs fl al" and c: "c \<in> set al"
  shows "\<exists>mm' st'. release_chunk c (mm, st) = Inr (mm', st') \<and> block_core {} {} st' mm' cs (c # fl) (remove1 c al) \<and>
     csz st' = csz st \<and> (\<forall>a. cfree st' a \<longleftrightarrow> cfree st a \<or> a = c) \<and> agree_outside (m_start mm) (block_end mm) st st' \<and>
     m_start mm' = m_start mm \<and> m_mem_pool_size mm' = m_mem_pool_size mm \<and> m_id mm' = m_id mm"
proof -
  note core = block_ok_core[OF b]
  note ac = allocated_chunk[OF core c]
  obtain us vs where al: "al = us @ c # vs" using c by (meson split_list)
  have rm: "remove1 c al = us @ vs" using block_coreD(5)[OF core] al by (simp add: remove1_append)
  define m1 where "m1 h = mm\<lparr>m_alloc_list := h, m_alloc_mem := m_alloc_mem mm - csz st c,
        m_alloc_prog_mem := m_alloc_prog_mem mm - (csz st c - 40)\<rparr>" for h
  obtain h st1 where r: "MP_DLINKLIST_DEL (m_alloc_list mm) c st = Inr (h, st1)"
    "block_core {} {c} st1 (m1 h) cs fl (us @ vs)" "same_shape st st1" "\<forall>a. a \<notin> set cs \<longrightarrow> hdr st1 a = hdr st a"
    using core_del_alloc[OF core[unfolded al]] unfolding m1_def by auto
  have "\<not> cfree st1 c" using ac(2) same_shapeD(2)[OF r(3)] by simp
  from core_flag_listed[OF r(2) this] obtain st2 k where i: "MP_DLINKLIST_INS_FRT (m_free_list mm) c st1 = Inr (c, st2)"
    "hdr st2 c = Some k" "same_shape st1 st2" "\<forall>a. a \<notin> set cs \<longrightarrow> hdr st2 a = hdr st1 a"
    "block_core {} {} (put_hdr c (k\<lparr>c_is_free := True\<rparr>) st2) (m1 h\<lparr>m_free_list := c\<rparr>) cs (c # fl) (us @ vs)"
    by (auto simp: m1_def)
  define st' where "st' = put_hdr c (k\<lparr>c_is_free := True\<rparr>) st2"
  note ss = same_shapeD[OF same_shape_trans[OF r(3) i(3)]]
  have kc: "c_alloc_mem k = csz st c" using ss(1)[of c] csz_Some[OF i(2)] by simp
  have u: "u64 (m_alloc_mem mm - csz st c) = m_alloc_mem mm - csz st c"
    "u64 (m_alloc_prog_mem mm - (csz st c - 32 - 8)) = m_alloc_prog_mem mm - (csz st c - 40)"
    using u64_counters[OF i(5)] by (simp_all add: m1_def)
  have "release_chunk c (mm, st) = Inr (m1 h\<lparr>m_free_list := c\<rparr>, st')"
    unfolding release_chunk_def fst_conv snd_conv Let_def r(1) bindE_Inr prod.case i(1)
    using i(2) kc block_chunk(5)[OF core ac(1)] u by (simp add: st'_def m1_def MP_CHUNKHEADER_def MP_CHUNKEND_def)
  moreover have "csz st' = csz st" "\<forall>a. cfree st' a \<longleftrightarrow> cfree st a \<or> a = c"
    using ss(1,2) i(2) kc by (auto simp: st'_def fun_eq_iff shape_simps)
  moreover have "agree_outside (m_start mm) (block_end mm) st st'"
    using r(4) i(4) ac(1) ss(4) by (intro agree_outside_chunks[OF core]) (auto simp: st'_def)
  ultimately show ?thesis using i(5) unfolding rm st'_def[symmetric] by (auto simp: m1_def)
qed

theorem release_merge_ok:
  assumes b: "block_ok st mm cs fl al" and c: "c \<in> set al" and psz: "psz = m_mem_pool_size mm"
  shows "\<exists>ms mm' st' cs' fs. release_chunk c (mm, st) = Inr ms \<and>
     merge_free_chunk psz c ms = Some (Inr (mm', st')) \<and>
     block_ok st' mm' cs' fs (remove1 c al) \<and> (\<forall>d\<in>set al - {c}. csz st' d = csz st d) \<and>
     agree_outside (m_start mm) (block_end mm) st st' \<and>
     m_start mm' = m_start mm \<and> m_mem_pool_size mm' = m_mem_pool_size mm \<and> m_id mm' = m_id mm"
proof -
  obtain m3 st3 where r: "release_chunk c (mm, st) = Inr (m3, st3)" "block_core {} {} st3 m3 cs (c # fl) (remove1 c al)"
    "csz st3 = csz st" "agree_outside (m_start mm) (block_end mm) st st3"
    and f: "\<forall>a. cfree st3 a \<longleftrightarrow> cfree st a \<or> a = c"
    and m3: "m_start m3 = m_start mm" "m_mem_pool_size m3 = m_mem_pool_size mm" "m_id m3 = m_id mm"
    using release_core[OF b c] by blast
  have ends: "block_end m3 = block_end mm" using m3 by (simp add: block_end_def)
  have cs: "c \<in> set cs" "cfree st3 c" using allocated_chunk[OF block_ok_core[OF b] c] f by auto
  have coal: "\<not> cfree st3 (d + csz st3 d)"
    if "d \<in> set cs" "d \<noteq> c" "d + csz st3 d \<noteq> c" "cfree st3 d" "d + csz st3 d < block_end m3" for d
    using b that f unfolding block_ok_def coalesced_def r(3) ends by auto
  have "psz = m_mem_pool_size m3" using psz m3 by simp
  from merge_free_chunk_ok[OF r(2) cs coal this] obtain mm' st' cs' fs where m:
    "merge_free_chunk psz c (m3, st3) = Some (Inr (mm', st'))" "block_ok st' mm' cs' fs (remove1 c al)"
    "\<forall>d\<in>set (remove1 c al). csz st' d = csz st3 d" "agree_outside (m_start mm) (block_end mm) st3 st'"
    "m_start mm' = m_start mm" "m_mem_pool_size mm' = m_mem_pool_size mm" "m_id mm' = m_id mm"
    unfolding ends m3 by blast
  have "set al - {c} = set (remove1 c al)" using block_coreD(5)[OF block_ok_core[OF b]] by simp
  then show ?thesis
    using r(1,3) m agree_outside_trans[OF r(4) m(4)]
    by (intro exI[of _ "(m3, st3)"] exI[of _ mm'] exI[of _ st'] exI[of _ cs'] exI[of _ fs]) auto
qed

end
