(* ===== verification/Memory_Pool_Spec.thy ===== *)
theory Memory_Pool_Spec
  imports Chunk_Merge
begin

text \<open>
  The memory pool as a whole: the invariant \<open>pool_ok\<close>, the abstraction \<open>live\<close> (the pointers
  handed out and not yet given back, with the bytes each may use), and what \<open>MemoryPoolAlloc\<close>
  and \<open>MemoryPoolFree\<close> do to it. \<^verbatim>\<open>Pool_Contract\<close> makes a locale of it, which the workers rely on.

  The invariant covers pools whose blocks all have the size \<open>mem_pool_size\<close>: those that do not
  extend, and those with \<open>max_mem_pool_size\<close> at least twice \<open>mem_pool_size\<close>, which is the
  configuration of the gateway.
\<close>

section \<open>Invariant and abstraction\<close>

lemma seg_unique: "seg st pr p xs 0 \<Longrightarrow> seg st pr p ys 0 \<Longrightarrow> xs = ys"
proof (induction xs arbitrary: pr p ys)
  case Nil
  then show ?case by (cases ys) auto
next
  case (Cons x xs)
  then obtain y zs where "ys = y # zs" by (cases ys) auto
  with Cons show ?case by auto
qed

definition block_good :: "store \<Rightarrow> mp_memory \<Rightarrow> bool" where
  "block_good st mm \<longleftrightarrow> (\<exists>cs fl al. block_ok st mm cs fl al)"

definition alloc_set :: "store \<Rightarrow> mp_memory \<Rightarrow> addr set" where
  "alloc_set st mm = {c. \<exists>cs fl al. block_ok st mm cs fl al \<and> c \<in> set al}"

lemma alloc_set_eq: "block_ok st mm cs fl al \<Longrightarrow> alloc_set st mm = set al"
  unfolding alloc_set_def by (auto simp: block_ok_def dest: block_coreD(3) seg_unique)

definition region_lo :: "mp_memory \<Rightarrow> addr" where
  "region_lo mm = m_start mm - SIZEOF_MP_MEMORY"

definition apart :: "mp_memory \<Rightarrow> mp_memory \<Rightarrow> bool" where
  "apart a b \<longleftrightarrow> block_end a \<le> region_lo b \<or> block_end b \<le> region_lo a"

fun pairwise_apart :: "mp_memory list \<Rightarrow> bool" where
  "pairwise_apart [] \<longleftrightarrow> True"
| "pairwise_apart (m # ms) \<longleftrightarrow> (\<forall>b\<in>set ms. apart m b) \<and> pairwise_apart ms"

definition pool_core :: "MemoryPool \<Rightarrow> bool" where
  "pool_core mp \<longleftrightarrow>
     mlist mp \<noteq> [] \<and> pairwise_apart (mlist mp) \<and>
     (\<forall>mm\<in>set (mlist mp). block_good (mem mp) mm \<and> m_mem_pool_size mm = mem_pool_size mp) \<and>
     40 < mem_pool_size mp \<and> mem_pool_size mp \<le> max_mem_pool_size mp \<and>
     max_mem_pool_size mp < 9223372036854775808 \<and>
     (auto_extend mp \<noteq> 0 \<longrightarrow> mem_pool_size mp < max_mem_pool_size mp \<longrightarrow>
        2 * mem_pool_size mp \<le> max_mem_pool_size mp) \<and>
     (auto_extend mp = 0 \<longrightarrow> length (mlist mp) = 1) \<and>
     total_mem_pool_size mp = int (length (mlist mp)) * mem_pool_size mp \<and>
     total_mem_pool_size mp < max_mem_pool_size mp + mem_pool_size mp"

definition pool_ok :: "MemoryPool \<Rightarrow> bool" where
  "pool_ok mp \<longleftrightarrow> \<not> mp_lock mp \<and> pool_core mp"

definition live :: "MemoryPool \<Rightarrow> (addr \<times> int) set" where
  "live mp = {(c + MP_CHUNKHEADER, csz (mem mp) c - 40) | c mm.
     mm \<in> set (mlist mp) \<and> c \<in> alloc_set (mem mp) mm}"

text \<open>What is documented of \<open>malloc\<close>: NULL, or a region apart from all live ones.\<close>

definition malloc_ok :: "malloc \<Rightarrow> bool" where
  "malloc_ok mal \<longleftrightarrow> (\<forall>mp sz. mal mp sz = 0 \<or> 0 < mal mp sz \<and>
     (\<forall>mm\<in>set (mlist mp). mal mp sz + sz \<le> region_lo mm \<or> block_end mm \<le> mal mp sz))"

lemma apart_sym: "apart a b \<Longrightarrow> apart b a"
  by (auto simp: apart_def)

lemma pairwise_apart_nth:
  "pairwise_apart ms \<Longrightarrow> i < length ms \<Longrightarrow> j < length ms \<Longrightarrow> i \<noteq> j \<Longrightarrow> apart (ms ! i) (ms ! j)"
proof (induction ms arbitrary: i j)
  case (Cons m ms)
  then show ?case by (cases i; cases j) (auto intro: apart_sym)
qed simp

lemma pairwise_apart_update:
  assumes "pairwise_apart ms" "i < length ms" "m_start m = m_start (ms ! i)" "block_end m = block_end (ms ! i)"
  shows "pairwise_apart (ms[i := m])"
  using assms
proof (induction ms arbitrary: i)
  case (Cons x ms)
  show ?case
  proof (cases i)
    case 0
    then show ?thesis using Cons.prems by (simp add: apart_def region_lo_def)
  next
    case (Suc j)
    have "apart x b" if "b \<in> set (ms[j := m])" for b
    proof (cases "b = m")
      case True
      have "apart x (ms ! j)" using Cons.prems Suc by simp
      then show ?thesis using True Cons.prems Suc by (simp add: apart_def region_lo_def)
    next
      case False
      then have "b \<in> set ms" using that set_update_subset_insert[of ms j m] by auto
      then show ?thesis using Cons.prems by simp
    qed
    then show ?thesis using Cons Suc by simp
  qed
qed simp

text \<open>A region shares no address with another block's chunks.\<close>

lemma block_good_outside:
  assumes "block_good st mm" "agree_outside lo hi st st'" "block_end mm \<le> lo \<or> hi \<le> m_start mm"
  shows "block_good st' mm" "alloc_set st' mm = alloc_set st mm"
    "\<And>c. c \<in> alloc_set st mm \<Longrightarrow> csz st' c = csz st c"
proof -
  from assms(1) obtain cs fl al where b: "block_ok st mm cs fl al" by (auto simp: block_good_def)
  have b': "block_ok st' mm cs fl al" by (rule block_ok_outside[OF b assms(2,3)])
  then show "block_good st' mm" by (auto simp: block_good_def)
  show "alloc_set st' mm = alloc_set st mm" by (simp add: alloc_set_eq[OF b] alloc_set_eq[OF b'])
  fix c assume "c \<in> alloc_set st mm"
  then have "c \<in> set cs" using alloc_set_eq[OF b] block_coreD(8)[OF block_ok_core[OF b]] by auto
  from block_chunk(1-3)[OF block_ok_core[OF b] this] assms(2,3)
  show "csz st' c = csz st c" by (auto simp: agree_outside_def csz_def)
qed

text \<open>The live regions, block by block.\<close>

definition block_live :: "store \<Rightarrow> mp_memory \<Rightarrow> (addr \<times> int) set" where
  "block_live st mm = (\<lambda>c. (c + MP_CHUNKHEADER, csz st c - 40)) ` alloc_set st mm"

lemma block_live_eq: "block_ok st mm cs fl al \<Longrightarrow> block_live st mm = (\<lambda>c. (c + MP_CHUNKHEADER, csz st c - 40)) ` set al"
  by (simp add: block_live_def alloc_set_eq)

lemma live_blocks: "live mp = (\<Union>i<length (mlist mp). block_live (mem mp) (mlist mp ! i))"
  unfolding live_def block_live_def by (auto simp: in_set_conv_nth)

lemma block_live_sub: "i < length (mlist mp) \<Longrightarrow> block_live (mem mp) (mlist mp ! i) \<subseteq> live mp"
  unfolding live_blocks by blast

lemma block_good_nth: "pool_core mp \<Longrightarrow> i < length (mlist mp) \<Longrightarrow> block_good (mem mp) (mlist mp ! i)"
  by (simp add: pool_core_def)

lemma blocks_apart:
  assumes "pool_core mp" "i < length (mlist mp)" "j < length (mlist mp)" "i \<noteq> j"
  shows "block_end (mlist mp ! j) \<le> m_start (mlist mp ! i) \<or> block_end (mlist mp ! i) \<le> m_start (mlist mp ! j)"
  using pairwise_apart_nth[of "mlist mp" i j] assms
  by (auto simp: pool_core_def apart_def region_lo_def SIZEOF_MP_MEMORY_def)

lemma alloc_range:
  assumes "block_good st mm" "c \<in> alloc_set st mm"
  shows "m_start mm \<le> c" "c < block_end mm"
proof -
  from assms(1) obtain cs fl al where b: "block_ok st mm cs fl al" by (auto simp: block_good_def)
  have "c \<in> set cs" using assms(2) alloc_set_eq[OF b] block_coreD(8)[OF block_ok_core[OF b]] by auto
  from block_chunk(1-3)[OF block_ok_core[OF b] this] show "m_start mm \<le> c" "c < block_end mm" by auto
qed

lemma block_live_disjoint:
  assumes ok: "pool_core mp" and ij: "i < length (mlist mp)" "j < length (mlist mp)" "i \<noteq> j"
  shows "block_live (mem mp) (mlist mp ! i) \<inter> block_live (mem mp) (mlist mp ! j) = {}"
  using alloc_range[OF block_good_nth[OF ok ij(1)]] alloc_range[OF block_good_nth[OF ok ij(2)]] blocks_apart[OF ok ij]
  by (fastforce simp: block_live_def)

lemma UN_update:
  fixes f g :: "'a \<Rightarrow> 'b set"
  assumes i: "i < length xs" and dis: "\<And>j. j < length xs \<Longrightarrow> j \<noteq> i \<Longrightarrow> f (xs ! i) \<inter> f (xs ! j) = {}"
    and same: "\<And>j. j < length xs \<Longrightarrow> j \<noteq> i \<Longrightarrow> g (xs ! j) = f (xs ! j)"
  shows "(\<Union>j<length xs. g (xs[i := y] ! j)) = (\<Union>j<length xs. f (xs ! j)) - f (xs ! i) \<union> g y"
proof -
  have "{..<length xs} = insert i ({..<length xs} - {i})" using i by auto
  then have e: "(\<Union>j<length xs. F j) = F i \<union> (\<Union>j\<in>{..<length xs} - {i}. F j)" for F :: "nat \<Rightarrow> 'b set"
    by (metis UN_insert)
  have "(\<Union>j\<in>{..<length xs} - {i}. g (xs[i := y] ! j)) = (\<Union>j\<in>{..<length xs} - {i}. f (xs ! j))"
    using same by auto
  moreover have "f (xs ! i) \<inter> (\<Union>j\<in>{..<length xs} - {i}. f (xs ! j)) = {}" using dis by auto
  ultimately show ?thesis unfolding e[of "\<lambda>j. g (xs[i := y] ! j)"] e[of "\<lambda>j. f (xs ! j)"] using i by auto
qed

text \<open>One block changes.\<close>

lemma live_update:
  assumes ok: "pool_core mp" and i: "i < length (mlist mp)"
    and ag: "agree_outside (m_start (mlist mp ! i)) (block_end (mlist mp ! i)) (mem mp) st'"
    and mm: "m_start mm' = m_start (mlist mp ! i)" "m_mem_pool_size mm' = m_mem_pool_size (mlist mp ! i)"
    and good: "block_good st' mm'"
  shows "pool_core (mp\<lparr>mlist := (mlist mp)[i := mm'], mem := st'\<rparr>)"
    "live (mp\<lparr>mlist := (mlist mp)[i := mm'], mem := st'\<rparr>) =
       (live mp - block_live (mem mp) (mlist mp ! i)) \<union> block_live st' mm'"
proof -
  let ?ms = "mlist mp" and ?st = "mem mp"
  have be: "block_end mm' = block_end (?ms ! i)" using mm by (simp add: block_end_def)
  note out = block_good_outside[OF block_good_nth[OF ok] ag blocks_apart[OF ok i]]
  have nth': "?ms[i := mm'] ! j = (if j = i then mm' else ?ms ! j)" if "j < length ?ms" for j
    using that by simp
  have all: "\<forall>mm\<in>set (?ms[i := mm']). block_good st' mm \<and> m_mem_pool_size mm = mem_pool_size mp"
    using out(1) good ok mm(2) i
    by (auto simp: all_set_conv_all_nth nth' pool_core_def)
  have "pairwise_apart (?ms[i := mm'])"
    using ok i mm(1) be by (intro pairwise_apart_update) (auto simp: pool_core_def)
  with all ok show "pool_core (mp\<lparr>mlist := ?ms[i := mm'], mem := st'\<rparr>)" by (simp add: pool_core_def)
  have "block_live st' (?ms ! j) = block_live ?st (?ms ! j)" if "j < length ?ms" "j \<noteq> i" for j
    unfolding block_live_def using out(2,3) that by (auto intro!: image_cong)
  then show "live (mp\<lparr>mlist := ?ms[i := mm'], mem := st'\<rparr>) = (live mp - block_live ?st (?ms ! i)) \<union> block_live st' mm'"
    using UN_update[of i ?ms "block_live ?st" "block_live st'" mm'] block_live_disjoint[OF ok i] i
    by (simp add: live_blocks)
qed

section \<open>Allocation\<close>

lemma find_block_ok:
  assumes "\<forall>mm\<in>set ms. block_good st mm"
  shows "\<exists>r. find_block st psz n i ms = Some (Inr r) \<and>
     (\<forall>k p. r = Some (k, p) \<longrightarrow> (\<exists>j cs fl al. k = i + j \<and> j < length ms \<and>
        block_ok st (ms ! j) cs fl al \<and> p \<in> set fl \<and> n \<le> csz st p))"
  using assms
proof (induction ms arbitrary: i)
  case Nil
  then show ?case by simp
next
  case (Cons mm ms)
  from Cons.prems obtain cs fl al where b: "block_ok st mm cs fl al" by (auto simp: block_good_def)
  from Cons.IH[of "Suc i"] Cons.prems obtain r where r: "find_block st psz n (Suc i) ms = Some (Inr r)"
    "\<forall>k p. r = Some (k, p) \<longrightarrow> (\<exists>j cs fl al. k = Suc i + j \<and> j < length ms \<and>
        block_ok st (ms ! j) cs fl al \<and> p \<in> set fl \<and> n \<le> csz st p)" by auto
  have shift: "\<forall>k p. r = Some (k, p) \<longrightarrow> (\<exists>j cs fl al. k = i + j \<and> j < length (mm # ms) \<and>
        block_ok st ((mm # ms) ! j) cs fl al \<and> p \<in> set fl \<and> n \<le> csz st p)"
  proof (intro allI impI)
    fix k p assume "r = Some (k, p)"
    with r(2) obtain j cs fl al where "k = Suc i + j" "j < length ms"
      "block_ok st (ms ! j) cs fl al" "p \<in> set fl" "n \<le> csz st p" by blast
    then show "\<exists>j cs fl al. k = i + j \<and> j < length (mm # ms) \<and>
        block_ok st ((mm # ms) ! j) cs fl al \<and> p \<in> set fl \<and> n \<le> csz st p"
      by (intro exI[of _ "Suc j"]) auto
  qed
  obtain c where c: "find_free st (m_free_list mm) n = Some (Inr c)"
    "if \<exists>x\<in>set fl. n \<le> csz st x then c \<in> set fl \<and> n \<le> csz st c \<and> c \<noteq> 0 else c = 0"
    using find_free_seg[OF block_coreD(2)[OF block_ok_core[OF b]], of n] by blast
  show ?case
  proof (cases "u64 (psz - m_alloc_mem mm) < n \<or> c = 0")
    case True
    then have "find_block st psz n i (mm # ms) = Some (Inr r)" using r(1) c(1) by auto
    then show ?thesis using shift by blast
  next
    case False
    then have f: "find_block st psz n i (mm # ms) = Some (Inr (Some (i, c)))" using c(1) by simp
    have "c \<in> set fl" "n \<le> csz st c" using c(2) False by (auto split: if_splits)
    then have "\<exists>j cs fl al. i = i + j \<and> j < length (mm # ms) \<and>
        block_ok st ((mm # ms) ! j) cs fl al \<and> c \<in> set fl \<and> n \<le> csz st c"
      using b by (intro exI[of _ "0::nat"]) auto
    then show ?thesis unfolding f by (intro exI[of _ "Some (i, c)"]) simp
  qed
qed

lemma diff_insert_cover: "B \<subseteq> A \<Longrightarrow> (A - B) \<union> insert x B = insert x A"
  by blast

text \<open>The chunk found is taken: the pool stays well formed and one region becomes live.\<close>

definition grants :: "MemoryPool \<Rightarrow> int \<Rightarrow> addr \<Rightarrow> MemoryPool \<Rightarrow> bool" where
  "grants mp n p mp' \<longleftrightarrow> (\<exists>sz. n - 40 \<le> sz \<and> sz \<le> n \<and> p \<noteq> 0 \<and> p \<notin> fst ` live mp \<and>
     live mp' = insert (p, sz) (live mp))"

lemma live_chunk:
  assumes "pool_core mp" "(p, n) \<in> live mp"
  obtains i cs fl al where "i < length (mlist mp)" "block_ok (mem mp) (mlist mp ! i) cs fl al"
    "p - 32 \<in> set al" "n = csz (mem mp) (p - 32) - 40"
proof -
  from assms(2) obtain c mm where c: "p = c + 32" "n = csz (mem mp) c - 40" "mm \<in> set (mlist mp)"
    "c \<in> alloc_set (mem mp) mm" by (auto simp: live_def MP_CHUNKHEADER_def)
  from c(3) obtain i where i: "i < length (mlist mp)" "mm = mlist mp ! i" by (auto simp: in_set_conv_nth)
  from c(4) obtain cs fl al where "block_ok (mem mp) mm cs fl al" "c \<in> set al"
    by (auto simp: alloc_set_def)
  with c i that show ?thesis by simp
qed

text \<open>A chunk that is not allocated has no address of a live region.\<close>

lemma free_not_live:
  assumes ok: "pool_core mp" and i: "i < length (mlist mp)"
    and b: "block_ok (mem mp) (mlist mp ! i) cs fl al" and p: "p \<in> set fl"
  shows "p + 32 \<notin> fst ` live mp"
proof
  assume "p + 32 \<in> fst ` live mp"
  then obtain n where n: "(p + 32, n) \<in> live mp" by force
  obtain j cs' fl' al' where j: "j < length (mlist mp)" "block_ok (mem mp) (mlist mp ! j) cs' fl' al'"
    "p \<in> set al'" by (rule live_chunk[OF ok n]) simp
  have "j \<noteq> i"
  proof
    assume "j = i"
    then have "set al' = set al" using alloc_set_eq[OF b] alloc_set_eq[OF j(2)] by simp
    then show False using j(3) p block_lists_disjoint[OF block_ok_core[OF b]] by blast
  qed
  moreover have "m_start (mlist mp ! i) \<le> p" "p < block_end (mlist mp ! i)"
    using block_chunk[OF block_ok_core[OF b] free_chunk(1)[OF block_ok_core[OF b] p]] by auto
  moreover have "m_start (mlist mp ! j) \<le> p" "p < block_end (mlist mp ! j)"
    using block_chunk[OF block_ok_core[OF j(2)] allocated_chunk(1)[OF block_ok_core[OF j(2)] j(3)]] by auto
  ultimately show False using blocks_apart[OF ok i j(1)] by auto
qed

lemma take_chunk_pool:
  assumes ok: "pool_core mp" and i: "i < length (mlist mp)"
    and b: "block_ok (mem mp) (mlist mp ! i) cs fl al" and p: "p \<in> set fl"
    and n: "40 < n" "n \<le> csz (mem mp) p"
  shows "\<exists>mm' st'. take_chunk n p (mlist mp ! i, mem mp) = Inr (mm', st') \<and>
     pool_core (mp\<lparr>mlist := (mlist mp)[i := mm'], mem := st'\<rparr>) \<and>
     grants mp n (p + 32) (mp\<lparr>mlist := (mlist mp)[i := mm'], mem := st'\<rparr>)"
proof -
  from take_chunk_ok[OF b p n] obtain mm' st' cs' fl' where t:
    "take_chunk n p (mlist mp ! i, mem mp) = Inr (mm', st')" "block_ok st' mm' cs' fl' (p # al)"
    "n \<le> csz st' p" "csz st' p \<le> n + 40" "\<forall>d\<in>set al. csz st' d = csz (mem mp) d"
    "agree_outside (m_start (mlist mp ! i)) (block_end (mlist mp ! i)) (mem mp) st'"
    "m_start mm' = m_start (mlist mp ! i)" "m_mem_pool_size mm' = m_mem_pool_size (mlist mp ! i)"
    by blast
  have good: "block_good st' mm'" using t(2) by (auto simp: block_good_def)
  note up = live_update[OF ok i t(6,7,8) good]
  let ?mp = "mp\<lparr>mlist := (mlist mp)[i := mm'], mem := st'\<rparr>"
  have "block_live st' mm' = insert (p + 32, csz st' p - 40) (block_live (mem mp) (mlist mp ! i))"
    unfolding block_live_eq[OF b] block_live_eq[OF t(2)] using t(5) by (auto simp: MP_CHUNKHEADER_def image_iff)
  then have "live ?mp = insert (p + 32, csz st' p - 40) (live mp)"
    unfolding up(2) using diff_insert_cover[OF block_live_sub[OF i]] by simp
  moreover have "0 < p" using block_chunk(1)[OF block_ok_core[OF b] free_chunk(1)[OF block_ok_core[OF b] p]]
      block_coreD(6)[OF block_ok_core[OF b]] by simp
  ultimately have "grants mp n (p + 32) ?mp"
    using t(3,4) free_not_live[OF ok i b p] unfolding grants_def
    by (intro exI[of _ "csz st' p - 40"]) auto
  with t(1) up(1) show ?thesis by blast
qed

lemma pool_core_lock [simp]: "pool_core (mp\<lparr>mp_lock := b\<rparr>) = pool_core mp"
  by (simp add: pool_core_def)

lemma live_lock [simp]: "live (mp\<lparr>mp_lock := b\<rparr>) = live mp"
  by (simp add: live_def)

lemma grants_lock [simp]:
  "grants (mp\<lparr>mp_lock := b\<rparr>) n p mp' = grants mp n p mp'"
  "grants mp n p (mp'\<lparr>mp_lock := b\<rparr>) = grants mp n p mp'"
  by (simp_all add: grants_def)

lemma pool_core_sizes:
  assumes "pool_core mp"
  shows "40 < mem_pool_size mp" "mem_pool_size mp \<le> max_mem_pool_size mp"
    "max_mem_pool_size mp < 9223372036854775808"
    "auto_extend mp \<noteq> 0 \<Longrightarrow> total_mem_pool_size mp < max_mem_pool_size mp \<Longrightarrow>
       2 * mem_pool_size mp \<le> max_mem_pool_size mp"
    "total_mem_pool_size mp = int (length (mlist mp)) * mem_pool_size mp"
    "\<And>mm. mm \<in> set (mlist mp) \<Longrightarrow> block_good (mem mp) mm"
    "\<And>mm. mm \<in> set (mlist mp) \<Longrightarrow> m_mem_pool_size mm = mem_pool_size mp"
    "mem_pool_size mp \<le> total_mem_pool_size mp"
    "total_mem_pool_size mp < max_mem_pool_size mp + mem_pool_size mp"
proof -
  have "1 \<le> int (length (mlist mp))" using assms by (cases "mlist mp") (auto simp: pool_core_def)
  moreover have "0 \<le> mem_pool_size mp" using assms by (simp add: pool_core_def)
  ultimately have le: "mem_pool_size mp \<le> total_mem_pool_size mp"
    using assms mult_right_mono[of 1 "int (length (mlist mp))" "mem_pool_size mp"]
    by (simp add: pool_core_def)
  then show "mem_pool_size mp \<le> total_mem_pool_size mp" .
  show "auto_extend mp \<noteq> 0 \<Longrightarrow> total_mem_pool_size mp < max_mem_pool_size mp \<Longrightarrow>
       2 * mem_pool_size mp \<le> max_mem_pool_size mp"
    using assms le by (auto simp: pool_core_def)
qed (use assms in \<open>auto simp: pool_core_def\<close>)

text \<open>A block just initialised is one free chunk.\<close>

lemma init_block_ok:
  assumes "0 < m_start mm" "40 < A" "A < 18446744073709551616"
  shows "\<exists>mm' st'. MP_INIT_MEMORY_STRUCT A (mm, st) = (mm', st') \<and> m_start mm' = m_start mm \<and>
     m_mem_pool_size mm' = A \<and> m_alloc_mem mm' = 0 \<and> m_free_list mm' = m_start mm \<and>
     block_ok st' mm' [m_start mm] [m_start mm] [] \<and> csz st' (m_start mm) = A \<and>
     agree_outside (m_start mm) (m_start mm + A) st st'"
proof -
  define mm' where "mm' = mm\<lparr>m_mem_pool_size := A, m_alloc_mem := 0, m_alloc_prog_mem := 0,
          m_free_list := m_start mm, m_alloc_list := 0\<rparr>"
  define st' where "st' = put_hdr (m_start mm)
         \<lparr>c_alloc_mem = A, c_prev = 0, c_next = 0, c_is_free = True\<rparr> st"
  have h: "hdr st' (m_start mm) = Some \<lparr>c_alloc_mem = A, c_prev = 0, c_next = 0, c_is_free = True\<rparr>"
    by (simp add: st'_def put_hdr_def)
  then have p: "csz st' (m_start mm) = A" "cfree st' (m_start mm)" "mapped st' (m_start mm)"
    by (simp_all add: csz_def cfree_def mapped_def)
  have "block_ok st' mm' [m_start mm] [m_start mm] []"
    using h p assms by (auto simp: block_ok_def block_core_def coalesced_def block_end_def mm'_def)
  moreover have "agree_outside (m_start mm) (m_start mm + A) st st'"
    using assms by (auto simp: agree_outside_def st'_def put_hdr_def)
  moreover have "MP_INIT_MEMORY_STRUCT A (mm, st) = (mm', st')"
    by (simp add: MP_INIT_MEMORY_STRUCT_def mm'_def st'_def)
  ultimately show ?thesis using p(1) by (intro exI[of _ mm'] exI[of _ st']) (simp add: mm'_def)
qed

text \<open>A block with no live region joins the pool.\<close>

lemma block_joins:
  assumes ok: "pool_core mp" and mm: "block_good st' mm" "alloc_set st' mm = {}" "m_mem_pool_size mm = mem_pool_size mp"
    and ap: "\<forall>b\<in>set (mlist mp). apart mm b" and ag: "agree_outside (m_start mm) (block_end mm) (mem mp) st'"
    and room: "auto_extend mp \<noteq> 0" "total_mem_pool_size mp < max_mem_pool_size mp"
  shows "pool_core (mp\<lparr>last_id := k, mlist := mm # mlist mp, mem := st',
      total_mem_pool_size := u64 (total_mem_pool_size mp + mem_pool_size mp)\<rparr>)"
    "live (mp\<lparr>last_id := k, mlist := mm # mlist mp, mem := st'\<rparr>) = live mp"
proof -
  note sz = pool_core_sizes[OF ok]
  have sep: "block_end b \<le> m_start mm \<or> block_end mm \<le> m_start b" if "b \<in> set (mlist mp)" for b
    using ap that by (auto simp: apart_def region_lo_def SIZEOF_MP_MEMORY_def)
  note out = block_good_outside[OF sz(6) ag sep]
  have "0 \<le> total_mem_pool_size mp" using sz(1) by (simp add: sz(5))
  then have u: "u64 (total_mem_pool_size mp + mem_pool_size mp) = total_mem_pool_size mp + mem_pool_size mp"
    using room(2) sz(1-3) by (intro u64_id) auto
  show "pool_core (mp\<lparr>last_id := k, mlist := mm # mlist mp, mem := st',
      total_mem_pool_size := u64 (total_mem_pool_size mp + mem_pool_size mp)\<rparr>)"
    using ok ap mm out(1) room unfolding pool_core_def u by (auto simp: algebra_simps)
  have "block_live st' b = block_live (mem mp) b" if "b \<in> set (mlist mp)" for b
    unfolding block_live_def using out(2,3) that by (auto intro!: image_cong)
  moreover have "live mp' = (\<Union>b\<in>set (mlist mp'). block_live (mem mp') b)" for mp'
    unfolding live_def block_live_def by auto
  ultimately show "live (mp\<lparr>last_id := k, mlist := mm # mlist mp, mem := st'\<rparr>) = live mp"
    using mm(2) by (simp add: block_live_def[of st' mm])
qed

lemma extend_ok:
  assumes ok: "pool_core mp" and mal: "malloc_ok mal" and ext: "auto_extend mp \<noteq> 0"
    and room: "total_mem_pool_size mp < max_mem_pool_size mp"
    and e: "extend_memory_list mal mp (mem_pool_size mp) = Some mp0"
  shows "\<exists>mm ms. mlist mp0 = mm # ms \<and> mem_pool_size mp0 = mem_pool_size mp \<and>
     pool_core (mp0\<lparr>total_mem_pool_size := u64 (total_mem_pool_size mp0 + mem_pool_size mp)\<rparr>) \<and>
     live mp0 = live mp \<and> block_ok (mem mp0) mm [m_start mm] [m_start mm] [] \<and>
     m_alloc_mem mm = 0 \<and> m_free_list mm = m_start mm \<and> csz (mem mp0) (m_start mm) = mem_pool_size mp"
proof -
  let ?A = "mem_pool_size mp"
  note sz = pool_core_sizes[OF ok]
  define s where "s = mal mp (u64 (SIZEOF_MP_MEMORY + ?A))"
  have u: "u64 (64 + ?A) = 64 + ?A" using sz(1-3) by simp
  have s0: "s \<noteq> 0" using e by (auto simp: extend_memory_list_def s_def Let_def)
  then have sp: "0 < s" "\<forall>mm\<in>set (mlist mp). s + (64 + ?A) \<le> region_lo mm \<or> block_end mm \<le> s"
    using mal unfolding malloc_ok_def s_def by (auto simp: SIZEOF_MP_MEMORY_def u)
  define m0 where "m0 = \<lparr>m_start = s + SIZEOF_MP_MEMORY, m_id = last_id mp, m_mem_pool_size = 0,
                m_alloc_mem = 0, m_alloc_prog_mem = 0, m_free_list = 0, m_alloc_list = 0\<rparr>"
  have st0: "m_start m0 = s + 64" by (simp add: m0_def SIZEOF_MP_MEMORY_def)
  have lt: "?A < 18446744073709551616" using sz(2,3) by simp
  obtain mm st' where i: "MP_INIT_MEMORY_STRUCT ?A (m0, mem mp) = (mm, st')" "m_start mm = s + 64"
     "m_mem_pool_size mm = ?A" "m_alloc_mem mm = 0" "m_free_list mm = m_start mm"
     "block_ok st' mm [m_start mm] [m_start mm] []" "csz st' (m_start mm) = ?A"
     "agree_outside (s + 64) (s + 64 + ?A) (mem mp) st'"
    using init_block_ok[of m0 ?A "mem mp"] sp(1) sz(1) lt unfolding st0 by auto
  have mp0: "mp0 = mp\<lparr>last_id := (last_id mp + 1) mod 4294967296, mlist := mm # mlist mp, mem := st'\<rparr>"
    using e i(1) s0 unfolding extend_memory_list_def s_def[symmetric] m0_def by simp
  have ap: "\<forall>b\<in>set (mlist mp). apart mm b"
    using sp(2) i(2,3) by (auto simp: apart_def block_end_def[of mm] region_lo_def SIZEOF_MP_MEMORY_def)
  have ag: "agree_outside (m_start mm) (block_end mm) (mem mp) st'" using i(2,3,8) by (simp add: block_end_def)
  have "block_good st' mm" using i(6) by (auto simp: block_good_def)
  from block_joins[OF ok this _ i(3) ap ag ext room] alloc_set_eq[OF i(6)] show ?thesis
    using i by (simp add: mp0)
qed

text \<open>
  The whole search: a request that fits a block either finds memory, possibly in a new block,
  or fails without a change.
\<close>

lemma alloc_found:
  assumes ok: "pool_core mp" and n: "40 < n"
    and f: "find_block (mem mp) (mem_pool_size mp) n 0 (mlist mp) = Some (Inr (Some (i, p)))"
  shows "\<exists>q mp'. alloc_loop mal mp n = Some (Inr (q, mp')) \<and> pool_core mp' \<and>
     mp_lock mp' = mp_lock mp \<and> grants mp n q mp'"
proof -
  from find_block_ok[of "mlist mp" "mem mp" "mem_pool_size mp" n 0] pool_core_sizes(6)[OF ok] f
  obtain cs fl al where b: "i < length (mlist mp)" "block_ok (mem mp) (mlist mp ! i) cs fl al"
    "p \<in> set fl" "n \<le> csz (mem mp) p" by auto
  from take_chunk_pool[OF ok b(1-3) n b(4)] obtain mm' st' where
    t: "take_chunk n p (mlist mp ! i, mem mp) = Inr (mm', st')"
    "pool_core (mp\<lparr>mlist := (mlist mp)[i := mm'], mem := st'\<rparr>)"
    "grants mp n (p + 32) (mp\<lparr>mlist := (mlist mp)[i := mm'], mem := st'\<rparr>)" by blast
  have "alloc_loop mal mp n = Some (Inr (p + 32, mp\<lparr>mlist := (mlist mp)[i := mm'], mem := st'\<rparr>))"
    by (subst alloc_loop.simps) (simp add: f t(1) MP_CHUNKHEADER_def)
  then show ?thesis using t by auto
qed

lemma alloc_extended:
  assumes ok: "pool_core mp" and mal: "malloc_ok mal" and n: "40 < n" "n \<le> mem_pool_size mp"
    and ext: "auto_extend mp \<noteq> 0" "total_mem_pool_size mp < max_mem_pool_size mp"
    and e: "extend_memory_list mal mp (mem_pool_size mp) = Some mp0"
  shows "\<exists>q mp'. alloc_loop mal (mp0\<lparr>total_mem_pool_size := u64 (total_mem_pool_size mp0 + mem_pool_size mp)\<rparr>) n = Some (Inr (q, mp')) \<and>
     pool_core mp' \<and> mp_lock mp' = mp_lock mp \<and> grants mp n q mp'"
proof -
  note sz = pool_core_sizes[OF ok]
  define A where "A = mem_pool_size mp"
  define mp1 where "mp1 = mp0\<lparr>total_mem_pool_size := u64 (total_mem_pool_size mp0 + A)\<rparr>"
  from extend_ok[OF ok mal ext e] obtain mm ms where x: "mlist mp0 = mm # ms" "mem_pool_size mp0 = A"
    "pool_core mp1" "live mp0 = live mp" "block_ok (mem mp0) mm [m_start mm] [m_start mm] []"
    "m_alloc_mem mm = 0" "m_free_list mm = m_start mm" "csz (mem mp0) (m_start mm) = A"
    unfolding mp1_def A_def by blast
  have "mp_lock mp0 = mp_lock mp" using e
    by (auto simp: extend_memory_list_def Let_def split: if_splits prod.splits)
  then have l: "mp_lock mp1 = mp_lock mp" "live mp1 = live mp"
    using x(4) by (simp_all add: mp1_def live_def)
  have sg: "seg (mem mp0) 0 (m_free_list mm) [m_start mm] 0"
    using block_coreD(2)[OF block_ok_core[OF x(5)]] by simp
  have "find_free (mem mp0) (m_free_list mm) n = Some (Inr (m_start mm))"
    using find_free_seg[OF sg, of n] x(8) n by (auto simp: A_def)
  moreover have "0 < m_start mm" using block_coreD(6)[OF block_ok_core[OF x(5)]] .
  moreover have "u64 A = A" using sz(1-3) by (simp add: A_def)
  ultimately have "find_block (mem mp1) (mem_pool_size mp1) n 0 (mlist mp1) = Some (Inr (Some (0, m_start mm)))"
    using x(1,2,6) n by (simp add: mp1_def A_def)
  from alloc_found[OF x(3) n(1) this, of mal] show ?thesis
    using l by (auto simp: grants_def mp1_def A_def)
qed

lemma alloc_loop_ok:
  assumes ok: "pool_core mp" and mal: "malloc_ok mal" and n: "40 < n" "n \<le> mem_pool_size mp"
  shows "\<exists>q mp'. alloc_loop mal mp n = Some (Inr (q, mp')) \<and> pool_core mp' \<and>
     mp_lock mp' = mp_lock mp \<and> (if q = 0 then mp' = mp else grants mp n q mp')"
proof -
  note sz = pool_core_sizes[OF ok]
  have nz: "grants mp n q mp' \<Longrightarrow> q \<noteq> 0" for mp n q mp' by (auto simp: grants_def)
  from find_block_ok[of "mlist mp" "mem mp" "mem_pool_size mp" n 0] sz(6)
  obtain r where r: "find_block (mem mp) (mem_pool_size mp) n 0 (mlist mp) = Some (Inr r)" by blast
  show ?thesis
  proof (cases r)
    case (Some ip)
    then obtain q mp' where "alloc_loop mal mp n = Some (Inr (q, mp'))" "pool_core mp'"
      "mp_lock mp' = mp_lock mp" "grants mp n q mp'"
      using alloc_found[OF ok n(1), of "fst ip" "snd ip" mal] r by auto
    then show ?thesis using nz by (intro exI[of _ q] exI[of _ mp']) simp
  next
    case None
    note r = r[unfolded None]
    let ?ext = "auto_extend mp \<noteq> 0 \<and> total_mem_pool_size mp < max_mem_pool_size mp"
    have u: "u64 (max_mem_pool_size mp - mem_pool_size mp) = max_mem_pool_size mp - mem_pool_size mp"
      using sz(1-3) by simp
    have ext: "?ext \<Longrightarrow> mem_pool_size mp \<le> max_mem_pool_size mp - mem_pool_size mp" using sz(4) by simp
    show ?thesis
    proof (cases "?ext \<and> extend_memory_list mal mp (mem_pool_size mp) \<noteq> None")
      case False
      then have "alloc_loop mal mp n = Some (Inr (0, mp))"
        using r ext by (subst alloc_loop.simps) (auto simp: u)
      then show ?thesis using ok by auto
    next
      case True
      then obtain mp0 where e: "extend_memory_list mal mp (mem_pool_size mp) = Some mp0" by auto
      have "alloc_loop mal mp n = alloc_loop mal (mp0\<lparr>total_mem_pool_size := u64 (total_mem_pool_size mp0 + mem_pool_size mp)\<rparr>) n"
        using r True e ext by (subst alloc_loop.simps) (simp add: u)
      moreover obtain q mp' where q: "alloc_loop mal (mp0\<lparr>total_mem_pool_size := u64 (total_mem_pool_size mp0 + mem_pool_size mp)\<rparr>) n = Some (Inr (q, mp'))"
        "pool_core mp'" "mp_lock mp' = mp_lock mp" "grants mp n q mp'"
        using alloc_extended[OF ok mal n _ _ e] True by blast
      ultimately show ?thesis using nz[OF q(4)] by (intro exI[of _ q] exI[of _ mp']) simp
    qed
  qed
qed

text \<open>The rounding of \<open>MP_ALIGN_SIZE\<close> adds between 1 and 8 and gives a multiple of 8.\<close>

lemma align_size:
  assumes "0 \<le> n" "n + 8 < 18446744073709551616"
  shows "MP_ALIGN_SIZE n = n + 8 - n mod 8"
proof -
  have "7 AND n = n mod 8"
    using take_bit_eq_mask[of 3 n] by (simp add: take_bit_eq_mod mask_eq_exp_minus_1 and.commute)
  moreover have "0 \<le> n mod 8" "n mod 8 < 8" by simp_all
  ultimately show ?thesis using assms by (simp add: MP_ALIGN_SIZE_def)
qed

lemma needed_size_bounds:
  assumes "0 < want" "want < 18446744073709551568"
  shows "want + 40 < total_needed_size want" "total_needed_size want \<le> want + 48"
    "total_needed_size want mod 8 = 0"
proof -
  have e: "total_needed_size want = want + 40 + 8 - (want + 40) mod 8"
    using assms by (simp add: total_needed_size_def MP_CHUNKHEADER_def MP_CHUNKEND_def align_size
        add.commute[of 40 want])
  have "0 \<le> (want + 40) mod 8" "(want + 40) mod 8 < 8" by simp_all
  then show "want + 40 < total_needed_size want" "total_needed_size want \<le> want + 48"
    unfolding e by linarith+
  show "total_needed_size want mod 8 = 0" unfolding e by presburger
qed

theorem MemoryPoolAlloc_ok:
  assumes ok: "pool_ok mp" and mal: "malloc_ok mal" and w: "0 < want" "want < 18446744073709551568"
  shows "\<exists>q mp'. MemoryPoolAlloc mal mp want = Some (Inr (q, mp')) \<and> pool_ok mp' \<and>
     (if q = 0 then mp' = mp
      else q \<notin> fst ` live mp \<and> (\<exists>sz. want < sz \<and> sz \<le> want + 48 \<and> live mp' = insert (q, sz) (live mp)))"
proof -
  let ?n = "total_needed_size want"
  note nb = needed_size_bounds[OF w]
  have lk: "\<not> mp_lock mp" "pool_core mp" using ok by (auto simp: pool_ok_def)
  show ?thesis
  proof (cases "?n > mem_pool_size mp")
    case True
    then show ?thesis using ok w by (intro exI[of _ 0] exI[of _ mp]) (simp add: MemoryPoolAlloc_def)
  next
    case False
    have core: "pool_core (mp\<lparr>mp_lock := True\<rparr>)" using lk by simp
    have n: "40 < ?n" "?n \<le> mem_pool_size (mp\<lparr>mp_lock := True\<rparr>)" using nb w False by auto
    from alloc_loop_ok[OF core mal n] obtain q mp' where
      q: "alloc_loop mal (mp\<lparr>mp_lock := True\<rparr>) ?n = Some (Inr (q, mp'))" "pool_core mp'"
      "if q = 0 then mp' = mp\<lparr>mp_lock := True\<rparr> else grants mp ?n q mp'"
      unfolding grants_lock by blast
    have a: "MemoryPoolAlloc mal mp want = Some (Inr (q, MP_UNLOCK mp'))"
      using w False lk q(1) by (simp add: MemoryPoolAlloc_def MP_LOCK_def)
    have ok': "pool_ok (MP_UNLOCK mp')" using q(2) by (simp add: pool_ok_def MP_UNLOCK_def)
    show ?thesis
    proof (cases "q = 0")
      case True
      then show ?thesis using a q(3) ok lk
        by (intro exI[of _ 0] exI[of _ mp]) (simp add: MP_UNLOCK_def)
    next
      case False
      then obtain sz where "?n - 40 \<le> sz" "sz \<le> ?n" "q \<notin> fst ` live mp" "live mp' = insert (q, sz) (live mp)"
        using q(3) by (auto simp: grants_def)
      then show ?thesis using a ok' False nb
        by (intro exI[of _ q] exI[of _ "MP_UNLOCK mp'"])
          (auto simp: MP_UNLOCK_def intro!: exI[of _ sz])
    qed
  qed
qed

section \<open>Release\<close>

lemma find_index_unique:
  "i < length xs \<Longrightarrow> P (xs ! i) \<Longrightarrow> (\<And>j. j < i \<Longrightarrow> \<not> P (xs ! j)) \<Longrightarrow> find_index P xs = i"
proof (induction xs arbitrary: i)
  case (Cons x xs)
  show ?case
  proof (cases i)
    case 0
    then show ?thesis using Cons.prems by simp
  next
    case (Suc k)
    then have "\<not> P x" using Cons.prems(3)[of 0] by simp
    moreover have "find_index P xs = k"
      using Cons.IH[of k] Cons.prems Suc by (metis Suc_less_eq length_Cons nth_Cons_Suc)
    ultimately show ?thesis using Suc by simp
  qed
qed simp

text \<open>The block of a live address is the one the code goes to.\<close>

lemma block_of_live:
  assumes ok: "pool_core mp" and i: "i < length (mlist mp)"
    and b: "block_ok (mem mp) (mlist mp ! i) cs fl al" and c: "c \<in> set al"
  shows "(if auto_extend mp \<noteq> 0 then find_memory_list mp (c + 32)
      else if mlist mp = [] then None else Some 0) = Some i"
proof -
  note cc = block_chunk[OF block_ok_core[OF b] allocated_chunk(1)[OF block_ok_core[OF b] c]]
  have psz: "block_end (mlist mp ! j) = m_start (mlist mp ! j) + mem_pool_size mp"
    if "j < length (mlist mp)" for j
    using pool_core_sizes(7)[OF ok, of "mlist mp ! j"] that by (simp add: block_end_def)
  have "find_index (\<lambda>mm. m_start mm \<le> c + 32 \<and> c + 32 < m_start mm + mem_pool_size mp) (mlist mp) = i"
  proof (rule find_index_unique[OF i])
    show "m_start (mlist mp ! i) \<le> c + 32 \<and> c + 32 < m_start (mlist mp ! i) + mem_pool_size mp"
      using cc psz[OF i] by auto
    fix j assume j: "j < i"
    then have "j < length (mlist mp)" "j \<noteq> i" using i by auto
    from blocks_apart[OF ok i this(1)] this(2) psz[OF this(1)]
    show "\<not> (m_start (mlist mp ! j) \<le> c + 32 \<and> c + 32 < m_start (mlist mp ! j) + mem_pool_size mp)"
      using cc by auto
  qed
  then have "find_memory_list mp (c + 32) = Some i" using i by (simp add: find_memory_list_def)
  moreover have "i = 0" if "auto_extend mp = 0" using ok i that by (simp add: pool_core_def)
  ultimately show ?thesis using i by auto
qed
lemma freed_live:
  assumes b: "block_ok st mm cs fl al" and b': "block_ok st' mm' cs' fl' (remove1 (p - 32) al)"
    and same: "\<forall>d\<in>set al - {p - 32}. csz st' d = csz st d"
    and c: "p - 32 \<in> set al" and n: "n = csz st (p - 32) - 40"
  shows "block_live st' mm' = block_live st mm - {(p, n)}" "(p, n) \<in> block_live st mm"
proof -
  let ?f = "\<lambda>c. (c + MP_CHUNKHEADER, csz st c - 40)"
  have pn: "(p, n) = ?f (p - 32)" using n by (simp add: MP_CHUNKHEADER_def)
  have "set (remove1 (p - 32) al) = set al - {p - 32}"
    using block_coreD(5)[OF block_ok_core[OF b]] by simp
  then have "block_live st' mm' = ?f ` (set al - {p - 32})"
    unfolding block_live_eq[OF b'] using same by (auto intro!: image_cong)
  also have "\<dots> = block_live st mm - {(p, n)}"
    unfolding block_live_eq[OF b] pn by (auto simp: image_iff)
  finally show "block_live st' mm' = block_live st mm - {(p, n)}" .
  show "(p, n) \<in> block_live st mm" unfolding block_live_eq[OF b] pn using c by blast
qed


theorem MemoryPoolFree_ok:
  assumes ok: "pool_ok mp" and p: "(p, n) \<in> live mp"
  shows "\<exists>mp'. MemoryPoolFree mp p = Some (Inr (0, mp')) \<and> pool_ok mp' \<and>
     live mp' = live mp - {(p, n)}"
proof -
  define mq where "mq = mp\<lparr>mp_lock := True\<rparr>"
  have lk: "\<not> mp_lock mp" and core: "pool_core mq" using ok by (auto simp: pool_ok_def mq_def)
  have q: "(p, n) \<in> live mq" using p by (simp add: mq_def)
  obtain i cs fl al where i: "i < length (mlist mq)" and b: "block_ok (mem mq) (mlist mq ! i) cs fl al"
    and c: "p - 32 \<in> set al" and n: "n = csz (mem mq) (p - 32) - 40"
    by (rule live_chunk[OF core q])
  have psz: "mem_pool_size mq = m_mem_pool_size (mlist mq ! i)"
    using pool_core_sizes(7)[OF core, of "mlist mq ! i"] i by simp
  from release_merge_ok[OF b c psz] obtain ms mm' st' cs' fs where r:
    "release_chunk (p - 32) (mlist mq ! i, mem mq) = Inr ms"
    "merge_free_chunk (mem_pool_size mq) (p - 32) ms = Some (Inr (mm', st'))"
    "block_ok st' mm' cs' fs (remove1 (p - 32) al)"
    "\<forall>d\<in>set al - {p - 32}. csz st' d = csz (mem mq) d"
    "agree_outside (m_start (mlist mq ! i)) (block_end (mlist mq ! i)) (mem mq) st'"
    "m_start mm' = m_start (mlist mq ! i)" "m_mem_pool_size mm' = m_mem_pool_size (mlist mq ! i)"
    by blast
  let ?mp = "mq\<lparr>mlist := (mlist mq)[i := mm'], mem := st'\<rparr>"
  have good: "block_good st' mm'" using r(3) by (auto simp: block_good_def)
  note up = live_update[OF core i r(5-7) good]
  have p0: "p \<noteq> 0"
    using block_chunk(1)[OF block_ok_core[OF b] allocated_chunk(1)[OF block_ok_core[OF b] c]]
      block_coreD(6)[OF block_ok_core[OF b]] by auto
  have code: "MemoryPoolFree mp p = Some (Inr (0, MP_UNLOCK ?mp))"
  proof -
    have blk: "(if auto_extend mq \<noteq> 0 then find_memory_list mq p
        else if mlist mq = [] then None else Some 0) = Some i"
      using block_of_live[OF core i b c] by (simp only: diff_add_cancel)
    have lock: "MP_LOCK mp = Inr mq" using lk by (simp add: MP_LOCK_def mq_def)
    show ?thesis
      by (simp only: MemoryPoolFree_def lock sum.case option.case blk MP_CHUNKHEADER_def r(1) p0 if_False)
        (simp add: r(2))
  qed
  have "live ?mp = live mq - {(p, n)}"
    unfolding up(2) freed_live[OF b r(3,4) c n] using block_live_sub[OF i] freed_live(2)[OF b r(3,4) c n] by blast
  then have "live (MP_UNLOCK ?mp) = live mp - {(p, n)}" by (simp add: MP_UNLOCK_def mq_def live_def)
  moreover have "pool_ok (MP_UNLOCK ?mp)" using up(1) by (simp add: pool_ok_def MP_UNLOCK_def)
  ultimately show ?thesis using code by blast
qed

end
