(* ===== verification/Pool_Theorems.thy ===== *)
theory Pool_Theorems
  imports Pool_Contract
begin

text \<open>
  The properties of the memory pool: what a client of \<open>MemoryPoolAlloc\<close> and
  \<open>MemoryPoolFree\<close> gets in every reachable state, the statistics, and the two ways in which
  the pool departs from its contract (a size that wraps, a limit that is overshot).
\<close>

section \<open>Accounting\<close>

lemma block_live_sum:
  assumes "block_good st mm"
  shows "finite (block_live st mm)" "(\<Sum>x\<in>block_live st mm. snd x + 40) = m_alloc_mem mm"
proof -
  from assms obtain cs fl al where b: "block_ok st mm cs fl al" by (auto simp: block_good_def)
  note e = alloc_set_eq[OF b]
  show "finite (block_live st mm)" by (simp add: block_live_def e)
  have "(\<Sum>x\<in>block_live st mm. snd x + 40) = (\<Sum>c\<in>set al. csz st c)"
    unfolding block_live_def e by (subst sum.reindex) (auto simp: inj_on_def)
  also have "\<dots> = m_alloc_mem mm"
    using block_coreD(5,10)[OF block_ok_core[OF b]] by (simp add: sum_list_distinct_conv_sum_set)
  finally show "(\<Sum>x\<in>block_live st mm. snd x + 40) = m_alloc_mem mm" .
qed

lemma live_sum:
  assumes ok: "pool_core mp"
  shows "finite (live mp)" "(\<Sum>x\<in>live mp. snd x + 40) = (\<Sum>mm\<leftarrow>mlist mp. m_alloc_mem mm)"
proof -
  have good: "block_good (mem mp) (mlist mp ! i)" if "i < length (mlist mp)" for i
    using pool_core_sizes(6)[OF ok] that by simp
  show "finite (live mp)" unfolding live_blocks using block_live_sum(1)[OF good] by simp
  have "(\<Sum>x\<in>live mp. snd x + 40) =
      (\<Sum>i<length (mlist mp). \<Sum>x\<in>block_live (mem mp) (mlist mp ! i). snd x + 40)"
    unfolding live_blocks using block_live_sum(1)[OF good] block_live_disjoint[OF ok]
    by (intro sum.UNION_disjoint) auto
  also have "\<dots> = (\<Sum>i<length (mlist mp). m_alloc_mem (mlist mp ! i))"
    using block_live_sum(2)[OF good] by simp
  also have "\<dots> = (\<Sum>mm\<leftarrow>mlist mp. m_alloc_mem mm)"
    by (simp add: sum_list_sum_nth atLeast0LessThan)
  finally show "(\<Sum>x\<in>live mp. snd x + 40) = (\<Sum>mm\<leftarrow>mlist mp. m_alloc_mem mm)" .
qed

lemma used_bounds:
  assumes ok: "pool_core mp"
  shows "0 \<le> (\<Sum>mm\<leftarrow>mlist mp. m_alloc_mem mm)" "(\<Sum>mm\<leftarrow>mlist mp. m_alloc_mem mm) \<le> total_mem_pool_size mp"
proof -
  note sz = pool_core_sizes[OF ok]
  have b: "0 \<le> m_alloc_mem mm \<and> m_alloc_mem mm \<le> mem_pool_size mp" if m: "mm \<in> set (mlist mp)" for mm
  proof -
    obtain cs fl al where "block_ok (mem mp) mm cs fl al" using sz(6)[OF m] by (auto simp: block_good_def)
    from block_counter_bounds[OF block_ok_core[OF this]] sz(7)[OF m] show ?thesis by auto
  qed
  then show "0 \<le> (\<Sum>mm\<leftarrow>mlist mp. m_alloc_mem mm)" by (auto intro!: sum_list_nonneg)
  have "(\<Sum>mm\<leftarrow>mlist mp. m_alloc_mem mm) \<le> (\<Sum>mm\<leftarrow>mlist mp. mem_pool_size mp)"
    using b by (intro sum_list_mono) auto
  then show "(\<Sum>mm\<leftarrow>mlist mp. m_alloc_mem mm) \<le> total_mem_pool_size mp"
    unfolding sz(5) by (simp add: sum_list_triv)
qed

section \<open>No fragmentation\<close>

text \<open>A block with nothing allocated is one free chunk: every free run has been merged.\<close>

lemma empty_block_whole:
  assumes b: "block_ok st mm cs fl []" and "0 < m_mem_pool_size mm"
  shows "cs = [m_start mm] \<and> fl = [m_start mm] \<and> csz st (m_start mm) = m_mem_pool_size mm"
proof -
  note core = block_ok_core[OF b]
  have free: "\<forall>c\<in>set cs. cfree st c" using block_coreD(8)[OF core] by auto
  have t: "tiles st (m_start mm) cs (block_end mm)" by (rule block_coreD(1)[OF core])
  then obtain c ds where cs: "cs = c # ds" using assms(2) by (cases cs) (auto simp: block_end_def)
  have c: "c = m_start mm" "tiles st (c + csz st c) ds (block_end mm)" using t cs by auto
  have "ds = []"
  proof (rule ccontr)
    assume "ds \<noteq> []"
    then obtain d es where ds: "ds = d # es" by (cases ds) auto
    then have "d = c + csz st c" "d + csz st d \<le> block_end mm" "40 < csz st d"
      using c(2) tiles_bounds[OF t, of d] cs by auto
    moreover have "\<not> cfree st (c + csz st c)"
      using b free cs calculation unfolding block_ok_def coalesced_def by auto
    ultimately show False using free cs ds by simp
  qed
  then have "cs = [m_start mm]" "csz st (m_start mm) = m_mem_pool_size mm"
    using c cs by (auto simp: block_end_def)
  moreover have "fl = [m_start mm]"
  proof -
    have "set fl = {m_start mm}" using block_coreD(7)[OF core] calculation(1) free by auto
    moreover have "length fl = 1" using distinct_card[OF block_coreD(4)[OF core]] \<open>set fl = _\<close> by simp
    ultimately show ?thesis by (cases fl) auto
  qed
  ultimately show ?thesis by simp
qed

lemma empty_pool_serves:
  assumes ok: "pool_core mp" and em: "live mp = {}" and n: "40 < n" "n \<le> mem_pool_size mp"
  shows "\<exists>q mp'. alloc_loop mal mp n = Some (Inr (q, mp')) \<and> q \<noteq> 0"
proof -
  note sz = pool_core_sizes[OF ok]
  obtain mm ms where ms: "mlist mp = mm # ms" using ok by (cases "mlist mp") (auto simp: pool_core_def)
  obtain cs fl al where b: "block_ok (mem mp) mm cs fl al"
    using sz(6)[of mm] ms by (auto simp: block_good_def)
  have "alloc_set (mem mp) mm = {}" using em ms by (auto simp: live_def)
  then have "al = []" using alloc_set_eq[OF b] by simp
  note b = b[unfolded this]
  have msz: "m_mem_pool_size mm = mem_pool_size mp" using sz(7) ms by simp
  then have w: "fl = [m_start mm]" "csz (mem mp) (m_start mm) = mem_pool_size mp"
    using empty_block_whole[OF b] sz(1) by auto
  have z: "m_alloc_mem mm = 0" using block_coreD(10)[OF block_ok_core[OF b]] by simp
  have "find_free (mem mp) (m_free_list mm) n = Some (Inr (m_start mm))"
    using find_free_seg[OF block_coreD(2)[OF block_ok_core[OF b]], of n] w n by auto
  moreover have "u64 (mem_pool_size mp) = mem_pool_size mp" using sz(1-3) by simp
  moreover have "0 < m_start mm" using block_coreD(6)[OF block_ok_core[OF b]] .
  ultimately have "find_block (mem mp) (mem_pool_size mp) n 0 (mlist mp) = Some (Inr (Some (0, m_start mm)))"
    using n z by (simp add: ms)
  from alloc_found[OF ok n(1) this, of mal] obtain q mp' where
    "alloc_loop mal mp n = Some (Inr (q, mp'))" "grants mp n q mp'" by blast
  moreover from this(2) have "q \<noteq> 0" by (auto simp: grants_def)
  ultimately show ?thesis by blast
qed

section \<open>Reachable pools\<close>

text \<open>
  The pools a client can bring about: initialisation, then requests, releases of regions that
  are live, and clearing, in any order.
\<close>

inductive pool_reach :: "malloc \<Rightarrow> MemoryPool \<Rightarrow> bool" for mal where
  init: "MemoryPoolInit junk mpa s maxi psz = Some mp \<Longrightarrow> 40 < psz \<Longrightarrow> maxi < 9223372036854775808 \<Longrightarrow>
     (psz < maxi \<longrightarrow> 2 * psz \<le> maxi) \<Longrightarrow> 0 < s \<Longrightarrow> pool_reach mal mp"
| alloc: "pool_reach mal mp \<Longrightarrow> n < 18446744073709551568 \<Longrightarrow>
     MemoryPoolAlloc mal mp n = Some (Inr (p, mp')) \<Longrightarrow> pool_reach mal mp'"
| free: "pool_reach mal mp \<Longrightarrow> p \<in> fst ` live mp \<Longrightarrow>
     MemoryPoolFree mp p = Some (Inr (r, mp')) \<Longrightarrow> pool_reach mal mp'"
| clear: "pool_reach mal mp \<Longrightarrow> MemoryPoolClear mp = Inr mp' \<Longrightarrow> pool_reach mal mp'"

lemma pool_reach_ok:
  assumes "pool_reach mal mp" "malloc_ok mal"
  shows "pool_ok mp"
  using assms
proof induction
  case (init junk mpa s maxi psz mp)
  then have "psz \<le> maxi" "mpa \<noteq> 0" by (auto simp: MemoryPoolInit_def split: if_splits)
  then show ?case using MemoryPoolInit_ok[of psz maxi s mpa junk] init by auto
next
  case (alloc mp n p mp')
  show ?case
  proof (cases "0 < n")
    case True
    then show ?thesis using MemoryPoolAlloc_ok[of mp mal n] alloc by auto
  next
    case False
    then show ?thesis using alloc by (simp add: MemoryPoolAlloc_def)
  qed
next
  case (free mp p r mp')
  then obtain n where "(p, n) \<in> live mp" by auto
  then show ?case using MemoryPoolFree_ok[of mp p n] free by auto
next
  case (clear mp mp')
  then show ?case using MemoryPoolClear_ok[of mp] by auto
qed

section \<open>A concrete pool\<close>

text \<open>A \<open>malloc\<close> that serves from above the last block, and pools made with it.\<close>

definition bump_malloc :: malloc where
  "bump_malloc mp sz = foldr (\<lambda>mm a. max a (m_start mm + m_mem_pool_size mm)) (mlist mp) 4096"

lemma bump_ge: "4096 \<le> foldr (\<lambda>mm a. max a (m_start mm + m_mem_pool_size mm)) ms 4096"
  by (induction ms) auto

lemma bump_ge_block: "mm \<in> set ms \<Longrightarrow>
   block_end mm \<le> foldr (\<lambda>mm a. max a (m_start mm + m_mem_pool_size mm)) ms 4096"
  by (induction ms) (auto simp: block_end_def)

lemma bump_malloc_ok: "malloc_ok bump_malloc"
  unfolding malloc_ok_def
proof (intro allI disjI2 conjI ballI)
  fix mp sz
  show "0 < bump_malloc mp sz" using bump_ge[of "mlist mp"] by (simp add: bump_malloc_def)
  fix mm assume "mm \<in> set (mlist mp)"
  then show "block_end mm \<le> bump_malloc mp sz" unfolding bump_malloc_def by (rule bump_ge_block)
qed

definition demo_pool :: MemoryPool where
  "demo_pool = the (MemoryPoolInit 0 8 4096 2000 1000)"

lemma demo_reach: "pool_reach bump_malloc demo_pool" and demo_live: "live demo_pool = {}"
proof -
  obtain mp where mp: "MemoryPoolInit 0 8 4096 2000 1000 = Some mp" "live mp = {}"
    using MemoryPoolInit_ok[of 1000 2000 4096 8 0] by auto
  then have "mp = demo_pool" by (simp add: demo_pool_def)
  with mp pool_reach.init[of 0 8 4096 2000 1000 mp bump_malloc]
  show "pool_reach bump_malloc demo_pool" "live demo_pool = {}" by auto
qed

lemmas pool_eval = MemoryPoolAlloc_def total_needed_size_def MP_ALIGN_SIZE_def MP_CHUNKHEADER_def
  MP_CHUNKEND_def MP_LOCK_def MP_UNLOCK_def alloc_loop.simps find_free.simps take_chunk_def
  split_chunk_def whole_chunk_def MP_DLINKLIST_INS_FRT_def MP_DLINKLIST_DEL_def get_hdr_def
  put_hdr_def mod_hdr_def put_ftr_def MemoryPoolInit_def MP_INIT_MEMORY_STRUCT_def
  SIZEOF_MP_MEMORY_def empty_store_def u64_def extend_memory_list_def

definition demo_pool1 :: MemoryPool where
  "demo_pool1 = snd (projr (the (MemoryPoolAlloc bump_malloc demo_pool 100)))"

lemma demo_alloc: "MemoryPoolAlloc bump_malloc demo_pool 100 = Some (Inr (4192, demo_pool1))"
  unfolding demo_pool1_def demo_pool_def by (simp add: pool_eval)

lemma demo1_reach: "pool_reach bump_malloc demo_pool1"
  using pool_reach.alloc[OF demo_reach _ demo_alloc] by simp

lemma demo1_live: "\<exists>n. (4192, n) \<in> live demo_pool1"
  using MemoryPoolAlloc_ok[OF pool_reach_ok[OF demo_reach bump_malloc_ok] bump_malloc_ok, of 100]
    demo_alloc by auto

section \<open>Properties\<close>

text \<open>C3: In every pool that initialisation, requests, releases and clearing can bring about, a
  request (of a size below 2^64 - 48) returns, never walks a list for ever and never touches an
  address without a chunk header. It either fails with NULL and no change, or returns a region
  larger than asked by at most 48 bytes, disjoint from every region handed out before; the set
  of live regions grows by exactly this one.\<close>

theorem alloc_contract:
  assumes "pool_reach mal mp" "malloc_ok mal" "0 < want" "want < 18446744073709551568"
  shows "\<exists>q mp'. MemoryPoolAlloc mal mp want = Some (Inr (q, mp')) \<and>
     (if q = 0 then mp' = mp
      else \<exists>sz. want < sz \<and> sz \<le> want + 48 \<and> live mp' = insert (q, sz) (live mp) \<and>
        (\<forall>(p, n)\<in>live mp. p + n \<le> q \<or> q + sz \<le> p))"
proof -
  note ok = pool_reach_ok[OF assms(1,2)]
  obtain q mp' where a: "MemoryPoolAlloc mal mp want = Some (Inr (q, mp'))" "pool_ok mp'"
     "if q = 0 then mp' = mp
      else q \<notin> fst ` live mp \<and> (\<exists>sz. want < sz \<and> sz \<le> want + 48 \<and> live mp' = insert (q, sz) (live mp))"
    using MemoryPoolAlloc_ok[OF ok assms(2-4)] by blast
  have core: "pool_core mp'" using a(2) by (simp add: pool_ok_def)
  show ?thesis
  proof (cases "q = 0")
    case True
    then show ?thesis using a by auto
  next
    case False
    then obtain sz where sz: "q \<notin> fst ` live mp" "want < sz" "sz \<le> want + 48"
      "live mp' = insert (q, sz) (live mp)" using a(3) by auto
    have "p + n \<le> q \<or> q + sz \<le> p" if "(p, n) \<in> live mp" for p n
    proof (rule live_apart[OF core])
      show "(p, n) \<in> live mp'" "(q, sz) \<in> live mp'" using that sz(4) by auto
      show "(p, n) \<noteq> (q, sz)" using that sz(1) by force
    qed
    then show ?thesis using a(1) False sz by auto
  qed
qed

theorem alloc_contract_witness:
  "\<exists>q mp'. MemoryPoolAlloc bump_malloc demo_pool1 100 = Some (Inr (q, mp')) \<and>
     (if q = 0 then mp' = demo_pool1
      else \<exists>sz. 100 < sz \<and> sz \<le> 100 + 48 \<and> live mp' = insert (q, sz) (live demo_pool1) \<and>
        (\<forall>(p, n)\<in>live demo_pool1. p + n \<le> q \<or> q + sz \<le> p))"
  using alloc_contract[OF demo1_reach bump_malloc_ok, of 100] by simp

text \<open>C4: In every reachable pool, giving back a live region returns 0 and makes exactly that
  region dead: the chunk is unlinked from the allocated list, put on the free list and merged
  with its free neighbours without disturbing another region.\<close>

theorem free_contract:
  assumes "pool_reach mal mp" "malloc_ok mal" "(p, n) \<in> live mp"
  shows "\<exists>mp'. MemoryPoolFree mp p = Some (Inr (0, mp')) \<and> pool_reach mal mp' \<and>
     live mp' = live mp - {(p, n)}"
proof -
  obtain mp' where f: "MemoryPoolFree mp p = Some (Inr (0, mp'))" "live mp' = live mp - {(p, n)}"
    using MemoryPoolFree_ok[OF pool_reach_ok[OF assms(1,2)] assms(3)] by blast
  have "p \<in> fst ` live mp" using assms(3) by force
  with pool_reach.free[OF assms(1) this f(1)] f show ?thesis by blast
qed

theorem free_contract_witness:
  "\<exists>n mp'. (4192, n) \<in> live demo_pool1 \<and> MemoryPoolFree demo_pool1 4192 = Some (Inr (0, mp')) \<and>
     live mp' = live demo_pool1 - {(4192, n)}"
  using free_contract[OF demo1_reach bump_malloc_ok] demo1_live by blast

text \<open>C26: No fragmentation survives: once every region of a reachable pool has been given back,
  whatever the order of the releases, any request whose rounded size fits in a block succeeds.\<close>

theorem no_fragmentation:
  assumes "pool_reach mal mp" "malloc_ok mal" "live mp = {}" "0 < want" "want < 18446744073709551568"
    and "total_needed_size want \<le> mem_pool_size mp"
  shows "\<exists>q mp'. MemoryPoolAlloc mal mp want = Some (Inr (q, mp')) \<and> q \<noteq> 0"
proof -
  have lk: "\<not> mp_lock mp" "pool_core (mp\<lparr>mp_lock := True\<rparr>)" "live (mp\<lparr>mp_lock := True\<rparr>) = {}"
    using pool_reach_ok[OF assms(1,2)] assms(3) by (auto simp: pool_ok_def)
  from empty_pool_serves[OF lk(2,3), of "total_needed_size want" mal]
    needed_size_bounds[OF assms(4,5)] assms(6,4)
  obtain q mp' where "alloc_loop mal (mp\<lparr>mp_lock := True\<rparr>) (total_needed_size want) = Some (Inr (q, mp'))"
    "q \<noteq> 0" by auto
  then show ?thesis using assms(4,6) lk(1) by (simp add: MemoryPoolAlloc_def MP_LOCK_def)
qed

theorem no_fragmentation_witness:
  "\<exists>q mp'. MemoryPoolAlloc bump_malloc demo_pool 950 = Some (Inr (q, mp')) \<and> q \<noteq> 0"
  by (rule no_fragmentation[OF demo_reach bump_malloc_ok demo_live])
    (simp_all add: pool_eval demo_pool_def)

text \<open>C27: In every reachable pool \<open>GetUsedMemory\<close> is the sum of the live regions' sizes with 40
  bytes of header and end each, without wrap-around, and is at most \<open>GetTotalMemory\<close>.\<close>

theorem used_memory:
  assumes "pool_reach mal mp" "malloc_ok mal"
  shows "GetUsedMemory mp = Inr (\<Sum>(p, n)\<in>live mp. n + 40) \<and>
     (\<Sum>(p, n)\<in>live mp. n + 40) \<le> GetTotalMemory mp"
proof -
  have ok: "\<not> mp_lock mp" "pool_core mp" using pool_reach_ok[OF assms] by (auto simp: pool_ok_def)
  have s: "(\<Sum>(p, n)\<in>live mp. n + 40) = (\<Sum>mm\<leftarrow>mlist mp. m_alloc_mem mm)"
    using live_sum(2)[OF ok(2)] by (simp add: case_prod_unfold)
  note b = used_bounds[OF ok(2)]
  have "total_mem_pool_size mp < 18446744073709551616" using pool_core_sizes[OF ok(2)] by simp
  with b have "u64 (\<Sum>mm\<leftarrow>mlist mp. m_alloc_mem mm) = (\<Sum>mm\<leftarrow>mlist mp. m_alloc_mem mm)"
    by (intro u64_id) auto
  then show ?thesis unfolding s using ok(1) b(2)
    by (simp add: GetUsedMemory_def GetTotalMemory_def MP_LOCK_def)
qed

theorem used_memory_witness:
  "GetUsedMemory demo_pool1 = Inr (\<Sum>(p, n)\<in>live demo_pool1. n + 40) \<and>
     (\<Sum>(p, n)\<in>live demo_pool1. n + 40) \<le> GetTotalMemory demo_pool1"
  by (rule used_memory[OF demo1_reach bump_malloc_ok])

text \<open>C28: When \<open>max_mem_pool_size\<close> is a multiple of \<open>mem_pool_size\<close>, as in the gateway's
  configuration, a reachable pool never owns more than \<open>max_mem_pool_size\<close> bytes.\<close>

theorem pool_limit:
  assumes "pool_reach mal mp" "malloc_ok mal" "mem_pool_size mp dvd max_mem_pool_size mp"
  shows "GetTotalMemory mp \<le> max_mem_pool_size mp"
proof -
  note sz = pool_core_sizes[OF pool_reach_ok[OF assms(1,2), unfolded pool_ok_def, THEN conjunct2]]
  obtain k where k: "max_mem_pool_size mp = mem_pool_size mp * k" using assms(3) by (auto simp: dvd_def)
  have "mem_pool_size mp * int (length (mlist mp)) < mem_pool_size mp * (k + 1)"
    using sz(5,9) k by (simp add: algebra_simps)
  then have "int (length (mlist mp)) \<le> k" using sz(1) by simp
  then have "mem_pool_size mp * int (length (mlist mp)) \<le> mem_pool_size mp * k"
    using sz(1) by (intro mult_left_mono) auto
  then show ?thesis using sz(5) k by (simp add: GetTotalMemory_def mult.commute)
qed

theorem pool_limit_witness: "GetTotalMemory demo_pool1 \<le> max_mem_pool_size demo_pool1"
  by (rule pool_limit[OF demo1_reach bump_malloc_ok])
    (simp add: demo_pool1_def demo_pool_def pool_eval)

text \<open>The limit is not kept otherwise: with blocks of 100 bytes and a limit of 250, three
  requests of 50 bytes make the pool own 300 bytes. The code compares \<open>max_mem_pool_size\<close> with
  the size of one block where the bytes still available are meant.\<close>

lemma pool_limit_overshoot:
  "\<exists>mp mp1 mp2 mp3 p1 p2 p3. MemoryPoolInit 0 8 4096 250 100 = Some mp \<and>
     MemoryPoolAlloc bump_malloc mp 50 = Some (Inr (p1, mp1)) \<and>
     MemoryPoolAlloc bump_malloc mp1 50 = Some (Inr (p2, mp2)) \<and>
     MemoryPoolAlloc bump_malloc mp2 50 = Some (Inr (p3, mp3)) \<and>
     max_mem_pool_size mp3 = 250 \<and> GetTotalMemory mp3 = 300"
  by (simp add: pool_eval bump_malloc_def GetTotalMemory_def)

text \<open>The rounded size wraps for sizes near 2^64: a request of 2^64 - 40 bytes counts as one
  of 8 bytes, and a pool of 1000 bytes answers it with a non-null pointer.\<close>

lemma alloc_size_wraps:
  "total_needed_size 18446744073709551576 = 8 \<and>
   (\<exists>mp. MemoryPoolAlloc bump_malloc demo_pool 18446744073709551576 = Some (Inr (4192, mp)))"
  by (simp add: pool_eval demo_pool_def)

end
