(* ===== verification/Black_List.thy ===== *)
theory Black_List
  imports Structures
begin

text \<open>
  The shared memory segment \<open>Hhei_Ming_Dan\<close> (\<^verbatim>\<open>include/structure.h\<close>): the black list of client
  addresses, 1000 rows of 20 bytes, and the \<open>accept_flag\<close> by which the main process hands one
  waiting client at a time to a worker. The two locks are taken and released within each
  operation, so they are a field that is free between operations; the writer of the black list
  (\<open>PassiveDetect\<close>) takes none, which is noted there.
\<close>

section \<open>State\<close>

record Hhei_Ming_Dan =
  hmd_count :: int
  hmd_buffer :: string
  accept_flag :: bool

definition init_shm :: Hhei_Ming_Dan where
  "init_shm = \<lparr>hmd_count = 0, hmd_buffer = replicate HEI_MING_DAN_BUFFER_SIZE NUL, accept_flag = True\<rparr>"

section \<open>Operations\<close>

text \<open>\<open>strcmp(&buffer[i * 20], ip) == 0\<close> for \<open>i\<close> from 0 to \<open>count - 1\<close>.\<close>

fun scan_rows :: "string \<Rightarrow> string \<Rightarrow> nat \<Rightarrow> nat \<Rightarrow> bool" where
  "scan_rows buf ip i 0 = False"
| "scan_rows buf ip i (Suc k) = (if cstr (drop (i * 20) buf) = ip then True else scan_rows buf ip (Suc i) k)"

text \<open>\<open>verify_client_ip\<close>: true means that the client is on the list. \<open>char ip[20]\<close> must hold the string.\<close>

definition verify_client_ip :: "Hhei_Ming_Dan \<Rightarrow> string \<Rightarrow> bool res" where
  "verify_client_ip h client_ip =
     bindE (strcpy_at (replicate 20 NUL) 0 client_ip) (\<lambda>ip.
     Inr (scan_rows (hmd_buffer h) (cstr ip) 0 (nat (hmd_count h))))"

text \<open>The branch of \<open>PassiveDetect\<close> for a message of type 2.\<close>

definition add_black :: "string \<Rightarrow> Hhei_Ming_Dan \<Rightarrow> Hhei_Ming_Dan res" where
  "add_black ip h =
     (if hmd_count h = 1000 then Inr h
      else bindE (strcpy_at (hmd_buffer h) (nat (20 * hmd_count h)) ip) (\<lambda>b.
           Inr (h\<lparr>hmd_buffer := b, hmd_count := hmd_count h + 1\<rparr>)))"

definition empty_heimingdan_cb :: "Hhei_Ming_Dan \<Rightarrow> Hhei_Ming_Dan" where
  "empty_heimingdan_cb h = h\<lparr>hmd_buffer := replicate HEI_MING_DAN_BUFFER_SIZE NUL, hmd_count := 0\<rparr>"

section \<open>Abstraction: the rows in use\<close>

definition row :: "string \<Rightarrow> nat \<Rightarrow> string" where
  "row buf i = cstr (drop (i * 20) buf)"

definition black_rows :: "Hhei_Ming_Dan \<Rightarrow> string list" where
  "black_rows h = map (row (hmd_buffer h)) [0..<nat (hmd_count h)]"

definition black_ok :: "Hhei_Ming_Dan \<Rightarrow> bool" where
  "black_ok h \<longleftrightarrow> length (hmd_buffer h) = 20000 \<and> 0 \<le> hmd_count h \<and> hmd_count h \<le> 1000 \<and>
     (\<forall>s\<in>set (black_rows h). length s < 20)"

lemma scan_rows: "scan_rows buf ip i k \<longleftrightarrow> (\<exists>j. i \<le> j \<and> j < i + k \<and> row buf j = ip)"
proof (induction k arbitrary: i)
  case 0
  then show ?case by simp
next
  case (Suc k)
  have "(\<exists>j. i \<le> j \<and> j < i + Suc k \<and> row buf j = ip) \<longleftrightarrow>
      row buf i = ip \<or> (\<exists>j. Suc i \<le> j \<and> j < Suc i + k \<and> row buf j = ip)"
    by (metis Suc_leD Suc_le_eq add_Suc add_Suc_right le_add1 le_neq_implies_less le_refl less_add_Suc1)
  then show ?case by (simp add: Suc.IH row_def)
qed

lemma verify_client_ip_iff:
  assumes "NUL \<notin> set ip" "length ip < 20"
  shows "verify_client_ip h ip = Inr (ip \<in> set (black_rows h))"
  using assms by (auto simp: verify_client_ip_def strcpy_at_def scan_rows black_rows_def)

lemma cstr_take: "length (cstr s) < n \<Longrightarrow> cstr (take n s) = cstr s"
  unfolding cstr_def
proof (induction s arbitrary: n)
  case (Cons a s)
  then show ?case by (cases n) auto
qed simp

lemma cstr_eq_take:
  assumes "take n s = take n t" "length (cstr s) < n" "n \<le> length s"
  shows "cstr t = cstr s"
proof -
  have "\<exists>c\<in>set (take n s). c = NUL"
  proof (rule ccontr)
    assume "\<not> ?thesis"
    then have "takeWhile (\<lambda>c. c \<noteq> NUL) (take n s @ drop n s) = take n s @ takeWhile (\<lambda>c. c \<noteq> NUL) (drop n s)"
      by (intro takeWhile_append2) auto
    then have "n \<le> length (cstr s)" using assms(3) by (simp add: cstr_def)
    then show False using assms(2) by simp
  qed
  then obtain x where x: "x \<in> set (take n s)" "x = NUL" by auto
  have "cstr u = cstr (take n u)" if "x \<in> set (take n u)" for u
    using takeWhile_append1[OF that, of "\<lambda>c. c \<noteq> NUL" "drop n u"] x(2) by (simp add: cstr_def)
  from this[of s] this[of t] show ?thesis using assms(1) x(1) by simp
qed

lemma take_drop_append: "m + n \<le> length xs \<Longrightarrow> take n (drop m (xs @ ys)) = take n (drop m xs)"
  by simp

text \<open>Writing a short string into the first unused row leaves the rows before it alone.\<close>

lemma add_black_rows:
  assumes ok: "black_ok h" and ip: "NUL \<notin> set ip" "length ip < 20" and room: "hmd_count h < 1000"
  shows "\<exists>h'. add_black ip h = Inr h' \<and> black_ok h' \<and> black_rows h' = black_rows h @ [ip] \<and>
    accept_flag h' = accept_flag h"
proof -
  define k where "k = nat (hmd_count h)"
  have k: "k < 1000" "nat (20 * hmd_count h) = 20 * k" "int k = hmd_count h"
    using ok room by (auto simp: black_ok_def k_def)
  let ?b = "hmd_buffer h"
  have len: "length ?b = 20000" using ok by (simp add: black_ok_def)
  define b where "b = take (20 * k) ?b @ ip @ [NUL] @ drop (20 * k + length ip + 1) ?b"
  have s: "strcpy_at ?b (20 * k) ip = Inr b" using k(1) ip(2) len by (simp add: strcpy_at_def b_def)
  define h' where "h' = h\<lparr>hmd_buffer := b, hmd_count := hmd_count h + 1\<rparr>"
  have a: "add_black ip h = Inr h'" using s k(2) room by (simp add: add_black_def h'_def)
  have lb: "length b = 20000" using length_strcpy_at[OF s] len by simp
  have new: "row b k = ip"
    using ip(1) k(1) len by (simp add: row_def b_def mult.commute)
  have old: "row b i = row ?b i" if i: "i < k" for i
  proof -
    have short: "length (cstr (drop (i * 20) ?b)) < 20"
      using ok i k by (auto simp: black_ok_def black_rows_def row_def k_def)
    have "i * 20 + 20 \<le> length ?b" using i k(1) len by linarith
    then have "20 \<le> length (drop (i * 20) ?b)" by simp
    moreover have "take 20 (drop (i * 20) ?b) = take 20 (drop (i * 20) b)"
    proof -
      have "20 * k \<le> length ?b" using k(1) len by simp
      then have "length (take (20 * k) ?b) = 20 * k" by simp
      then have le: "i * 20 + 20 \<le> length (take (20 * k) ?b)" using i by linarith
      have "take 20 (drop (i * 20) ?b) = take 20 (drop (i * 20) (take (20 * k) ?b @ drop (20 * k) ?b))"
        by (simp only: append_take_drop_id)
      also have "\<dots> = take 20 (drop (i * 20) (take (20 * k) ?b))" by (rule take_drop_append[OF le])
      also have "\<dots> = take 20 (drop (i * 20) b)" unfolding b_def by (rule take_drop_append[OF le, symmetric])
      finally show ?thesis .
    qed
    ultimately show ?thesis unfolding row_def using short by (intro cstr_eq_take)
  qed
  have cnt: "nat (hmd_count h + 1) = Suc k" using k by simp
  have rows: "black_rows h' = black_rows h @ [ip]"
    using old new cnt by (simp add: black_rows_def h'_def k_def[symmetric])
  moreover have "black_ok h'"
    using ok ip lb rows room by (auto simp: black_ok_def h'_def)
  ultimately show ?thesis using a by (simp add: h'_def)
qed

lemma add_black_full: "hmd_count h = 1000 \<Longrightarrow> add_black ip h = Inr h"
  by (simp add: add_black_def)

lemma init_shm_ok: "black_ok init_shm" "black_rows init_shm = []"
  by (simp_all add: black_ok_def black_rows_def init_shm_def HEI_MING_DAN_BUFFER_SIZE_def)

lemma empty_black_ok: "black_ok (empty_heimingdan_cb h)" "black_rows (empty_heimingdan_cb h) = []"
  by (simp_all add: black_ok_def black_rows_def empty_heimingdan_cb_def HEI_MING_DAN_BUFFER_SIZE_def)

end
