(* ===== verification/Server_Registry.thy ===== *)
theory Server_Registry
  imports Structures Black_List
begin

text \<open>
  \<^verbatim>\<open>src/proxy/server_monitor.cc\<close>: the file \<open>server_list.json\<close> with the servers that are up and
  down, the operations on it, the notifications sent to the workers over their pipes, and the
  two health checks (\<open>ActiveDetect\<close>, \<open>PassiveDetect\<close>).

  JSON is a library (jsoncpp): reading and writing the file are the two fields of a \<open>codec\<close>,
  over an arbitrary type of file contents. A read that fails to parse is \<^term>\<open>None\<close>; that what
  was written is read back is the hypothesis \<open>codec_ok\<close>. A server is its address and port.
\<close>

section \<open>State\<close>

type_synonym server = "string \<times> int"

record 'f codec =
  rd :: "'f \<Rightarrow> (server list \<times> server list) option"
  wr :: "server list \<times> server list \<Rightarrow> 'f"

definition codec_ok :: "'f codec \<Rightarrow> bool" where
  "codec_ok cd \<longleftrightarrow> (\<forall>ls. rd cd (wr cd ls) = Some ls)"

text \<open>
  \<open>reg_file\<close> is \<^term>\<open>None\<close> when the file does not exist, \<open>reg_writable\<close> says whether it can be
  opened for writing; \<open>pipes\<close> are the bytes sent on \<open>m_sub_process[i].m_piped[0]\<close> and not yet
  received by worker \<open>i\<close>.
\<close>

record 'f monitor =
  reg_file :: "'f option"
  reg_writable :: bool
  pipes :: "string list"

section \<open>The server list file\<close>

text \<open>
  \<open>LoadServerList\<close> returns its status and the two output arguments, which keep the values they
  had when the file does not parse.
\<close>

definition LoadServerList ::
    "'f codec \<Rightarrow> 'f monitor \<Rightarrow> server list \<times> server list \<Rightarrow> int \<times> server list \<times> server list" where
  "LoadServerList cd s old =
     (case reg_file s of
        None \<Rightarrow> (-1, old)
      | Some f \<Rightarrow> (case rd cd f of None \<Rightarrow> (0, old) | Some ls \<Rightarrow> (0, ls)))"

definition UpdateServerList ::
    "'f codec \<Rightarrow> server list \<times> server list \<Rightarrow> 'f monitor \<Rightarrow> int \<times> 'f monitor" where
  "UpdateServerList cd ls s =
     (if \<not> reg_writable s then (-1, s) else (0, s\<lparr>reg_file := Some (wr cd ls)\<rparr>))"

section \<open>Notifying the workers\<close>

text \<open>
  The command, the length of the address and the address, to every worker. The constructor of
  \<open>server_add\<close> zeroes the arrays; \<open>strcpy\<close> needs room for the string in the 20 bytes.
\<close>

definition command_bytes :: "int \<Rightarrow> address \<Rightarrow> string" where
  "command_bytes message a = enc_int message @ enc_int (int SIZEOF_ADDRESS) @ enc_address a"

definition server_address :: "string \<Rightarrow> int \<Rightarrow> address res" where
  "server_address ip port = set_ip ip ((new_address 0)\<lparr>addr_port := port\<rparr>)"

definition notify_workers :: "int \<Rightarrow> string \<Rightarrow> int \<Rightarrow> 'f monitor \<Rightarrow> 'f monitor res" where
  "notify_workers message ip port s =
     bindE (server_address ip port) (\<lambda>a.
     Inr (s\<lparr>pipes := map (\<lambda>p. p @ command_bytes message a) (pipes s)\<rparr>))"

section \<open>Changes of the server list\<close>

text \<open>Each operation returns its status, 0 or -1, and the new state.\<close>

definition SetServerDown :: "'f codec \<Rightarrow> string \<Rightarrow> int \<Rightarrow> 'f monitor \<Rightarrow> (int \<times> 'f monitor) res" where
  "SetServerDown cd ip port s =
     (let (ret, up, down) = LoadServerList cd s ([], []) in
      if ret \<noteq> 0 then Inr (-1, s)
      else
        let set_flag = ((ip, port) \<in> set up);
            up_new = filter (\<lambda>e. e \<noteq> (ip, port)) up in
        if \<not> set_flag then Inr (-1, s)
        else let (ret, s) = UpdateServerList cd (up_new, down @ [(ip, port)]) s in
          if ret \<noteq> 0 then Inr (-1, s)
          else bindE (notify_workers 3 ip port s) (\<lambda>s. Inr (0, s)))"

definition SetServerUp :: "'f codec \<Rightarrow> string \<Rightarrow> int \<Rightarrow> 'f monitor \<Rightarrow> (int \<times> 'f monitor) res" where
  "SetServerUp cd ip port s =
     (let (ret, up, down) = LoadServerList cd s ([], []) in
      if ret \<noteq> 0 then Inr (-1, s)
      else
        let set_flag = ((ip, port) \<in> set down);
            down_new = filter (\<lambda>e. e \<noteq> (ip, port)) down in
        if \<not> set_flag then Inr (-1, s)
        else let (ret, s) = UpdateServerList cd (up @ [(ip, port)], down_new) s in
          if ret \<noteq> 0 then Inr (-1, s)
          else bindE (notify_workers 2 ip port s) (\<lambda>s. Inr (0, s)))"

definition LoginServer :: "'f codec \<Rightarrow> string \<Rightarrow> int \<Rightarrow> 'f monitor \<Rightarrow> int \<times> 'f monitor" where
  "LoginServer cd ip port s =
     (let (ret, up, down) = LoadServerList cd s ([], []) in
      if ret \<noteq> 0 then (-1, s)
      else
        let login_flag = ((ip, port) \<notin> set up \<and> (ip, port) \<notin> set down) in
        if \<not> login_flag then (-1, s)
        else let (ret, s) = UpdateServerList cd (up @ [(ip, port)], down) s in
          if ret \<noteq> 0 then (-1, s) else (0, s))"

definition LogoutServer :: "'f codec \<Rightarrow> string \<Rightarrow> int \<Rightarrow> 'f monitor \<Rightarrow> int \<times> 'f monitor" where
  "LogoutServer cd ip port s =
     (let (ret, up, down) = LoadServerList cd s ([], []) in
      if ret \<noteq> 0 then (-1, s)
      else
        let logout_flag = ((ip, port) \<notin> set up \<and> (ip, port) \<notin> set down);
            up_new = filter (\<lambda>e. e \<noteq> (ip, port)) up;
            down_new = filter (\<lambda>e. e \<noteq> (ip, port)) down in
        if logout_flag then (-1, s)
        else let (ret, s) = UpdateServerList cd (up_new, down_new) s in
          if ret \<noteq> 0 then (-1, s) else (0, s))"

section \<open>The active health check\<close>

text \<open>
  The locals of the thread \<open>ActiveDetect\<close>. \<open>reach\<close> tells which servers accept a connection
  during a round. \<open>fail_num\<close> is resized to the list loaded and filled with 0; a successful
  connection does not reset an entry.
\<close>

record active =
  a_up :: "server list"
  a_down :: "server list"
  reload_flag :: bool
  fail_num :: "int list"

definition start_active :: active where
  "start_active = \<lparr>a_up = [], a_down = [], reload_flag = True, fail_num = []\<rparr>"

text \<open>\<open>char ip[20]; strcpy(ip, ...)\<close>\<close>

definition fits_ip :: "string \<Rightarrow> unit res" where
  "fits_ip ip = bindE (strcpy_at (replicate 20 NUL) 0 ip) (\<lambda>_. Inr ())"

text \<open>The loop over the servers that are up; it stops when one is marked down.\<close>

fun detect_up :: "'f codec \<Rightarrow> int \<Rightarrow> (server \<Rightarrow> bool) \<Rightarrow> nat \<Rightarrow> server list \<Rightarrow>
    active \<times> 'f monitor \<Rightarrow> (active \<times> 'f monitor) res" where
  "detect_up cd maxfails reach server_id [] (a, s) = Inr (a, s)"
| "detect_up cd maxfails reach server_id ((ip, port) # es) (a, s) =
     bindE (fits_ip ip) (\<lambda>_.
     if reach (ip, port) then detect_up cd maxfails reach (Suc server_id) es (a, s)
     else if \<not> server_id < length (fail_num a) then Inl Out_Of_Bounds
     else let n = fail_num a ! server_id + 1; a = a\<lparr>fail_num := (fail_num a)[server_id := n]\<rparr> in
       if maxfails \<le> n then
         bindE (SetServerDown cd ip port s) (\<lambda>(ret, s). Inr (a\<lparr>reload_flag := True\<rparr>, s))
       else detect_up cd maxfails reach (Suc server_id) es (a, s))"

text \<open>
  The loop over the servers that are down; it stops when one is reached. The boolean tells
  whether the thread goes on (\<open>pthread_exit\<close> otherwise).
\<close>

fun detect_down :: "'f codec \<Rightarrow> (server \<Rightarrow> bool) \<Rightarrow> server list \<Rightarrow>
    active \<times> 'f monitor \<Rightarrow> (bool \<times> active \<times> 'f monitor) res" where
  "detect_down cd reach [] (a, s) = Inr (True, a, s)"
| "detect_down cd reach ((ip, port) # es) (a, s) =
     bindE (fits_ip ip) (\<lambda>_.
     if reach (ip, port) then
       bindE (SetServerUp cd ip port s) (\<lambda>(ret, s).
       if ret = -1 then Inr (False, a, s) else Inr (True, a\<lparr>reload_flag := True\<rparr>, s))
     else detect_down cd reach es (a, s))"

definition reload :: "'f codec \<Rightarrow> 'f monitor \<Rightarrow> active \<Rightarrow> active option" where
  "reload cd s a =
     (if reload_flag a then
        let (ret, up, down) = LoadServerList cd s (a_up a, a_down a) in
        if ret \<noteq> 0 then None
        else Some \<lparr>a_up = up, a_down = down, reload_flag = False, fail_num = replicate (length up) 0\<rparr>
      else Some a)"

text \<open>One round of \<open>while (ServerMonitor::m_running)\<close>.\<close>

definition active_round :: "'f codec \<Rightarrow> int \<Rightarrow> (server \<Rightarrow> bool) \<Rightarrow>
    active \<times> 'f monitor \<Rightarrow> (bool \<times> active \<times> 'f monitor) res" where
  "active_round cd maxfails reach st =
     (let (a, s) = st in
      case reload cd s a of
        None \<Rightarrow> Inr (False, a, s)
      | Some a \<Rightarrow>
          bindE (detect_up cd maxfails reach 0 (a_up a) (a, s)) (\<lambda>(a, s).
          detect_down cd reach (a_down a) (a, s)))"

text \<open>The thread until \<open>m_running\<close> is cleared after the given rounds, or until it exits by itself.\<close>

fun ActiveDetect :: "'f codec \<Rightarrow> int \<Rightarrow> (server \<Rightarrow> bool) list \<Rightarrow>
    active \<times> 'f monitor \<Rightarrow> (active \<times> 'f monitor) res" where
  "ActiveDetect cd maxfails [] st = Inr st"
| "ActiveDetect cd maxfails (reach # rs) st =
     bindE (active_round cd maxfails reach st) (\<lambda>(go, st).
     if go then ActiveDetect cd maxfails rs st else Inr st)"

section \<open>The passive health check\<close>

text \<open>
  One message received from the workers. \<open>reach\<close> as above. The reconnect branch sends the command
  2 alone, without the address, to the worker that reported the failure.
\<close>

definition passive_message :: "'f codec \<Rightarrow> (server \<Rightarrow> bool) \<Rightarrow> message \<Rightarrow>
    'f monitor \<times> Hhei_Ming_Dan \<Rightarrow> ('f monitor \<times> Hhei_Ming_Dan) res" where
  "passive_message cd reach msg st =
     (let (s, h) = st in
      if msg_type msg = 1 then
        if \<not> reach (msg_ip msg, msg_port msg) then
          bindE (SetServerDown cd (msg_ip msg) (msg_port msg) s) (\<lambda>(ret, s). Inr (s, h))
        else
          bindE (server_address (msg_ip msg) (msg_port msg)) (\<lambda>_.
          let i = process_id msg in
          if i < 0 \<or> int (length (pipes s)) \<le> i then Inl Out_Of_Bounds
          else Inr (s\<lparr>pipes := (pipes s)[nat i := pipes s ! nat i @ enc_int 2]\<rparr>, h))
      else if msg_type msg = 2 then
        bindE (add_black (msg_ip msg) h) (\<lambda>h. Inr (s, h))
      else Inr (s, h))"

definition PassiveDetect :: "'f codec \<Rightarrow> ((server \<Rightarrow> bool) \<times> message) list \<Rightarrow>
    'f monitor \<times> Hhei_Ming_Dan \<Rightarrow> ('f monitor \<times> Hhei_Ming_Dan) res" where
  "PassiveDetect cd msgs = foldE (\<lambda>(reach, msg). passive_message cd reach msg) msgs"

section \<open>Status of a server\<close>

text \<open>
  The abstract view of the file: the status of every server. The operations of the file are
  guarded updates of it.
\<close>

datatype status = Up | Down

definition lists_of :: "'f codec \<Rightarrow> 'f monitor \<Rightarrow> server list \<times> server list" where
  "lists_of cd s = snd (LoadServerList cd s ([], []))"

definition status_of :: "server list \<times> server list \<Rightarrow> server \<Rightarrow> status option" where
  "status_of ls e = (if e \<in> set (fst ls) then Some Up else if e \<in> set (snd ls) then Some Down else None)"

definition registry :: "'f codec \<Rightarrow> 'f monitor \<Rightarrow> server \<Rightarrow> status option" where
  "registry cd s = status_of (lists_of cd s)"

text \<open>The file is there, can be written, and lists no server twice.\<close>

definition registry_ok :: "'f codec \<Rightarrow> 'f monitor \<Rightarrow> bool" where
  "registry_ok cd s \<longleftrightarrow> codec_ok cd \<and> reg_file s \<noteq> None \<and> reg_writable s \<and>
     distinct (fst (lists_of cd s)) \<and> distinct (snd (lists_of cd s)) \<and>
     set (fst (lists_of cd s)) \<inter> set (snd (lists_of cd s)) = {}"

lemma load_ok: "reg_file s \<noteq> None \<Longrightarrow> LoadServerList cd s ([], []) = (0, lists_of cd s)"
  by (auto simp: LoadServerList_def lists_of_def split: option.splits)

lemma lists_of_update:
  "codec_ok cd \<Longrightarrow> lists_of cd (s\<lparr>reg_file := Some (wr cd ls)\<rparr>) = ls"
  by (cases ls) (simp add: lists_of_def LoadServerList_def codec_ok_def)

lemma lists_of_pipes [simp]: "lists_of cd (s\<lparr>pipes := ps\<rparr>) = lists_of cd s"
  by (simp add: lists_of_def LoadServerList_def)

lemma notify_workers_ok:
  assumes "length ip < 20"
  shows "\<exists>a. server_address ip port = Inr a \<and>
     notify_workers m ip port s = Inr (s\<lparr>pipes := map (\<lambda>p. p @ command_bytes m a) (pipes s)\<rparr>)"
  using assms by (auto simp: notify_workers_def server_address_def set_ip_def strcpy_at_def new_address_def)

section \<open>The operations as updates of the status\<close>

lemma registry_Up: "registry cd s e = Some Up \<longleftrightarrow> e \<in> set (fst (lists_of cd s))"
  by (simp add: registry_def status_of_def)

lemma registry_Down: "registry_ok cd s \<Longrightarrow> registry cd s e = Some Down \<longleftrightarrow> e \<in> set (snd (lists_of cd s))"
  by (auto simp: registry_def status_of_def registry_ok_def)

lemma registry_None: "registry cd s e = None \<longleftrightarrow>
    e \<notin> set (fst (lists_of cd s)) \<and> e \<notin> set (snd (lists_of cd s))"
  by (simp add: registry_def status_of_def)

lemma SetServerDown_ok:
  assumes ok: "registry_ok cd s" and ip: "length ip < 20"
  shows "if registry cd s (ip, port) = Some Up then
       \<exists>s' a. SetServerDown cd ip port s = Inr (0, s') \<and> registry_ok cd s' \<and>
         registry cd s' = (registry cd s)((ip, port) \<mapsto> Down) \<and> server_address ip port = Inr a \<and>
         lists_of cd s' = (filter (\<lambda>e. e \<noteq> (ip, port)) (fst (lists_of cd s)), snd (lists_of cd s) @ [(ip, port)]) \<and>
         pipes s' = map (\<lambda>p. p @ command_bytes 3 a) (pipes s)
     else SetServerDown cd ip port s = Inr (-1, s)"
proof -
  obtain up down where l: "lists_of cd s = (up, down)" by (cases "lists_of cd s")
  have r: "codec_ok cd" "reg_file s \<noteq> None" "reg_writable s" "distinct up" "distinct down"
    "set up \<inter> set down = {}" using ok by (auto simp: registry_ok_def l)
  note ld = load_ok[OF r(2), of cd, unfolded l]
  let ?ls = "(filter (\<lambda>e. e \<noteq> (ip, port)) up, down @ [(ip, port)])"
  show ?thesis
  proof (cases "(ip, port) \<in> set up")
    case True
    obtain a where a: "server_address ip port = Inr a"
      "notify_workers 3 ip port (s\<lparr>reg_file := Some (wr cd ?ls)\<rparr>) =
        Inr (s\<lparr>reg_file := Some (wr cd ?ls), pipes := map (\<lambda>p. p @ command_bytes 3 a) (pipes s)\<rparr>)"
      using notify_workers_ok[OF ip, of port 3 "s\<lparr>reg_file := Some (wr cd ?ls)\<rparr>"] by auto
    let ?s = "s\<lparr>reg_file := Some (wr cd ?ls), pipes := map (\<lambda>p. p @ command_bytes 3 a) (pipes s)\<rparr>"
    have ls': "lists_of cd (s\<lparr>reg_file := Some (wr cd ?ls)\<rparr>) = ?ls" by (rule lists_of_update[OF r(1)])
    have "SetServerDown cd ip port s = Inr (0, ?s)"
      using True a r(3) by (simp add: SetServerDown_def ld UpdateServerList_def)
    moreover have "registry_ok cd ?s" using r True by (auto simp: registry_ok_def ls')
    moreover have "registry cd ?s = (registry cd s)((ip, port) \<mapsto> Down)"
      by (rule ext) (auto simp: registry_def ls' l status_of_def)
    ultimately show ?thesis using a(1) True l ls' by (auto simp: registry_Up)
  next
    case False
    then show ?thesis by (simp add: registry_Up l SetServerDown_def ld)
  qed
qed

lemma SetServerUp_ok:
  assumes ok: "registry_ok cd s" and ip: "length ip < 20"
  shows "if registry cd s (ip, port) = Some Down then
       \<exists>s' a. SetServerUp cd ip port s = Inr (0, s') \<and> registry_ok cd s' \<and>
         registry cd s' = (registry cd s)((ip, port) \<mapsto> Up) \<and> server_address ip port = Inr a \<and>
         lists_of cd s' = (fst (lists_of cd s) @ [(ip, port)], filter (\<lambda>e. e \<noteq> (ip, port)) (snd (lists_of cd s))) \<and>
         pipes s' = map (\<lambda>p. p @ command_bytes 2 a) (pipes s)
     else SetServerUp cd ip port s = Inr (-1, s)"
proof -
  obtain up down where l: "lists_of cd s = (up, down)" by (cases "lists_of cd s")
  have r: "codec_ok cd" "reg_file s \<noteq> None" "reg_writable s" "distinct up" "distinct down"
    "set up \<inter> set down = {}" using ok by (auto simp: registry_ok_def l)
  note ld = load_ok[OF r(2), of cd, unfolded l]
  let ?ls = "(up @ [(ip, port)], filter (\<lambda>e. e \<noteq> (ip, port)) down)"
  show ?thesis
  proof (cases "(ip, port) \<in> set down")
    case True
    obtain a where a: "server_address ip port = Inr a"
      "notify_workers 2 ip port (s\<lparr>reg_file := Some (wr cd ?ls)\<rparr>) =
        Inr (s\<lparr>reg_file := Some (wr cd ?ls), pipes := map (\<lambda>p. p @ command_bytes 2 a) (pipes s)\<rparr>)"
      using notify_workers_ok[OF ip, of port 2 "s\<lparr>reg_file := Some (wr cd ?ls)\<rparr>"] by auto
    let ?s = "s\<lparr>reg_file := Some (wr cd ?ls), pipes := map (\<lambda>p. p @ command_bytes 2 a) (pipes s)\<rparr>"
    have ls': "lists_of cd (s\<lparr>reg_file := Some (wr cd ?ls)\<rparr>) = ?ls" by (rule lists_of_update[OF r(1)])
    have "SetServerUp cd ip port s = Inr (0, ?s)"
      using True a r(3) by (simp add: SetServerUp_def ld UpdateServerList_def)
    moreover have "registry_ok cd ?s" using r True by (auto simp: registry_ok_def ls')
    moreover have "registry cd ?s = (registry cd s)((ip, port) \<mapsto> Up)"
      by (rule ext) (auto simp: registry_def ls' l status_of_def)
    ultimately show ?thesis using a(1) True l ls' ok by (auto simp: registry_Down)
  next
    case False
    then show ?thesis using ok by (simp add: registry_Down l SetServerUp_def ld)
  qed
qed

lemma LoginServer_ok:
  assumes ok: "registry_ok cd s"
  shows "if registry cd s (ip, port) = None then
       \<exists>s'. LoginServer cd ip port s = (0, s') \<and> registry_ok cd s' \<and>
         registry cd s' = (registry cd s)((ip, port) \<mapsto> Up) \<and> pipes s' = pipes s
     else LoginServer cd ip port s = (-1, s)"
proof -
  obtain up down where l: "lists_of cd s = (up, down)" by (cases "lists_of cd s")
  have r: "codec_ok cd" "reg_file s \<noteq> None" "reg_writable s" "distinct up" "distinct down"
    "set up \<inter> set down = {}" using ok by (auto simp: registry_ok_def l)
  note ld = load_ok[OF r(2), of cd, unfolded l]
  let ?s = "s\<lparr>reg_file := Some (wr cd (up @ [(ip, port)], down))\<rparr>"
  note ls' = lists_of_update[OF r(1), of "(up @ [(ip, port)], down)" s]
  show ?thesis
  proof (cases "(ip, port) \<in> set up \<or> (ip, port) \<in> set down")
    case True
    then show ?thesis by (auto simp: registry_None l LoginServer_def ld)
  next
    case False
    then have "LoginServer cd ip port s = (0, ?s)"
      using r(3) by (simp add: LoginServer_def ld UpdateServerList_def)
    moreover have "registry_ok cd ?s" using r False by (auto simp: registry_ok_def ls')
    moreover have "registry cd ?s = (registry cd s)((ip, port) \<mapsto> Up)"
      by (rule ext) (auto simp: registry_def ls' l status_of_def)
    ultimately show ?thesis using False by (auto simp: registry_None l)
  qed
qed

lemma LogoutServer_ok:
  assumes ok: "registry_ok cd s"
  shows "if registry cd s (ip, port) \<noteq> None then
       \<exists>s'. LogoutServer cd ip port s = (0, s') \<and> registry_ok cd s' \<and>
         registry cd s' = (registry cd s)((ip, port) := None) \<and> pipes s' = pipes s
     else LogoutServer cd ip port s = (-1, s)"
proof -
  obtain up down where l: "lists_of cd s = (up, down)" by (cases "lists_of cd s")
  have r: "codec_ok cd" "reg_file s \<noteq> None" "reg_writable s" "distinct up" "distinct down"
    "set up \<inter> set down = {}" using ok by (auto simp: registry_ok_def l)
  note ld = load_ok[OF r(2), of cd, unfolded l]
  let ?ls = "(filter (\<lambda>e. e \<noteq> (ip, port)) up, filter (\<lambda>e. e \<noteq> (ip, port)) down)"
  let ?s = "s\<lparr>reg_file := Some (wr cd ?ls)\<rparr>"
  note ls' = lists_of_update[OF r(1), of ?ls s]
  show ?thesis
  proof (cases "(ip, port) \<in> set up \<or> (ip, port) \<in> set down")
    case True
    then have "LogoutServer cd ip port s = (0, ?s)"
      using r(3) by (auto simp: LogoutServer_def ld UpdateServerList_def)
    moreover have "registry_ok cd ?s" using r by (auto simp: registry_ok_def ls')
    moreover have "registry cd ?s = (registry cd s)((ip, port) := None)"
      by (rule ext) (auto simp: registry_def ls' l status_of_def)
    ultimately show ?thesis using True by (auto simp: registry_None l)
  next
    case False
    then show ?thesis by (auto simp: registry_None l LogoutServer_def ld)
  qed
qed

end
