(* ===== verification/Status_Store.thy ===== *)
theory Status_Store
  imports Server_Registry
begin

text \<open>
  What the operations on the list of servers promise, as an interface: each is a guarded change of the
  status of one server, which is either made, answered with 0 and told to the workers, or refused with
  -1 without an effect. What follows of a whole history of operations is shown from the interface, which
  the operations of \<^verbatim>\<open>src/proxy/server_monitor.cc\<close> implement.
\<close>

section \<open>Changes of a status map\<close>

datatype change = Mark_Down | Mark_Up | Enter | Remove

fun wanted :: "change \<Rightarrow> status option \<Rightarrow> bool" where
  "wanted Mark_Down st \<longleftrightarrow> st = Some Up"
| "wanted Mark_Up st \<longleftrightarrow> st = Some Down"
| "wanted Enter st \<longleftrightarrow> st = None"
| "wanted Remove st \<longleftrightarrow> st \<noteq> None"

fun becomes :: "change \<Rightarrow> status option" where
  "becomes Mark_Down = Some Down"
| "becomes Mark_Up = Some Up"
| "becomes Enter = Some Up"
| "becomes Remove = None"

text \<open>A history of changes: which are made, the map in the end, and the changes that were made.\<close>

fun outcomes :: "(change \<times> 'k) list \<Rightarrow> ('k \<Rightarrow> status option) \<Rightarrow> int list" where
  "outcomes [] m = []"
| "outcomes ((c, e) # rs) m = (if wanted c (m e) then 0 # outcomes rs (m(e := becomes c)) else -1 # outcomes rs m)"

fun changed :: "(change \<times> 'k) list \<Rightarrow> ('k \<Rightarrow> status option) \<Rightarrow> 'k \<Rightarrow> status option" where
  "changed [] m = m"
| "changed ((c, e) # rs) m = changed rs (if wanted c (m e) then m(e := becomes c) else m)"

fun made :: "(change \<times> 'k) list \<Rightarrow> ('k \<Rightarrow> status option) \<Rightarrow> (change \<times> 'k) list" where
  "made [] m = []"
| "made ((c, e) # rs) m = (if wanted c (m e) then (c, e) # made rs (m(e := becomes c)) else made rs m)"

text \<open>Operations that answer with a number, one after the other.\<close>

fun perform_all :: "('r \<Rightarrow> 's \<Rightarrow> (int \<times> 's) res) \<Rightarrow> 'r list \<Rightarrow> 's \<Rightarrow> (int list \<times> 's) res" where
  "perform_all f [] s = Inr ([], s)"
| "perform_all f (r # rs) s = bindE (f r s) (\<lambda>(i, s). bindE (perform_all f rs s) (\<lambda>(is, s). Inr (i # is, s)))"

section \<open>The interface\<close>

locale status_store =
  fixes inv :: "'s \<Rightarrow> bool"
    and view :: "'s \<Rightarrow> 'k \<Rightarrow> status option"
    and sent :: "'s \<Rightarrow> string list"
    and perform :: "change \<times> 'k \<Rightarrow> 's \<Rightarrow> (int \<times> 's) res"
    and fits :: "'k \<Rightarrow> bool"
    and notice :: "change \<times> 'k \<Rightarrow> string"
  assumes accepted: "\<lbrakk>inv s; fits e; wanted c (view s e)\<rbrakk> \<Longrightarrow>
      \<exists>s'. perform (c, e) s = Inr (0, s') \<and> inv s' \<and> view s' = (view s)(e := becomes c) \<and>
        sent s' = map (\<lambda>p. p @ notice (c, e)) (sent s)"
    and refused: "\<lbrakk>inv s; fits e; \<not> wanted c (view s e)\<rbrakk> \<Longrightarrow> perform (c, e) s = Inr (-1, s)"
begin

lemma answered: "inv s \<Longrightarrow> fits e \<Longrightarrow> \<exists>a s'. perform (c, e) s = Inr (a, s') \<and> inv s'"
  using accepted[of s e c] refused[of s e c] by blast

lemma history:
  assumes "inv s" "\<forall>r\<in>set rs. fits (snd r)"
  shows "\<exists>s'. perform_all perform rs s = Inr (outcomes rs (view s), s') \<and> inv s' \<and> view s' = changed rs (view s) \<and>
    sent s' = map (\<lambda>p. p @ concat (map notice (made rs (view s)))) (sent s)"
  using assms
proof (induction rs arbitrary: s)
  case Nil
  then show ?case by simp
next
  case (Cons r rs)
  obtain c e where r: "r = (c, e)" by (cases r)
  have fits: "fits e" "\<forall>r\<in>set rs. fits (snd r)" using Cons.prems(2) by (simp_all add: r)
  show ?case
  proof (cases "wanted c (view s e)")
    case True
    obtain s1 where s1: "perform (c, e) s = Inr (0, s1)" "inv s1" "view s1 = (view s)(e := becomes c)"
      "sent s1 = map (\<lambda>p. p @ notice (c, e)) (sent s)"
      using accepted[OF Cons.prems(1) fits(1) True] by blast
    from Cons.IH[OF s1(2) fits(2)] obtain s' where "perform_all perform rs s1 = Inr (outcomes rs (view s1), s')" "inv s'"
      "view s' = changed rs (view s1)" "sent s' = map (\<lambda>p. p @ concat (map notice (made rs (view s1)))) (sent s1)" by blast
    then show ?thesis using True s1 by (auto simp: r)
  next
    case False
    from Cons.IH[OF Cons.prems(1) fits(2)] False refused[OF Cons.prems(1) fits(1) False] show ?thesis by (auto simp: r)
  qed
qed

text \<open>A refused operation may as well not have been asked for.\<close>

lemma refused_skipped:
  assumes "inv s" "\<forall>r\<in>set rs. fits (snd r)"
  shows "\<exists>s' t'. perform_all perform rs s = Inr (outcomes rs (view s), s') \<and>
    perform_all perform (made rs (view s)) s = Inr (replicate (length (made rs (view s))) 0, t') \<and>
    view t' = view s' \<and> sent t' = sent s'"
proof -
  have m: "outcomes (made rs m) m = replicate (length (made rs m)) 0 \<and> changed (made rs m) m = changed rs m \<and>
      made (made rs m) m = made rs m" for m
    by (induction rs arbitrary: m) (auto split: prod.splits)
  have "set (made rs m) \<subseteq> set rs" for m
  proof (induction rs arbitrary: m)
    case (Cons r rs)
    then show ?case by (cases r) (simp, blast)
  qed simp
  then have "\<forall>r\<in>set (made rs (view s)). fits (snd r)" using assms(2) by blast
  from history[OF assms(1) this] history[OF assms] m[of "view s"] show ?thesis by auto
qed

end

section \<open>The list of servers\<close>

fun perform :: "'f codec \<Rightarrow> change \<times> server \<Rightarrow> 'f monitor \<Rightarrow> (int \<times> 'f monitor) res" where
  "perform cd (Mark_Down, ip, port) s = SetServerDown cd ip port s"
| "perform cd (Mark_Up, ip, port) s = SetServerUp cd ip port s"
| "perform cd (Enter, ip, port) s = Inr (LoginServer cd ip port s)"
| "perform cd (Remove, ip, port) s = Inr (LogoutServer cd ip port s)"

text \<open>What the workers are told: the commands 3 and 2 with the address of the server.\<close>

definition address_at :: "server \<Rightarrow> address" where
  "address_at e = projr (server_address (fst e) (snd e))"

fun notice :: "change \<times> server \<Rightarrow> string" where
  "notice (Mark_Down, e) = command_bytes 3 (address_at e)"
| "notice (Mark_Up, e) = command_bytes 2 (address_at e)"
| "notice (_, e) = []"

interpretation servers: status_store "registry_ok cd" "registry cd" pipes "perform cd" "\<lambda>e. length (fst e) < 20" notice for cd
proof unfold_locales
  fix s e c assume s: "registry_ok cd s" "length (fst e) < 20" "wanted c (registry cd s e)"
  obtain ip port where e: "e = (ip, port)" by (cases e)
  show "\<exists>s'. perform cd (c, e) s = Inr (0, s') \<and> registry_ok cd s' \<and> registry cd s' = (registry cd s)(e := becomes c) \<and>
      pipes s' = map (\<lambda>p. p @ notice (c, e)) (pipes s)"
    using s SetServerDown_ok[OF s(1), of ip port] SetServerUp_ok[OF s(1), of ip port] LoginServer_ok[OF s(1), of ip port]
      LogoutServer_ok[OF s(1), of ip port]
    by (cases c) (auto simp: e address_at_def)
next
  fix s e c assume s: "registry_ok cd s" "length (fst e) < 20" "\<not> wanted c (registry cd s e)"
  obtain ip port where e: "e = (ip, port)" by (cases e)
  show "perform cd (c, e) s = Inr (-1, s)"
    using s SetServerDown_ok[OF s(1), of ip port] SetServerUp_ok[OF s(1), of ip port] LoginServer_ok[OF s(1), of ip port]
      LogoutServer_ok[OF s(1), of ip port]
    by (cases c) (auto simp: e)
qed

end
