(* ===== verification/Registry_Theorems.thy ===== *)
theory Registry_Theorems
  imports Status_Store
begin

text \<open>
  The properties of the server list and of the two health checks, and of the black list they
  feed.
\<close>

section \<open>Rounds of the active check\<close>

definition probeable :: "server list \<Rightarrow> bool" where
  "probeable es \<longleftrightarrow> (\<forall>e\<in>set es. length (fst e) < 20)"

lemma fits_ip: "length ip < 20 \<Longrightarrow> fits_ip ip = Inr ()"
  by (simp add: fits_ip_def strcpy_at_def)

lemma detect_up_reachable:
  "\<forall>e\<in>set xs. reach e \<Longrightarrow> probeable xs \<Longrightarrow>
     detect_up cd maxfails reach k (xs @ ys) st = detect_up cd maxfails reach (k + length xs) ys st"
proof (induction xs arbitrary: k)
  case (Cons x xs)
  obtain ip port a s where "x = (ip, port)" "st = (a, s)" by (cases x, cases st)
  with Cons show ?case by (simp add: probeable_def fits_ip)
qed simp

lemma detect_down_unreachable:
  "\<forall>e\<in>set es. \<not> reach e \<Longrightarrow> probeable es \<Longrightarrow> detect_down cd reach es st = Inr (True, st)"
  by (induction es) (cases st, auto simp: probeable_def fits_ip)+

text \<open>The locals after \<open>c\<close> failures of the server at index \<open>i\<close>.\<close>

definition failing :: "server list \<times> server list \<Rightarrow> nat \<Rightarrow> nat \<Rightarrow> active" where
  "failing ls i c = \<lparr>a_up = fst ls, a_down = snd ls, reload_flag = False,
     fail_num = (replicate (length (fst ls)) 0)[i := int c]\<rparr>"

text \<open>Only the server at index \<open>i\<close> of those up fails, and no server that is down comes back.\<close>

definition only_fails :: "server list \<times> server list \<Rightarrow> nat \<Rightarrow> (server \<Rightarrow> bool) \<Rightarrow> bool" where
  "only_fails ls i reach \<longleftrightarrow> (\<forall>e\<in>set (fst ls). reach e \<longleftrightarrow> e \<noteq> fst ls ! i) \<and> (\<forall>e\<in>set (snd ls). \<not> reach e)"

text \<open>The servers before and behind the one that fails.\<close>

lemma only_fails_around:
  assumes "registry_ok cd s" "lists_of cd s = (up, down)" "probeable up" "i < length up" "up ! i = (ip, port)" "only_fails (up, down) i reach"
  shows "\<forall>e\<in>set (take i up). reach e" "\<forall>e\<in>set (drop (Suc i) up). reach e" "\<not> reach (ip, port)"
    "probeable (take i up)" "probeable (drop (Suc i) up)" "length ip < 20"
proof -
  have up: "up = take i up @ up ! i # drop (Suc i) up" using id_take_nth_drop[OF assms(4)] .
  have "distinct (take i up @ up ! i # drop (Suc i) up)" using assms(1,2) up by (simp add: registry_ok_def)
  then have "e \<noteq> up ! i" if "e \<in> set (take i up) \<or> e \<in> set (drop (Suc i) up)" for e using that by auto
  then show "\<forall>e\<in>set (take i up). reach e" "\<forall>e\<in>set (drop (Suc i) up). reach e"
    using assms(6) by (auto simp: only_fails_def dest: in_set_takeD in_set_dropD)
  show "\<not> reach (ip, port)" using assms(4-6) by (metis fst_conv nth_mem only_fails_def)
  show "probeable (take i up)" "probeable (drop (Suc i) up)"
    using assms(3) by (auto simp: probeable_def dest: in_set_takeD in_set_dropD)
  show "length ip < 20" using assms(3-5) nth_mem[OF assms(4)] by (force simp: probeable_def)
qed

lemma failing_detect_up:
  assumes "\<forall>e\<in>set (take i up). reach e" "\<forall>e\<in>set (drop (Suc i) up). reach e" "\<not> reach (ip, port)"
    "probeable (take i up)" "probeable (drop (Suc i) up)" "length ip < 20" and i: "i < length up" "up ! i = (ip, port)"
  shows "detect_up cd maxfails reach 0 up (failing (up, down) i c, s) =
      (if maxfails \<le> int c + 1
       then bindE (SetServerDown cd ip port s) (\<lambda>(ret, s'). Inr ((failing (up, down) i (Suc c))\<lparr>reload_flag := True\<rparr>, s'))
       else Inr (failing (up, down) i (Suc c), s))"
proof -
  have up: "up = take i up @ (ip, port) # drop (Suc i) up" using id_take_nth_drop[OF i(1)] i(2) by simp
  have "detect_up cd maxfails reach 0 (take i up @ (ip, port) # drop (Suc i) up) (failing (up, down) i c, s) =
      detect_up cd maxfails reach i ((ip, port) # drop (Suc i) up) (failing (up, down) i c, s)"
    using detect_up_reachable[OF assms(1,4), of cd maxfails 0] i(1) by simp
  also have "\<dots> = (if maxfails \<le> int c + 1
     then bindE (SetServerDown cd ip port s) (\<lambda>(ret, s'). Inr ((failing (up, down) i (Suc c))\<lparr>reload_flag := True\<rparr>, s'))
     else detect_up cd maxfails reach (Suc i) (drop (Suc i) up) (failing (up, down) i (Suc c), s))"
    using assms(3,6) i(1) by (simp add: fits_ip failing_def Let_def algebra_simps)
  also have "detect_up cd maxfails reach (Suc i) (drop (Suc i) up) (failing (up, down) i (Suc c), s)
      = Inr (failing (up, down) i (Suc c), s)"
    using detect_up_reachable[OF assms(2,5), of cd maxfails "Suc i" "[]"] by simp
  finally show ?thesis using up by simp
qed

lemma failing_round:
  assumes ok: "registry_ok cd s" and pr: "probeable (fst (lists_of cd s))" "probeable (snd (lists_of cd s))"
    and i: "i < length (fst (lists_of cd s))" and r: "only_fails (lists_of cd s) i reach"
  shows "active_round cd maxfails reach (failing (lists_of cd s) i c, s) =
     (if maxfails \<le> int c + 1
      then bindE (SetServerDown cd (fst (fst (lists_of cd s) ! i)) (snd (fst (lists_of cd s) ! i)) s)
             (\<lambda>(ret, s'). Inr (True, (failing (lists_of cd s) i (Suc c))\<lparr>reload_flag := True\<rparr>, s'))
      else Inr (True, failing (lists_of cd s) i (Suc c), s))"
proof -
  obtain up down where l: "lists_of cd s = (up, down)" by (cases "lists_of cd s")
  obtain ip port where e: "up ! i = (ip, port)" by (cases "up ! i")
  note pr = pr[unfolded l fst_conv snd_conv] and i = i[unfolded l fst_conv] and r = r[unfolded l]
  have down: "detect_down cd reach down st = Inr (True, st)" for st :: "active \<times> 'a monitor"
    using r pr(2) by (intro detect_down_unreachable) (auto simp: only_fails_def)
  have rl: "reload cd s (failing (up, down) i c) = Some (failing (up, down) i c)"
    by (simp add: reload_def failing_def)
  note up = failing_detect_up[OF only_fails_around[OF ok l pr(1) i e r] i e, of cd maxfails down c s]
  have "a_up (failing (up, down) i c) = up" "a_down (failing (up, down) i (Suc c)) = down"
    by (simp_all add: failing_def)
  moreover have "bindE (bindE (SetServerDown cd ip port s) (\<lambda>(ret, s'). Inr ((failing (up, down) i (Suc c))\<lparr>reload_flag := True\<rparr>, s')))
      (\<lambda>(a, s). detect_down cd reach (a_down a) (a, s)) =
      bindE (SetServerDown cd ip port s) (\<lambda>(ret, s'). Inr (True, (failing (up, down) i (Suc c))\<lparr>reload_flag := True\<rparr>, s'))"
    by (cases "SetServerDown cd ip port s") (auto simp: failing_def down)
  ultimately show ?thesis
    unfolding l active_round_def by (simp add: rl e down up)
qed

text \<open>The failures left until \<open>m_maxfails\<close>, one per round.\<close>

lemma failing_rounds:
  assumes ok: "registry_ok cd s" and pr: "probeable (fst (lists_of cd s))" "probeable (snd (lists_of cd s))"
    and i: "i < length (fst (lists_of cd s))" and e: "fst (lists_of cd s) ! i = (ip, port)"
    and rs: "\<forall>r\<in>set rs. only_fails (lists_of cd s) i r" "rs \<noteq> []" "int c + int (length rs) = maxfails"
  shows "\<exists>a' s'. ActiveDetect cd maxfails rs (failing (lists_of cd s) i c, s) = Inr (a', s') \<and>
     SetServerDown cd ip port s = Inr (0, s')"
  using rs
proof (induction rs arbitrary: c)
  case (Cons r rs)
  have ip: "length ip < 20" using pr(1) i e nth_mem[OF i] by (force simp: probeable_def)
  have upst: "registry cd s (ip, port) = Some Up" using nth_mem[OF i] e by (simp add: registry_Up)
  from SetServerDown_ok[OF ok ip, of port] upst obtain s' where s': "SetServerDown cd ip port s = Inr (0, s')" by auto
  have r: "only_fails (lists_of cd s) i r" using Cons.prems by simp
  note one = failing_round[OF ok pr i r, of maxfails c, unfolded e fst_conv snd_conv s']
  show ?case
  proof (cases "rs = []")
    case True
    then show ?thesis using Cons.prems one s' by simp
  next
    case False
    then have "\<not> maxfails \<le> int c + 1" using Cons.prems(3) by (cases rs) auto
    then have "ActiveDetect cd maxfails (r # rs) (failing (lists_of cd s) i c, s) =
        ActiveDetect cd maxfails rs (failing (lists_of cd s) i (Suc c), s)" using one by simp
    then show ?thesis using Cons.IH[of "Suc c"] Cons.prems False by simp
  qed
qed simp

lemma first_round:
  assumes "reg_file s \<noteq> None"
  shows "active_round cd maxfails reach (start_active\<lparr>a_up := u, a_down := d, fail_num := f\<rparr>, s) = active_round cd maxfails reach
     (if rd cd (the (reg_file s)) = None then failing (u, d) i 0 else failing (lists_of cd s) i 0, s)"
proof -
  have z: "failing ls i 0 = \<lparr>a_up = fst ls, a_down = snd ls, reload_flag = False,
      fail_num = replicate (length (fst ls)) 0\<rparr>" for ls
    by (simp add: failing_def)
      (metis length_replicate list_update_beyond list_update_id not_le nth_replicate)
  obtain f0 where f0: "reg_file s = Some f0" using assms by auto
  show ?thesis
    by (auto simp: active_round_def reload_def start_active_def LoadServerList_def z f0 lists_of_def
        split: option.splits)
qed

section \<open>Properties\<close>

text \<open>One operation on \<open>server_list.json\<close> is a guarded update of the status map
  (a server is Up, Down or unknown): marking down needs Up, marking up needs Down, a login needs
  an unknown server, a logout a known one. A refused operation returns -1 and changes nothing; an
  accepted one returns 0, keeps every server listed once, and marking down or up appends the same
  command with the server's address to the pipe of every worker.\<close>

lemma registry_operation:
  assumes "registry_ok cd s" "length ip < 20"
  shows "(if registry cd s (ip, port) = Some Up
      then \<exists>s' a. SetServerDown cd ip port s = Inr (0, s') \<and> registry_ok cd s' \<and>
         registry cd s' = (registry cd s)((ip, port) \<mapsto> Down) \<and> server_address ip port = Inr a \<and>
         pipes s' = map (\<lambda>p. p @ command_bytes 3 a) (pipes s)
      else SetServerDown cd ip port s = Inr (-1, s)) \<and>
    (if registry cd s (ip, port) = Some Down
      then \<exists>s' a. SetServerUp cd ip port s = Inr (0, s') \<and> registry_ok cd s' \<and>
         registry cd s' = (registry cd s)((ip, port) \<mapsto> Up) \<and> server_address ip port = Inr a \<and>
         pipes s' = map (\<lambda>p. p @ command_bytes 2 a) (pipes s)
      else SetServerUp cd ip port s = Inr (-1, s)) \<and>
    (if registry cd s (ip, port) = None
      then \<exists>s'. LoginServer cd ip port s = (0, s') \<and> registry_ok cd s' \<and>
         registry cd s' = (registry cd s)((ip, port) \<mapsto> Up) \<and> pipes s' = pipes s
      else LoginServer cd ip port s = (-1, s)) \<and>
    (if registry cd s (ip, port) \<noteq> None
      then \<exists>s'. LogoutServer cd ip port s = (0, s') \<and> registry_ok cd s' \<and>
         registry cd s' = (registry cd s)((ip, port) := None) \<and> pipes s' = pipes s
      else LogoutServer cd ip port s = (-1, s))"
  (is "?down \<and> ?up \<and> ?login \<and> ?logout")
proof (intro conjI)
  show ?down using SetServerDown_ok[OF assms, of port] by (auto split: if_splits)
  show ?up using SetServerUp_ok[OF assms, of port] by (auto split: if_splits)
  show ?login using LoginServer_ok[OF assms(1), of ip port] by simp
  show ?logout using LogoutServer_ok[OF assms(1), of ip port] by simp
qed

text \<open>C14: The list of servers is a map from servers to their status. Any sequence of the four operations
  on \<open>server_list.json\<close> answers and changes it exactly as guarded updates of that map do: marking down
  needs a server that is Up, marking up one that is Down, a login an unknown one and a logout a known
  one; such an operation returns 0 and sets the status, any other returns -1 and changes nothing. The
  file stays well-formed, with every server in it once, and every worker is sent the same bytes: the
  commands of the servers that were marked down or up, in this order.\<close>

theorem registry_operations_refine:
  assumes "registry_ok cd s" "\<forall>r\<in>set rs. length (fst (snd r)) < 20"
  shows "\<exists>s'. perform_all (perform cd) rs s = Inr (outcomes rs (registry cd s), s') \<and> registry_ok cd s' \<and>
    registry cd s' = changed rs (registry cd s) \<and>
    pipes s' = map (\<lambda>p. p @ concat (map notice (made rs (registry cd s)))) (pipes s)"
  by (rule servers.history[OF assms])

text \<open>A registry kept as the parsed lists, and one with two servers.\<close>

definition plain_codec :: "(server list \<times> server list) option codec" where
  "plain_codec = \<lparr>rd = (\<lambda>f. f), wr = Some\<rparr>"

definition demo_registry :: "(server list \<times> server list) option monitor" where
  "demo_registry = \<lparr>reg_file = Some (Some ([(''10.0.0.1'', 8001), (''10.0.0.2'', 8002)], [(''10.0.0.3'', 8003)])),
     reg_writable = True, pipes = [[], []]\<rparr>"

lemma demo_registry_lists:
  "lists_of plain_codec demo_registry = ([(''10.0.0.1'', 8001), (''10.0.0.2'', 8002)], [(''10.0.0.3'', 8003)])"
  by (simp add: lists_of_def LoadServerList_def plain_codec_def demo_registry_def)

lemma demo_registry_ok: "registry_ok plain_codec demo_registry"
  by (simp add: registry_ok_def demo_registry_lists codec_ok_def)
    (simp add: plain_codec_def demo_registry_def)

theorem registry_operations_refine_witness:
  "\<exists>s'. perform_all (perform plain_codec) [(Mark_Down, ''10.0.0.2'', 8002), (Mark_Down, ''10.0.0.2'', 8002), (Enter, ''10.0.0.4'', 8004)]
       demo_registry = Inr ([0, -1, 0], s') \<and>
     registry plain_codec s' = (registry plain_codec demo_registry)((''10.0.0.2'', 8002) \<mapsto> Down, (''10.0.0.4'', 8004) \<mapsto> Up) \<and>
     pipes s' = [notice (Mark_Down, ''10.0.0.2'', 8002), notice (Mark_Down, ''10.0.0.2'', 8002)]"
proof -
  have "registry plain_codec demo_registry (''10.0.0.2'', 8002) = Some Up" "registry plain_codec demo_registry (''10.0.0.4'', 8004) = None"
    by (simp_all add: registry_def demo_registry_lists status_of_def)
  then show ?thesis
    using registry_operations_refine[OF demo_registry_ok, of "[(Mark_Down, ''10.0.0.2'', 8002), (Mark_Down, ''10.0.0.2'', 8002), (Enter, ''10.0.0.4'', 8004)]"]
    by (auto simp: demo_registry_def)
qed



text \<open>A list file that does not parse is taken for an empty one: the next server that logs in
  is told that it succeeded and the file then holds this server only.\<close>

lemma garbled_list_overwritten:
  assumes "reg_file s = Some f" "rd cd f = None" "reg_writable s"
  shows "LoginServer cd ip port s = (0, s\<lparr>reg_file := Some (wr cd ([(ip, port)], []))\<rparr>)"
  using assms by (simp add: LoginServer_def LoadServerList_def UpdateServerList_def)

lemma garbled_list_overwritten_witness:
  "LoginServer plain_codec ''10.0.0.9'' 9000 (demo_registry\<lparr>reg_file := Some None\<rparr>) =
     (0, demo_registry\<lparr>reg_file := Some (Some ([(''10.0.0.9'', 9000)], []))\<rparr>)"
  using garbled_list_overwritten[of "demo_registry\<lparr>reg_file := Some None\<rparr>" None plain_codec "''10.0.0.9''" 9000]
  by (simp add: plain_codec_def demo_registry_def)

section \<open>The black list\<close>

text \<open>The states of the black list: initialisation, reports of the workers, the periodic reset.\<close>

inductive black_reach :: "Hhei_Ming_Dan \<Rightarrow> string list \<Rightarrow> bool" where
  init: "black_reach init_shm []"
| add: "black_reach h ips \<Longrightarrow> NUL \<notin> set ip \<Longrightarrow> length ip < 20 \<Longrightarrow> add_black ip h = Inr h' \<Longrightarrow>
    black_reach h' (if length ips < 1000 then ips @ [ip] else ips)"
| reset: "black_reach h ips \<Longrightarrow> black_reach (empty_heimingdan_cb h) []"

lemma black_reach_inv: "black_reach h ips \<Longrightarrow> black_ok h \<and> black_rows h = ips"
proof (induction rule: black_reach.induct)
  case init
  then show ?case by (simp add: init_shm_ok)
next
  case (add h ips ip h')
  have c: "nat (hmd_count h) = length ips" "hmd_count h \<le> 1000" "0 \<le> hmd_count h"
    using add.IH by (auto simp: black_ok_def black_rows_def)
  show ?case
  proof (cases "hmd_count h < 1000")
    case True
    then show ?thesis using add_black_rows[of h ip] add c by auto
  next
    case False
    then have "hmd_count h = 1000" using c by simp
    then show ?thesis using add c by (simp add: add_black_full)
  qed
next
  case (reset h ips)
  then show ?case by (simp add: empty_black_ok)
qed

text \<open>C21: Through any sequence of reports (of addresses shorter than 20 characters) and resets, the
  rows of the shared buffer never run into each other: \<open>verify_client_ip\<close> refuses exactly the
  addresses reported since the last reset, the first 1000 of them.\<close>

theorem black_list_exact:
  assumes "black_reach h ips" "NUL \<notin> set ip" "length ip < 20"
  shows "verify_client_ip h ip = Inr (ip \<in> set ips) \<and> length ips \<le> 1000"
  using black_reach_inv[OF assms(1)] verify_client_ip_iff[OF assms(2,3), of h]
  by (auto simp: black_ok_def black_rows_def)

theorem black_list_exact_witness:
  "\<exists>h. black_reach h [''1.2.3.4''] \<and> verify_client_ip h ''1.2.3.4'' = Inr True \<and> verify_client_ip h ''1.2.3'' = Inr False"
proof -
  obtain h where h: "add_black ''1.2.3.4'' init_shm = Inr h"
    using add_black_rows[OF init_shm_ok(1), of "''1.2.3.4''"] by (auto simp: init_shm_def)
  have r: "black_reach h [''1.2.3.4'']"
    using black_reach.add[OF black_reach.init _ _ h] by simp
  from black_list_exact[OF r, of "''1.2.3.4''"] black_list_exact[OF r, of "''1.2.3''"] r
  show ?thesis by auto
qed

end
