(* ===== verification/Ring_Queue.thy ===== *)
theory Ring_Queue
  imports Structures
begin

text \<open>
  The two circular queues of a worker process (\<open>msg_queue\<close> and \<open>fin_queue\<close> with their
  \<open>front\<close> and \<open>back\<close> indices in \<^verbatim>\<open>include/pool.h\<close>). The code repeats the same statements
  for both; here they are operations on one record. The interface \<open>event_fifo\<close> states what
  the workers rely on, and is interpreted on the ring.
\<close>

section \<open>The ring\<close>

record 'a ring =
  q_slots :: "nat \<Rightarrow> 'a"
  q_front :: nat
  q_back :: nat

definition empty_ring :: "'a \<Rightarrow> 'a ring" where
  "empty_ring z = \<lparr>q_slots = (\<lambda>_. z), q_front = 0, q_back = 0\<rparr>"

text \<open>\<open>q[back] = x; back = (back + 1) % MSG_QUEUE_LEN; if (back == front) exit(0);\<close>\<close>

definition ring_push :: "'a \<Rightarrow> 'a ring \<Rightarrow> 'a ring res" where
  "ring_push x q =
     (let q' = q\<lparr>q_slots := (q_slots q)(q_back q := x),
                 q_back := (q_back q + 1) mod MSG_QUEUE_LEN\<rparr>
      in if q_back q' = q_front q' then Inl Exited else Inr q')"

definition ring_front :: "'a ring \<Rightarrow> 'a" where
  "ring_front q = q_slots q (q_front q)"

text \<open>\<open>front = (front + 1) % MSG_QUEUE_LEN;\<close>\<close>

definition ring_pop :: "'a ring \<Rightarrow> 'a ring" where
  "ring_pop q = q\<lparr>q_front := (q_front q + 1) mod MSG_QUEUE_LEN\<rparr>"

definition ring_empty :: "'a ring \<Rightarrow> bool" where
  "ring_empty q \<longleftrightarrow> q_back q = q_front q"

section \<open>Abstraction to a list\<close>

definition ring_inv :: "'a ring \<Rightarrow> bool" where
  "ring_inv q \<longleftrightarrow> q_front q < MSG_QUEUE_LEN \<and> q_back q < MSG_QUEUE_LEN"

definition ring_count :: "'a ring \<Rightarrow> nat" where
  "ring_count q = (q_back q + MSG_QUEUE_LEN - q_front q) mod MSG_QUEUE_LEN"

definition ring_items :: "'a ring \<Rightarrow> 'a list" where
  "ring_items q = map (\<lambda>i. q_slots q ((q_front q + i) mod MSG_QUEUE_LEN)) [0..<ring_count q]"

lemma MSG_QUEUE_LEN_pos: "1 < MSG_QUEUE_LEN"
  by (simp add: MSG_QUEUE_LEN_def)

lemma length_ring_items [simp]: "length (ring_items q) = ring_count q"
  by (simp add: ring_items_def)

lemma ring_count_less: "ring_count q < MSG_QUEUE_LEN"
  using MSG_QUEUE_LEN_pos by (simp add: ring_count_def)

lemma mod_ring: "x < 2 * MSG_QUEUE_LEN \<Longrightarrow>
    x mod MSG_QUEUE_LEN = (if x < MSG_QUEUE_LEN then x else x - MSG_QUEUE_LEN)"
  by (simp add: mod_if)

lemma Suc_mod_ring: "x < MSG_QUEUE_LEN \<Longrightarrow>
    Suc x mod MSG_QUEUE_LEN = (if Suc x = MSG_QUEUE_LEN then 0 else Suc x)"
  by (auto simp: mod_ring)

text \<open>The distance from front to back, without \<open>mod\<close>.\<close>

lemma ring_count_cases:
  assumes "ring_inv q"
  shows "ring_count q = (if q_front q \<le> q_back q then q_back q - q_front q
                         else q_back q + MSG_QUEUE_LEN - q_front q)"
  using assms by (auto simp: ring_count_def ring_inv_def mod_ring)

lemma ring_empty_items: "ring_inv q \<Longrightarrow> ring_empty q \<longleftrightarrow> ring_items q = []"
proof -
  assume i: "ring_inv q"
  have "ring_items q = [] \<longleftrightarrow> ring_count q = 0"
    by (metis length_ring_items length_0_conv)
  then show ?thesis
    using i by (auto simp: ring_count_cases ring_empty_def ring_inv_def split: if_splits)
qed

lemma ring_back_slot:
  assumes "ring_inv q"
  shows "(q_front q + ring_count q) mod MSG_QUEUE_LEN = q_back q"
  using assms by (auto simp: ring_count_cases ring_inv_def)

lemma ring_slot_inject:
  assumes "ring_inv q" "i < MSG_QUEUE_LEN" "j < MSG_QUEUE_LEN"
    and "(q_front q + i) mod MSG_QUEUE_LEN = (q_front q + j) mod MSG_QUEUE_LEN"
  shows "i = j"
  using assms by (auto simp: mod_ring ring_inv_def split: if_splits)

lemma ring_count_push:
  assumes "ring_inv q" "ring_push x q = Inr q'"
  shows "ring_inv q'" "ring_count q' = Suc (ring_count q)" "q_front q' = q_front q"
    "q_slots q' = (q_slots q)(q_back q := x)"
  using assms MSG_QUEUE_LEN_pos
  by (auto simp: ring_push_def Let_def ring_count_cases ring_inv_def Suc_mod_ring split: if_splits)

lemma ring_items_push:
  assumes "ring_inv q" "ring_push x q = Inr q'"
  shows "ring_items q' = ring_items q @ [x]"
proof -
  note p = ring_count_push[OF assms]
  have less: "ring_count q < MSG_QUEUE_LEN" by (rule ring_count_less)
  have same: "q_slots q' ((q_front q + i) mod MSG_QUEUE_LEN)
      = q_slots q ((q_front q + i) mod MSG_QUEUE_LEN)" if "i < ring_count q" for i
  proof -
    have "(q_front q + i) mod MSG_QUEUE_LEN \<noteq> q_back q"
      using ring_slot_inject[OF assms(1), of i "ring_count q"] ring_back_slot[OF assms(1)] that less
      by auto
    then show ?thesis by (simp add: p)
  qed
  have "map (\<lambda>i. q_slots q' ((q_front q + i) mod MSG_QUEUE_LEN)) [0..<ring_count q] = ring_items q"
    unfolding ring_items_def by (intro map_cong) (auto simp: same)
  then show ?thesis
    unfolding ring_items_def[of q'] using p ring_back_slot[OF assms(1)] by simp
qed

lemma ring_push_full:
  assumes "ring_inv q"
  shows "ring_push x q = Inl Exited \<longleftrightarrow> ring_count q = MSG_QUEUE_LEN - 1"
  using assms MSG_QUEUE_LEN_pos
  by (auto simp: ring_push_def Let_def ring_count_cases ring_inv_def Suc_mod_ring)

lemma ring_push_cases:
  assumes "ring_inv q"
  shows "ring_push x q = (if ring_count q = MSG_QUEUE_LEN - 1 then Inl Exited
     else Inr (q\<lparr>q_slots := (q_slots q)(q_back q := x), q_back := (q_back q + 1) mod MSG_QUEUE_LEN\<rparr>))"
  using ring_push_full[OF assms, of x] by (auto simp: ring_push_def Let_def)

lemma ring_items_pop:
  assumes "ring_inv q" "\<not> ring_empty q"
  shows "ring_inv (ring_pop q)" "ring_items q = ring_front q # ring_items (ring_pop q)"
proof -
  show "ring_inv (ring_pop q)"
    using assms MSG_QUEUE_LEN_pos by (auto simp: ring_pop_def ring_inv_def)
  then have c: "ring_count q = Suc (ring_count (ring_pop q))"
    using assms MSG_QUEUE_LEN_pos
    by (auto simp: ring_count_cases ring_pop_def ring_inv_def ring_empty_def Suc_mod_ring
        split: if_splits)
  have f: "(Suc (q_front q) mod MSG_QUEUE_LEN + i) mod MSG_QUEUE_LEN
      = Suc (q_front q + i) mod MSG_QUEUE_LEN" for i
    by (simp add: mod_add_left_eq)
  have "ring_items q = q_slots q (q_front q mod MSG_QUEUE_LEN) #
      map (\<lambda>i. q_slots q ((q_front q + Suc i) mod MSG_QUEUE_LEN)) [0..<ring_count (ring_pop q)]"
    unfolding ring_items_def c upt_conv_Cons[OF zero_less_Suc]
    by (simp add: map_Suc_upt[symmetric] o_def del: upt_Suc)
  then show "ring_items q = ring_front q # ring_items (ring_pop q)"
    using assms by (simp add: f ring_items_def ring_front_def ring_pop_def ring_inv_def)
qed

section \<open>The interface of the queues\<close>

text \<open>
  A bounded queue: \<open>push\<close> appends or, when there is no room, stops with the fault \<open>full\<close>. A
  history of pushes (\<open>Some\<close>) and pops (\<open>None\<close>, nothing on an empty queue) collects what was popped.
\<close>

definition fifo_op ::
    "('a \<Rightarrow> 'q \<Rightarrow> 'q res) \<Rightarrow> ('q \<Rightarrow> 'q) \<Rightarrow> ('q \<Rightarrow> 'a) \<Rightarrow> ('q \<Rightarrow> bool) \<Rightarrow> 'a option \<Rightarrow> 'q \<times> 'a list \<Rightarrow> ('q \<times> 'a list) res" where
  "fifo_op push pop first is_empty e s =
     (case e of
        Some x \<Rightarrow> bindE (push x (fst s)) (\<lambda>q. Inr (q, snd s))
      | None \<Rightarrow> if is_empty (fst s) then Inr s else Inr (pop (fst s), snd s @ [first (fst s)]))"

lemma fifo_op_cases:
  "fifo_op push pop first is_empty (Some x) s = bindE (push x (fst s)) (\<lambda>q. Inr (q, snd s))"
  "fifo_op push pop first is_empty None s = (if is_empty (fst s) then Inr s else Inr (pop (fst s), snd s @ [first (fst s)]))"
  by (simp_all add: fifo_op_def)

locale event_fifo =
  fixes inv :: "'q \<Rightarrow> bool"
    and items :: "'q \<Rightarrow> 'a list"
    and push :: "'a \<Rightarrow> 'q \<Rightarrow> 'q res"
    and pop :: "'q \<Rightarrow> 'q"
    and first :: "'q \<Rightarrow> 'a"
    and is_empty :: "'q \<Rightarrow> bool"
    and room :: nat
    and full :: fault
  assumes push_ok: "inv q \<Longrightarrow> length (items q) < room \<Longrightarrow>
            \<exists>q'. push x q = Inr q' \<and> inv q' \<and> items q' = items q @ [x]"
    and push_full: "inv q \<Longrightarrow> \<not> length (items q) < room \<Longrightarrow> push x q = Inl full"
    and pop_ok: "inv q \<Longrightarrow> \<not> is_empty q \<Longrightarrow> inv (pop q) \<and> items q = first q # items (pop q)"
    and empty_ok: "inv q \<Longrightarrow> is_empty q \<longleftrightarrow> items q = []"
begin

lemma push_InrD:
  assumes "inv q" "push x q = Inr q'"
  shows "inv q' \<and> items q' = items q @ [x]"
  using assms push_ok[of q x] push_full[of q x] by (cases "length (items q) < room") auto

lemma fifo_pushes:
  assumes "inv q" "foldE push xs q = Inr q'"
  shows "inv q' \<and> items q' = items q @ xs"
  using assms
  by (induction xs arbitrary: q) (auto simp: res_simps dest: push_InrD)

lemma fifo_history:
  assumes "inv q" "foldE (fifo_op push pop first is_empty) es (q, out) = Inr (q', out')"
  shows "inv q' \<and> out' @ items q' = out @ items q @ List.map_filter (\<lambda>e. e) es"
  using assms
proof (induction es arbitrary: q out)
  case Nil
  then show ?case by (simp add: map_filter_simps)
next
  case (Cons e es)
  show ?case
  proof (cases e)
    case None
    then show ?thesis
      using Cons pop_ok[of q] by (cases "is_empty q") (auto simp: fifo_op_cases map_filter_simps)
  next
    case (Some x)
    from Cons.prems(2) Some obtain p where p: "push x q = Inr p"
      "foldE (fifo_op push pop first is_empty) es (p, out) = Inr (q', out')"
      by (auto simp: fifo_op_cases res_simps)
    from push_InrD[OF Cons.prems(1) p(1)] Cons.IH[OF _ p(2)] Some show ?thesis by (simp add: map_filter_simps)
  qed
qed

lemma items_pop: "inv q \<Longrightarrow> \<not> is_empty q \<Longrightarrow> items (pop q) = tl (items q)"
  using pop_ok by (metis list.sel(3))

lemma first_in: "inv q \<Longrightarrow> \<not> is_empty q \<Longrightarrow> first q \<in> set (items q)"
  using pop_ok by (metis list.set_intros(1))

lemma size_pop: "inv q \<Longrightarrow> \<not> is_empty q \<Longrightarrow> length (items (pop q)) < length (items q)"
  using pop_ok[of q] by (auto dest: arg_cong[where f = length])

lemma set_pop: "inv q \<Longrightarrow> \<not> is_empty q \<Longrightarrow> set (items (pop q)) \<subseteq> set (items q)"
  using pop_ok by (metis set_subset_Cons)

lemma distinct_pop:
  "inv q \<Longrightarrow> \<not> is_empty q \<Longrightarrow> distinct (items q) \<Longrightarrow>
     distinct (items (pop q)) \<and> first q \<notin> set (items (pop q))"
  using pop_ok by (metis distinct.simps(2))

end

interpretation rq: event_fifo ring_inv ring_items ring_push ring_pop ring_front ring_empty
  "MSG_QUEUE_LEN - 1" Exited
proof (unfold_locales, goal_cases)
  case (1 q x)
  then have "ring_count q \<noteq> MSG_QUEUE_LEN - 1" by simp
  with 1 obtain q' where "ring_push x q = Inr q'"
    by (auto simp: ring_push_cases)
  with 1(1) ring_items_push[OF 1(1) this] ring_count_push(1)[OF 1(1) this] show ?case
    by simp
next
  case (2 q x)
  then have "ring_count q = MSG_QUEUE_LEN - 1"
    using ring_count_less[of q] by simp
  with 2 show ?case by (simp add: ring_push_full)
next
  case (3 q)
  then show ?case by (simp add: ring_items_pop)
next
  case (4 q)
  then show ?case by (rule ring_empty_items)
qed

lemma ring_inv_empty: "ring_inv (empty_ring z)"
  using MSG_QUEUE_LEN_pos by (simp add: ring_inv_def empty_ring_def)

lemma ring_items_empty: "ring_items (empty_ring z) = []"
  using ring_empty_items[OF ring_inv_empty[of z]] by (simp add: ring_empty_def empty_ring_def)

section \<open>Order and bound\<close>

text \<open>C29: The circular queues keep the order: from the empty queue, whatever sequence of pushes and pops
  the worker performs, in whatever order, the events popped followed by those still in the queue are
  the events pushed; a push fails, by leaving the process, only on a queue with 99999 events.\<close>

theorem ring_fifo:
  assumes "foldE (fifo_op ring_push ring_pop ring_front ring_empty) es (empty_ring z, []) = Inr (q, out)"
  shows "out @ ring_items q = List.map_filter (\<lambda>e. e) es \<and> length (ring_items q) \<le> 99999 \<and>
     (ring_push x q = Inl Exited \<longleftrightarrow> length (ring_items q) = 99999)"
proof -
  have h: "ring_inv q" "out @ ring_items q = List.map_filter (\<lambda>e. e) es"
    using rq.fifo_history[OF ring_inv_empty assms] by (simp_all add: ring_items_empty)
  have c: "length (ring_items q) \<le> 99999" using ring_count_less[of q] by (simp add: MSG_QUEUE_LEN_def)
  have "ring_push x q = Inl Exited \<longleftrightarrow> \<not> length (ring_items q) < MSG_QUEUE_LEN - 1"
    using rq.push_ok[OF h(1), of x] rq.push_full[OF h(1), of x] by (cases "length (ring_items q) < MSG_QUEUE_LEN - 1") auto
  then show ?thesis using h(2) c by (auto simp: MSG_QUEUE_LEN_def)
qed

theorem ring_fifo_witness:
  "\<exists>q. foldE (fifo_op ring_push ring_pop ring_front ring_empty) [Some 4, Some 7, None, Some (9::int)] (empty_ring 0, []) = Inr (q, [4]) \<and>
     ring_items q = [7, 9]"
proof -
  have "\<exists>q. foldE (fifo_op ring_push ring_pop ring_front ring_empty) [Some 4, Some 7, None, Some (9::int)] (empty_ring 0, []) = Inr (q, [4])"
    by (simp add: fifo_op_cases ring_push_def ring_pop_def ring_front_def ring_empty_def empty_ring_def MSG_QUEUE_LEN_def Let_def)
  then obtain q where q: "foldE (fifo_op ring_push ring_pop ring_front ring_empty) [Some 4, Some 7, None, Some (9::int)] (empty_ring 0, []) = Inr (q, [4])"
    by blast
  from ring_fifo[OF q] q show ?thesis by (auto simp: map_filter_simps)
qed

end
