(* ===== verification/Framing.thy ===== *)
theory Framing
  imports Structures
begin

text \<open>
  The frames on every connection of the system: a \<open>Head\<close> (the \<open>int\<close> length of the body)
  and the body. The gateway, the server and the client read them with the same statements
  (\<open>client_socket_read_cb\<close>, \<open>work_server_socket_read_cb\<close> of \<^verbatim>\<open>include/pool.h\<close>, \<open>thread.cpp\<close>,
  \<open>client.cc\<close>): wait for four bytes, wait for the body, copy the body into a zeroed
  \<open>char buffer[1024]\<close> and take the C string in it. Of libevent the readers use the documented
  behaviour of a byte queue: \<open>evbuffer_get_length\<close>, \<open>evbuffer_copyout\<close> and
  \<open>bufferevent_read(bev, p, n)\<close>, which takes the first \<open>n\<close> bytes, or all when there are fewer.
\<close>

datatype frame =
    Short
  | Overrun
  | Packet string string

text \<open>
  \<open>sizeof(Head) + head.length\<close> is computed in \<open>size_t\<close>, and a negative \<open>head.length\<close> becomes a
  huge number of bytes to read. A body of more than 1024 bytes is written past the end of
  \<open>buffer\<close>; one of 1024 bytes without NUL makes \<open>std::string msg(buffer)\<close> read past it.
\<close>

definition next_frame :: "string \<Rightarrow> frame" where
  "next_frame input =
     (if length input < SIZEOF_HEAD then Short
      else let n = dec_int input in
        if int (length input) < u64 (int SIZEOF_HEAD + n) then Short
        else let rest = drop SIZEOF_HEAD input;
                 body = take (nat (u64 n)) rest
          in if BUF_LEN < length body \<or> length body = BUF_LEN \<and> NUL \<notin> set body then Overrun
             else Packet (cstr body) (drop (length body) rest))"

text \<open>The sender: \<open>head.length = strlen(s)\<close>, then the head, then \<open>head.length\<close> bytes.\<close>

definition frame_of :: "string \<Rightarrow> string" where
  "frame_of s = enc_int (int (length s)) @ s"

lemma next_frame_shorter: "next_frame input = Packet m rest \<Longrightarrow> length rest < length input"
  by (auto simp: next_frame_def Let_def SIZEOF_HEAD_def split: if_splits)

definition sendable :: "string \<Rightarrow> bool" where
  "sendable s \<longleftrightarrow> NUL \<notin> set s \<and> length s < BUF_LEN"

lemma next_frame_of:
  assumes "sendable s"
  shows "next_frame (frame_of s @ rest) = Packet s rest"
proof -
  have s: "NUL \<notin> set s" "length s < 1024" using assms by (auto simp: sendable_def BUF_LEN_def)
  have d: "dec_int (frame_of s @ rest) = int (length s)"
    unfolding frame_of_def append_assoc using s by (intro dec_enc_int) auto
  show ?thesis using s
    unfolding next_frame_def d by (simp add: frame_of_def SIZEOF_HEAD_def BUF_LEN_def Let_def)
qed

lemma next_frame_partial:
  assumes "sendable s" "length p < length (frame_of s)" "p = take (length p) (frame_of s)"
  shows "next_frame p = Short"
proof (cases "length p < 4")
  case True
  then show ?thesis by (simp add: next_frame_def SIZEOF_HEAD_def)
next
  case False
  have s: "length s < 1024" using assms by (auto simp: sendable_def BUF_LEN_def)
  have "p = enc_int (int (length s)) @ take (length p - 4) s"
    using assms(3) False by (simp add: frame_of_def)
  moreover have "dec_int (enc_int (int (length s)) @ take (length p - 4) s) = int (length s)"
    using s by (intro dec_enc_int) auto
  ultimately have "dec_int p = int (length s)" by simp
  then show ?thesis using assms(2) s False
    by (simp add: next_frame_def SIZEOF_HEAD_def frame_of_def)
qed

section \<open>The read loop\<close>

text \<open>
  The read callbacks are loops with the same frame around different bodies: take the next frame, do
  the body, stop when it says so. \<open>steps\<close> is the bodies alone, for the packets one after the other.
\<close>

fun steps :: "(string \<Rightarrow> 's \<Rightarrow> (bool \<times> 's) res) \<Rightarrow> string list \<Rightarrow> 's \<Rightarrow> (bool \<times> 's) res" where
  "steps body [] s = Inr (False, s)"
| "steps body (m # ms) s = bindE (body m s) (\<lambda>(stop, s). if stop then Inr (True, s) else steps body ms s)"

lemma steps_append:
  "steps body (ms @ ns) s = bindE (steps body ms s) (\<lambda>(stop, s). if stop then Inr (True, s) else steps body ns s)"
proof (induction ms arbitrary: s)
  case (Cons m ms)
  then show ?case by (cases "body m s") auto
qed simp

text \<open>The beginning of a frame.\<close>

definition unfinished :: "string \<Rightarrow> bool" where
  "unfinished p \<longleftrightarrow> (\<exists>s q. sendable s \<and> q \<noteq> [] \<and> p @ q = frame_of s)"

lemma unfinished_Short: "unfinished p \<Longrightarrow> next_frame p = Short"
proof -
  assume "unfinished p"
  then obtain s q where s: "sendable s" "q \<noteq> []" "p @ q = frame_of s" unfolding unfinished_def by blast
  show "next_frame p = Short"
  proof (rule next_frame_partial[OF s(1)])
    show "length p < length (frame_of s)" unfolding s(3)[symmetric] using s(2) by simp
    show "p = take (length p) (frame_of s)" unfolding s(3)[symmetric] by simp
  qed
qed

lemma unfinished_prefix: "unfinished (p @ q) \<Longrightarrow> unfinished p"
  by (auto simp: unfinished_def)

lemma unfinished_Nil [simp]: "unfinished []"
proof -
  have "sendable [] \<and> frame_of [] \<noteq> [] \<and> [] @ frame_of [] = frame_of []"
    by (simp add: sendable_def BUF_LEN_def frame_of_def enc_int_def)
  then show ?thesis unfolding unfinished_def by blast
qed

text \<open>A stream of frames that is cut anywhere is cut inside one frame.\<close>

lemma cut_frames:
  assumes "a @ b = concat (map frame_of ms) @ p" "\<forall>m\<in>set ms. sendable m" "unfinished p"
  shows "\<exists>ns ns' left. ms = ns @ ns' \<and> a = concat (map frame_of ns) @ left \<and> unfinished left \<and>
    left @ b = concat (map frame_of ns') @ p"
  using assms
proof (induction ms arbitrary: a)
  case Nil
  then show ?case using unfinished_prefix[of a b] by (intro exI[of _ "[]"] exI[of _ a]) simp
next
  case (Cons m ms)
  show ?case
  proof (cases "length a < length (frame_of m)")
    case True
    have "unfinished a" unfolding unfinished_def
    proof (intro exI conjI)
      show "a @ drop (length a) (frame_of m) = frame_of m"
        using Cons.prems(1) True by (metis append_eq_append_conv_if append_take_drop_id concat.simps(2) less_imp_le_nat list.map(2) append.assoc)
    qed (use Cons.prems True in auto)
    then show ?thesis using Cons.prems(1) by (intro exI[of _ "[]"] exI[of _ "m # ms"] exI[of _ a]) simp
  next
    case False
    have e: "a @ b = frame_of m @ concat (map frame_of ms) @ p" using Cons.prems(1) by simp
    define a' where "a' = drop (length (frame_of m)) a"
    have "take (length (frame_of m)) (a @ b) = frame_of m" unfolding e by simp
    then have a1: "a = frame_of m @ a'"
      using False append_take_drop_id[of "length (frame_of m)" a] by (simp add: a'_def)
    then have a: "a = frame_of m @ a'" "a' @ b = concat (map frame_of ms) @ p" using e by simp_all
    from Cons.IH[OF a(2)] Cons.prems(2,3) obtain ns ns' left where
      "ms = ns @ ns'" "a' = concat (map frame_of ns) @ left" "unfinished left" "left @ b = concat (map frame_of ns') @ p"
      by auto
    then show ?thesis using a(1) by (intro exI[of _ "m # ns"] exI[of _ ns'] exI[of _ left]) simp
  qed
qed

text \<open>A read event: bytes arrive behind those that were left, and the callback runs.\<close>

definition feed :: "(string \<Rightarrow> 's \<Rightarrow> (string \<times> 's) res) \<Rightarrow> string \<Rightarrow> string \<times> 's \<Rightarrow> (string \<times> 's) res" where
  "feed loop chunk x = loop (fst x @ chunk) (snd x)"

text \<open>
  The loop around a body; \<open>out\<close> is what it returns of its state. It keeps what the body keeps, and on
  a stream of frames it is the bodies in order, whatever pieces the stream arrives in.
\<close>

locale read_loop =
  fixes body :: "string \<Rightarrow> 's \<Rightarrow> (bool \<times> 's) res"
    and loop :: "string \<Rightarrow> 's \<Rightarrow> (string \<times> 't) res"
    and out :: "'s \<Rightarrow> 't"
  assumes loop_eq: "loop inp s =
     (case next_frame inp of
        Short \<Rightarrow> Inr (inp, out s)
      | Overrun \<Rightarrow> Inl Out_Of_Bounds
      | Packet msg rest \<Rightarrow>
          (case body msg s of
             Inl e \<Rightarrow> Inl e
           | Inr (stop, s) \<Rightarrow> if stop then Inr (rest, out s) else loop rest s))"
begin

lemma loop_Short: "next_frame inp = Short \<Longrightarrow> loop inp s = Inr (inp, out s)"
  by (subst loop_eq) simp

lemma loop_frame:
  "sendable m \<Longrightarrow> loop (frame_of m @ rest) s =
     (case body m s of Inl e \<Rightarrow> Inl e | Inr (stop, s) \<Rightarrow> if stop then Inr (rest, out s) else loop rest s)"
  by (subst loop_eq) (simp add: next_frame_of)

lemma loop_keeps:
  assumes body: "\<And>msg s. I s \<Longrightarrow> (case body msg s of Inl e \<Rightarrow> ok e | Inr (stop, s) \<Rightarrow> I s)" and "ok Out_Of_Bounds"
  shows "I s \<Longrightarrow> (case loop inp s of Inl e \<Rightarrow> ok e | Inr (rest, t) \<Rightarrow> \<exists>s'. t = out s' \<and> I s')"
proof (induction "length inp" arbitrary: inp s rule: less_induct)
  case less
  show ?case
  proof (cases "next_frame inp")
    case (Packet msg rest)
    show ?thesis
    proof (cases "body msg s")
      case (Inl e)
      then show ?thesis using body[OF less.prems, of msg] Packet by (subst loop_eq) simp
    next
      case (Inr x)
      then have "I (snd x)" using body[OF less.prems, of msg] by (cases x) auto
      then show ?thesis
        using less.hyps[OF next_frame_shorter[OF Packet]] Packet Inr by (subst loop_eq) (cases x, auto)
    qed
  qed (subst loop_eq, use less.prems assms(2) in auto)+
qed

lemma loop_InrD:
  assumes "loop inp s = Inr (rest, t)" "I s" "\<And>msg s stop s'. I s \<Longrightarrow> body msg s = Inr (stop, s') \<Longrightarrow> I s'"
  shows "\<exists>s'. t = out s' \<and> I s'"
proof -
  have "case body msg s of Inl e \<Rightarrow> True | Inr (stop, s) \<Rightarrow> I s" if "I s" for msg s
    using assms(3)[OF that] by (auto split: sum.splits)
  from loop_keeps[of I "\<lambda>_. True", OF this _ assms(2), of inp] show ?thesis by (simp add: assms(1))
qed

lemma loop_frames:
  assumes "\<forall>m\<in>set ms. sendable m" "next_frame p = Short" "\<And>s'. steps body ms s \<noteq> Inr (True, s')"
  shows "loop (concat (map frame_of ms) @ p) s = bindE (steps body ms s) (\<lambda>(stop, s). Inr (p, out s))"
  using assms(1,3)
proof (induction ms arbitrary: s)
  case Nil
  then show ?case by (simp add: loop_Short[OF assms(2)])
next
  case (Cons m ms)
  show ?case
  proof (cases "body m s")
    case (Inr x)
    moreover obtain stop s' where x: "x = (stop, s')" by (cases x)
    moreover have "\<not> stop" using Cons.prems(2)[of s'] Inr x by auto
    ultimately show ?thesis using Cons by (simp add: loop_frame)
  qed (use Cons.prems(1) in \<open>simp add: loop_frame\<close>)
qed

end

locale read_callback = read_loop body loop "\<lambda>s. s"
  for body :: "string \<Rightarrow> 's \<Rightarrow> (bool \<times> 's) res" and loop :: "string \<Rightarrow> 's \<Rightarrow> (string \<times> 's) res"
begin

lemma feed_pieces:
  assumes "left @ concat chunks = concat (map frame_of ms) @ p" "unfinished left" "unfinished p"
    and "\<forall>m\<in>set ms. sendable m" "\<And>s'. steps body ms s \<noteq> Inr (True, s')"
  shows "foldE (feed loop) chunks (left, s) = loop (left @ concat chunks) s"
  using assms
proof (induction chunks arbitrary: left s ms)
  case Nil
  then show ?case by (simp add: loop_Short unfinished_Short)
next
  case (Cons c cs)
  obtain ns ns' l where n: "ms = ns @ ns'" "left @ c = concat (map frame_of ns) @ l" "unfinished l"
    "l @ concat cs = concat (map frame_of ns') @ p"
    using cut_frames[of "left @ c" "concat cs" ms p] Cons.prems by auto
  have ns: "steps body ns s \<noteq> Inr (True, s')" for s' using Cons.prems(5)[of s'] by (auto simp: n(1) steps_append)
  have first: "loop (left @ c) s = bindE (steps body ns s) (\<lambda>(stop, s). Inr (l, s))"
    unfolding n(2) by (rule loop_frames) (use Cons.prems(4) n ns in \<open>auto simp: unfinished_Short\<close>)
  have now: "feed loop c (left, s) = bindE (steps body ns s) (\<lambda>(stop, s). Inr (l, s))"
    using first by (simp add: feed_def)
  have whole: "loop (left @ concat (c # cs)) s = bindE (steps body ms s) (\<lambda>(stop, s). Inr (p, s))"
    unfolding Cons.prems(1) by (rule loop_frames) (use Cons.prems in \<open>auto simp: unfinished_Short\<close>)
  show ?case
  proof (cases "steps body ns s")
    case (Inr x)
    then obtain s1 where s1: "steps body ns s = Inr (False, s1)" using ns by (cases x) auto
    have s2: "steps body ns' s1 \<noteq> Inr (True, s')" for s' using Cons.prems(5)[of s'] by (simp add: n(1) steps_append s1)
    have "foldE (feed loop) cs (l, s1) = loop (l @ concat cs) s1"
      using Cons.IH[OF n(4,3) Cons.prems(3) _ s2] Cons.prems(4) n(1) by simp
    also have "\<dots> = bindE (steps body ns' s1) (\<lambda>(stop, s). Inr (p, s))"
      unfolding n(4) by (rule loop_frames) (use Cons.prems(3,4) n(1) s2 in \<open>auto simp: unfinished_Short\<close>)
    finally show ?thesis unfolding whole by (simp add: now s1 n(1) steps_append)
  qed (unfold whole, simp add: now n(1) steps_append)
qed

end

end
