(* ===== verification/Http_Helper.thy ===== *)
theory Http_Helper
  imports Prelude
begin

text \<open>
  \<^verbatim>\<open>include/http_helper.h\<close>: the parser of the request line, of the content length and of a
  form body, and the builder of a response. \<open>std::string::npos\<close> is \<open>2^64 - 1\<close> and position
  arithmetic is \<open>size_t\<close>; \<open>substr\<close> throws when its start is past the end.
\<close>

section \<open>Standard library\<close>

definition npos :: int where "npos = 18446744073709551615"

definition str_find :: "string \<Rightarrow> char \<Rightarrow> nat \<Rightarrow> int" where
  "str_find s c from =
     (let i = find_index (\<lambda>x. x = c) (drop from s) in
      if from + i < length s then int (from + i) else npos)"

definition substr :: "string \<Rightarrow> int \<Rightarrow> int \<Rightarrow> string res" where
  "substr s pos n =
     (if pos > int (length s) then Inl Uncaught
      else Inr (take (nat n) (drop (nat pos) s)))"

text \<open>\<open>std::to_string\<close> of an \<open>int\<close> and \<open>atoi\<close>/\<open>std::stoi\<close> of a decimal numeral.\<close>

definition digit_char :: "nat \<Rightarrow> char" where
  "digit_char d = char_of (48 + d)"

fun show_nat :: "nat \<Rightarrow> string" where
  "show_nat n = (if n < 10 then [digit_char n] else show_nat (n div 10) @ [digit_char (n mod 10)])"

declare show_nat.simps [simp del]

definition to_string :: "int \<Rightarrow> string" where
  "to_string n = (if n < 0 then CHR ''-'' # show_nat (nat (- n)) else show_nat (nat n))"

definition is_digit :: "char \<Rightarrow> bool" where
  "is_digit c \<longleftrightarrow> (48::nat) \<le> of_char c \<and> of_char c \<le> (57::nat)"

definition digit_val :: "char \<Rightarrow> int" where
  "digit_val c = of_char c - 48"

definition read_digits :: "string \<Rightarrow> int" where
  "read_digits s = foldl (\<lambda>n c. 10 * n + digit_val c) 0 (takeWhile is_digit s)"

definition is_space :: "char \<Rightarrow> bool" where
  "is_space c \<longleftrightarrow> c = CHR '' '' \<or> (9::nat) \<le> of_char c \<and> of_char c \<le> (13::nat)"

text \<open>
  \<open>atoi\<close>: leading white space, an optional sign, the digits; 0 when there are none. The results
  the code can meet fit an \<open>int\<close>; the overflow of \<open>atoi\<close> is not modelled. \<open>stoi\<close> throws
  when there is no digit or the value leaves the range.
\<close>

definition split_sign :: "string \<Rightarrow> int \<times> string" where
  "split_sign s = (case s of [] \<Rightarrow> (1, [])
     | c # cs \<Rightarrow> if c = CHR ''-'' then (-1, cs) else if c = CHR ''+'' then (1, cs) else (1, s))"

definition atoi :: "string \<Rightarrow> int" where
  "atoi s = (let (sg, ds) = split_sign (dropWhile is_space s) in sg * read_digits ds)"

definition stoi :: "string \<Rightarrow> int res" where
  "stoi s = (let (sg, ds) = split_sign (dropWhile is_space s); v = sg * read_digits ds in
     if takeWhile is_digit ds = [] \<or> v < -2147483648 \<or> 2147483647 < v then Inl Uncaught else Inr v)"

lemma digit_char: "d < 10 \<Longrightarrow> is_digit (digit_char d) \<and> digit_val (digit_char d) = int d"
proof -
  assume d: "d < 10"
  have n: "of_char (digit_char d) = 48 + d" using d by (simp add: digit_char_def of_char_of)
  have "(of_char (digit_char d) :: int) = int (of_char (digit_char d))" by (simp only: of_nat_of_char)
  also have "\<dots> = 48 + int d" unfolding n by simp
  finally have i: "of_char (digit_char d) = 48 + int d" .
  show ?thesis unfolding is_digit_def digit_val_def n i using d by simp
qed

lemma show_nat_digits: "\<forall>c\<in>set (show_nat n). is_digit c"
proof (induction n rule: show_nat.induct)
  case (1 n)
  then show ?case by (subst show_nat.simps) (auto simp: digit_char)
qed

lemma show_nat_ne: "show_nat n \<noteq> []"
  by (subst show_nat.simps) simp

lemma length_show_nat: "0 < w \<Longrightarrow> n < 10 ^ w \<Longrightarrow> length (show_nat n) \<le> w"
proof (induction w arbitrary: n)
  case (Suc w)
  show ?case
  proof (cases "n < 10")
    case False
    then have "n div 10 < 10 ^ w" "0 < w" using Suc.prems by (auto intro: gr0I simp: less_mult_imp_div_less)
    then have "length (show_nat (n div 10)) \<le> w" using Suc.IH by blast
    then show ?thesis using False by (subst show_nat.simps) simp
  qed (subst show_nat.simps, simp)
qed simp

lemma foldl_digits_append: "foldl (\<lambda>n c. 10 * n + digit_val c) a (xs @ [c]) =
   10 * foldl (\<lambda>n c. 10 * n + digit_val c) a xs + digit_val c"
  by simp

lemma foldl_show_nat: "foldl (\<lambda>n c. 10 * n + digit_val c) 0 (show_nat n) = int n"
proof (induction n rule: show_nat.induct)
  case (1 n)
  show ?case
  proof (cases "n < 10")
    case True
    then show ?thesis by (subst show_nat.simps) (simp add: digit_char)
  next
    case False
    then have "foldl (\<lambda>n c. 10 * n + digit_val c) 0 (show_nat n) = 10 * int (n div 10) + int (n mod 10)"
      using 1 by (subst show_nat.simps) (simp add: digit_char)
    then show ?thesis by presburger
  qed
qed

lemma takeWhile_show_nat: "(\<forall>c\<in>set (take 1 t). \<not> is_digit c) \<Longrightarrow> takeWhile is_digit (show_nat n @ t) = show_nat n"
  using show_nat_digits[of n] by (cases t) (simp_all add: takeWhile_append2 takeWhile_tail)

lemma digit_not_sign: "is_digit c \<Longrightarrow> c \<noteq> CHR ''-'' \<and> c \<noteq> CHR ''+'' \<and> \<not> is_space c \<and> c \<noteq> CHR '':''"
  by (auto simp: is_digit_def is_space_def)

lemma read_show_nat: "read_digits (show_nat k) = int k" "takeWhile is_digit (show_nat k) = show_nat k"
proof -
  show "takeWhile is_digit (show_nat k) = show_nat k"
    using show_nat_digits by (simp add: takeWhile_eq_all_conv)
  then show "read_digits (show_nat k) = int k" by (simp only: read_digits_def foldl_show_nat)
qed

lemma split_to_string:
  "split_sign (dropWhile is_space (to_string n)) = (if n < 0 then (-1, show_nat (nat (- n))) else (1, show_nat (nat n)))"
proof -
  obtain c cs where c: "show_nat (nat n) = c # cs" using show_nat_ne by (cases "show_nat (nat n)") auto
  have "is_digit c" using show_nat_digits[of "nat n"] c by simp
  note nc = digit_not_sign[OF this]
  show ?thesis
  proof (cases "n < 0")
    case True
    then show ?thesis by (simp add: to_string_def split_sign_def is_space_def)
  next
    case False
    then show ?thesis using c nc by (simp add: to_string_def split_sign_def)
  qed
qed

lemma atoi_to_string: "atoi (to_string n) = n"
  by (simp add: atoi_def split_to_string read_show_nat)

lemma stoi_to_string: "- 2147483648 \<le> n \<Longrightarrow> n \<le> 2147483647 \<Longrightarrow> stoi (to_string n) = Inr n"
  using show_nat_ne by (simp add: stoi_def split_to_string read_show_nat)

lemma to_string_no_colon: "CHR '':'' \<notin> set (to_string n)" "NUL \<notin> set (to_string n)"
proof -
  have "\<not> is_digit NUL" by (simp add: is_digit_def)
  then show "CHR '':'' \<notin> set (to_string n)" "NUL \<notin> set (to_string n)"
    using show_nat_digits digit_not_sign by (auto simp: to_string_def)
qed

section \<open>Requests\<close>

definition CRLF :: string where "CRLF = [CHR 0x0D, CHR 0x0A]"

text \<open>\<open>line[pos_blank + 2]\<close>: the character at \<open>size()\<close> is NUL, beyond it the access is undefined.\<close>

definition ParseRequest :: "string \<Rightarrow> int res" where
  "ParseRequest line =
     (let pos_blank = str_find line (CHR '' '') 0 in
      bindE (substr line 0 pos_blank) (\<lambda>m.
      if m \<noteq> ''POST'' then Inr 400
      else let i = u64 (pos_blank + 2) in
        if i > int (length line) then Inl Out_Of_Bounds
        else if (line @ [NUL]) ! nat i \<noteq> CHR '' '' then Inr 403 else Inr 200))"

text \<open>\<open>std::search\<close> for CRLF in \<open>[last_end_of_line, header + len)\<close>: an offset, \<open>len\<close> when absent.\<close>

fun search_crlf :: "string \<Rightarrow> nat" where
  "search_crlf [] = 0"
| "search_crlf [c] = 1"
| "search_crlf (c # d # cs) = (if c = CHR 0x0D \<and> d = CHR 0x0A then 0 else Suc (search_crlf (d # cs)))"

text \<open>
  The loop of \<open>ParseContentLength\<close>; \<open>pos\<close> is \<open>last_end_of_line - header\<close>. Each round moves it
  by two at least.
\<close>

function parse_length_loop :: "string \<Rightarrow> nat \<Rightarrow> int res" where
  "parse_length_loop header pos =
     (if int pos < int (length header) - 2 then
        let end_of_line = pos + search_crlf (drop pos header);
            line = take (end_of_line - pos) (drop pos header);
            pos_colon = str_find line (CHR '':'') 0
        in bindE (substr line 0 pos_colon) (\<lambda>key.
           if key = ''Content-Length'' \<or> key = ''content-length'' then
             bindE (substr line (u64 (pos_colon + 1)) npos) stoi
           else parse_length_loop header (end_of_line + 2))
      else Inr (-1))"
  by pat_completeness auto
termination by (relation "measure (\<lambda>(h, p). length h - p)") auto

declare parse_length_loop.simps [simp del]

definition ParseContentLength :: "string \<Rightarrow> int res" where
  "ParseContentLength header = parse_length_loop header 0"

text \<open>The result is the pair of output parameters, \<open>None\<close> for one that is not assigned.\<close>

definition ParseBody :: "string \<Rightarrow> (string option \<times> string option) res" where
  "ParseBody line =
     bindE (substr line 0 8) (\<lambda>k.
     if k \<noteq> ''username'' then Inr (None, None)
     else let pos_and = str_find line (CHR ''&'') 8 in
       bindE (substr line 9 (u64 (pos_and - 9))) (\<lambda>user.
       bindE (substr line (u64 (pos_and + 1)) 6) (\<lambda>k.
       if k \<noteq> ''passwd'' then Inr (Some user, None)
       else bindE (substr line (u64 (pos_and + 8)) npos) (\<lambda>pw. Inr (Some user, Some pw)))))"

section \<open>Responses\<close>

definition code_status :: "nat \<Rightarrow> string" where
  "code_status i = [''OK'', ''Bad Request'', ''Forbidden''] ! i"

definition AddState :: "string \<Rightarrow> int \<Rightarrow> string" where
  "AddState msg code = msg @ ''HTTP/1.1 '' @ to_string code @ '' '' @
     (if code = 200 then code_status 0 else if code = 400 then code_status 1 else code_status 2) @ CRLF"

definition AddHeader :: "string \<Rightarrow> string" where
  "AddHeader msg = msg @ ''Connection: close'' @ CRLF @ ''Content-type: text/plain; charset=UTF-8'' @ CRLF"

definition AddContent :: "string \<Rightarrow> string \<Rightarrow> int \<Rightarrow> string" where
  "AddContent msg content len = msg @ ''Content-Length: '' @ to_string len @ CRLF @ CRLF @ content"

end
