(* ===== verification/Worker.thy ===== *)
theory Worker
  imports Ring_Queue Pool_Contract Framing Http_Helper Black_List
begin

text \<open>
  A worker process (the callbacks of \<open>processpool\<close> in \<^verbatim>\<open>include/pool.h\<close> that run after
  \<open>run_child\<close> has entered the event loop). Its state is the static members of the class as a
  worker has them after \<open>fork\<close>, with the two function-local \<open>static int count\<close>.

  Calls into libevent, sockets and System V queues appear in \<open>calls\<close>, in order; their results
  are the fields of \<open>env\<close>. A \<open>bufferevent\<close> is a handle; \<open>open_bevs\<close> are the handles created and
  not yet freed, and using another one is a fault. The events live in the memory pool: \<open>cells\<close>
  is the content of its memory at the addresses handed out, and reading or writing an address
  that is not (\<open>owned\<close>) is a fault. \<open>open_bevs\<close> and \<open>owned\<close> are auxiliary: no branch of the
  code depends on them. What \<open>MemoryPoolAlloc\<close> returns is not initialised: its content is
  \<open>e_uninit\<close>, and the member initialisers of \<open>cli_event\<close> do not run.

  JSON is a library: the operations the code uses are the fields of \<open>json_lib\<close>, over an
  arbitrary type of values; those that can throw return a fault.
\<close>

section \<open>State\<close>

datatype call =
    BevWrite nat string
  | BevFree nat
  | CloseFd int
  | MsgSnd message
  | Connect string int
  | LoopBreak
  | FreeRegion int

record worker =
  m_idx :: int
  client_map :: "(int \<times> client_information) list"
  client_id :: int
  m_Serverlist :: "(int \<times> nat) list"
  m_server_info :: "(nat \<times> string) list"
  msg_queue :: "int ring"
  fin_queue :: "int ring"
  mp :: MemoryPool
  cells :: "int \<Rightarrow> cli_event"
  read_count :: int
  resend_count :: int
  calls :: "call list"
  owned :: "int set"
  open_bevs :: "nat set"

record env =
  e_now :: int
  e_malloc :: malloc
  e_uninit :: "int \<Rightarrow> cli_event"
  e_bev :: nat
  e_accept :: "(int \<times> string) option"
  e_connect :: "string \<Rightarrow> int \<Rightarrow> int option"

record 'j json_lib =
  j_parse :: "string \<Rightarrow> 'j option"
  j_styled :: "'j \<Rightarrow> string"
  j_set :: "string \<Rightarrow> int \<Rightarrow> 'j \<Rightarrow> 'j res"
  j_int :: "string \<Rightarrow> 'j \<Rightarrow> int res"
  j_remove :: "string \<Rightarrow> 'j \<Rightarrow> 'j res"

text \<open>The static members as the program starts (\<open>pool\<close> is what \<open>MemoryPoolInit\<close> returned).\<close>

definition init_worker :: "int \<Rightarrow> MemoryPool \<Rightarrow> (int \<Rightarrow> cli_event) \<Rightarrow> worker" where
  "init_worker idx pool mem0 = \<lparr>m_idx = idx, client_map = [], client_id = 0, m_Serverlist = [],
     m_server_info = [], msg_queue = empty_ring 0, fin_queue = empty_ring 0, mp = pool,
     cells = mem0, read_count = 0, resend_count = 0, calls = [], owned = {}, open_bevs = {}\<rparr>"

section \<open>Primitive statements\<close>

definition emit :: "call \<Rightarrow> worker \<Rightarrow> worker" where
  "emit c w = w\<lparr>calls := calls w @ [c]\<rparr>"

definition open_bev :: "nat \<Rightarrow> worker \<Rightarrow> worker" where
  "open_bev b w = w\<lparr>open_bevs := insert b (open_bevs w)\<rparr>"

definition bev_write :: "nat \<Rightarrow> string \<Rightarrow> worker \<Rightarrow> worker res" where
  "bev_write b s w = (if b \<in> open_bevs w then Inr (emit (BevWrite b s) w) else Inl Dangling)"

definition bev_free :: "nat \<Rightarrow> worker \<Rightarrow> worker res" where
  "bev_free b w =
     (if b \<in> open_bevs w then Inr (emit (BevFree b) (w\<lparr>open_bevs := open_bevs w - {b}\<rparr>)) else Inl Dangling)"

definition deref :: "worker \<Rightarrow> int \<Rightarrow> cli_event res" where
  "deref w p = (if p = 0 then Inl Null_Deref else if p \<notin> owned w then Inl Dangling else Inr (cells w p))"

definition put_ev :: "int \<Rightarrow> (cli_event \<Rightarrow> cli_event) \<Rightarrow> worker \<Rightarrow> worker res" where
  "put_ev p f w = bindE (deref w p) (\<lambda>e. Inr (w\<lparr>cells := (cells w)(p := f e)\<rparr>))"

text \<open>\<open>(cli_event * )MemoryPoolAlloc(mp, sizeof(cli_event))\<close> and \<open>MemoryPoolFree(mp, p)\<close>.\<close>

definition alloc_ev :: "env \<Rightarrow> worker \<Rightarrow> (int \<times> worker) res" where
  "alloc_ev env w =
     bindE (pool_alloc (e_malloc env) (mp w) SIZEOF_CLI_EVENT) (\<lambda>(p, m).
     Inr (p, if p = 0 then w\<lparr>mp := m\<rparr>
             else w\<lparr>mp := m, owned := insert p (owned w), cells := (cells w)(p := e_uninit env p)\<rparr>))"

definition free_ev :: "int \<Rightarrow> worker \<Rightarrow> worker res" where
  "free_ev p w =
     bindE (pool_free (mp w) p) (\<lambda>(r, m). Inr (w\<lparr>mp := m, owned := owned w - {p}\<rparr>))"

text \<open>
  \<open>client_map[c_id]\<close> used as a pointer: on an absent key \<open>operator[]\<close> inserts NULL and the use
  that follows dereferences it.
\<close>

definition get_client :: "worker \<Rightarrow> int \<Rightarrow> client_information res" where
  "get_client w c = (case map_of (client_map w) c of None \<Rightarrow> Inl Null_Deref | Some ci \<Rightarrow> Inr ci)"

definition mod_client :: "int \<Rightarrow> (client_information \<Rightarrow> client_information) \<Rightarrow> worker \<Rightarrow> worker res" where
  "mod_client c f w = bindE (get_client w c) (\<lambda>ci. Inr (w\<lparr>client_map := AList.update c (f ci) (client_map w)\<rparr>))"

definition drop_client :: "int \<Rightarrow> worker \<Rightarrow> worker" where
  "drop_client c w = w\<lparr>client_map := AList.delete c (client_map w)\<rparr>"

text \<open>\<open>std::map::insert\<close> keeps the value of a key that is there.\<close>

definition map_insert :: "'k \<Rightarrow> 'v \<Rightarrow> ('k \<times> 'v) list \<Rightarrow> ('k \<times> 'v) list" where
  "map_insert k v m = (case map_of m k of None \<Rightarrow> m @ [(k, v)] | Some _ \<Rightarrow> m)"

definition push_msg :: "int \<Rightarrow> worker \<Rightarrow> worker res" where
  "push_msg p w = bindE (ring_push p (msg_queue w)) (\<lambda>q. Inr (w\<lparr>msg_queue := q\<rparr>))"

definition push_fin :: "int \<Rightarrow> worker \<Rightarrow> worker res" where
  "push_fin p w = bindE (ring_push p (fin_queue w)) (\<lambda>q. Inr (w\<lparr>fin_queue := q\<rparr>))"

definition pop_msg :: "worker \<Rightarrow> worker" where
  "pop_msg w = w\<lparr>msg_queue := ring_pop (msg_queue w)\<rparr>"

definition pop_fin :: "worker \<Rightarrow> worker" where
  "pop_fin w = w\<lparr>fin_queue := ring_pop (fin_queue w)\<rparr>"

section \<open>Commands of the main process\<close>

definition ip_port :: "string \<Rightarrow> int \<Rightarrow> string" where
  "ip_port ip port = ip @ '':'' @ to_string port"

text \<open>
  \<open>char *ip = server_add.ip\<close>: the C string at the array, which runs on into \<open>token\<close> when the
  20 bytes hold no NUL.
\<close>

definition c_ip :: "address \<Rightarrow> string" where
  "c_ip a = cstr (addr_ip a @ addr_token a)"

text \<open>Command 1: \<open>accept\<close>, the black list, and a new client.\<close>

definition new_client :: "env \<Rightarrow> string \<Rightarrow> worker \<Rightarrow> worker res" where
  "new_client env ip w =
     (let bev = e_bev env; c = client_id w in
      bindE (alloc_ev env (open_bev bev w)) (\<lambda>(p, w).
      bindE (put_ev p (\<lambda>e. e\<lparr>arr_time := e_now env\<rparr>) w) (\<lambda>w.
      bindE (put_ev p (\<lambda>e. e\<lparr>ev_bev := bev\<rparr>) w) (\<lambda>w.
      bindE (put_ev p (\<lambda>e. e\<lparr>usr_uuid := s32 c\<rparr>) w) (\<lambda>w.
      bindE (push_msg p w) (\<lambda>w.
      Inr (w\<lparr>client_map := map_insert c ((new_client_information bev ip)\<lparr>cli_event_map := [(0, p)]\<rparr>) (client_map w),
             client_id := u32 (c + 1)\<rparr>)))))))"

definition accept_client :: "env \<Rightarrow> worker \<times> Hhei_Ming_Dan \<Rightarrow> (worker \<times> Hhei_Ming_Dan) res" where
  "accept_client env wh =
     (let w = fst wh; h = (snd wh)\<lparr>accept_flag := True\<rparr> in
      case e_accept env of
        None \<Rightarrow> Inr (w, h)
      | Some (sockfd, ip) \<Rightarrow>
          bindE (verify_client_ip h ip) (\<lambda>bad.
          if bad then Inr (emit (CloseFd sockfd) w, h)
          else bindE (new_client env ip w) (\<lambda>w. Inr (w, h))))"

text \<open>
  The address that follows commands 2 and 3. The pipe holds the bytes \<open>inp\<close>: \<open>recv\<close> blocks
  when there are none, and returns what there is when there are fewer than asked.
\<close>

definition recv_address :: "string \<Rightarrow> (address \<times> string) res" where
  "recv_address inp =
     (if inp = [] then Inl Blocked
      else if length inp < 4 then Inl Assert_Failed
      else let n = dec_int inp; rest = drop 4 inp; bs = take (nat (u64 n)) rest in
        if rest = [] \<and> u64 n \<noteq> 0 then Inl Blocked
        else bindE (fill_address (new_address 0) bs) (\<lambda>a. Inr (a, drop (length bs) rest)))"

text \<open>Command 2: connect to the server; without success the worker goes on without it.\<close>

definition add_server :: "env \<Rightarrow> address \<Rightarrow> worker \<Rightarrow> worker" where
  "add_server env a w =
     (let ip = c_ip a; port = addr_port a; w = emit (Connect ip port) w in
      case e_connect env ip port of
        None \<Rightarrow> w
      | Some sockfd \<Rightarrow>
          (open_bev (e_bev env) w)
            \<lparr>m_Serverlist := m_Serverlist w @ [(sockfd, e_bev env)],
             m_server_info := m_server_info w @ [(e_bev env, ip_port ip port)]\<rparr>)"

text \<open>
  Command 3: the index is found in \<open>m_server_info\<close> and used in \<open>m_Serverlist\<close>;
  \<open>m_server_info\<close> keeps its entry.
\<close>

definition remove_server :: "address \<Rightarrow> worker \<Rightarrow> worker res" where
  "remove_server a w =
     (let ipPort = ip_port (c_ip a) (addr_port a);
          ind = find_index (\<lambda>x. snd x = ipPort) (m_server_info w) in
      if ind < length (m_server_info w) then
        bindE (swap_pop (m_Serverlist w) ind) (\<lambda>l.
        bev_free (fst (m_server_info w ! ind)) (w\<lparr>m_Serverlist := l\<rparr>))
      else Inr w)"

text \<open>Command 4: everything is released and the event loop left.\<close>

definition shut_down :: "worker \<Rightarrow> worker res" where
  "shut_down w =
     bindE (foldE (\<lambda>x. bev_free (cl_bev (snd x))) (client_map w) w) (\<lambda>w.
     bindE (foldE (\<lambda>x. bev_free (snd x)) (m_Serverlist w) w) (\<lambda>w.
     let w = emit LoopBreak w in
     bindE (MemoryPoolClear (mp w)) (\<lambda>m.
     bindE (MemoryPoolDestroy m) (\<lambda>(r, regions).
     Inr (w\<lparr>mp := m, calls := calls w @ map FreeRegion regions, owned := {}\<rparr>)))))"

text \<open>The bytes left in the pipe are returned with the state.\<close>

definition pipe_event_CallBack ::
    "env \<Rightarrow> string \<Rightarrow> worker \<times> Hhei_Ming_Dan \<Rightarrow> (string \<times> worker \<times> Hhei_Ming_Dan) res" where
  "pipe_event_CallBack env inp wh =
     (if inp = [] then Inr (inp, wh)
      else if length inp < 4 then Inl Uninit
      else let message = dec_int inp; inp = drop 4 inp; (w, h) = wh in
        if message = 1 then bindE (accept_client env wh) (\<lambda>wh. Inr (inp, wh))
        else if message = 2 then
          bindE (recv_address inp) (\<lambda>(a, inp). Inr (inp, add_server env a w, h))
        else if message = 3 then
          bindE (recv_address inp) (\<lambda>(a, inp). bindE (remove_server a w) (\<lambda>w. Inr (inp, w, h)))
        else if message = 4 then bindE (shut_down w) (\<lambda>w. Inr (inp, w, h))
        else Inr (inp, wh))"

section \<open>Requests of the clients\<close>

text \<open>\<open>current_limit\<close>: ten packets between two resets of the count.\<close>

definition current_limit :: "int \<Rightarrow> worker \<Rightarrow> (bool \<times> worker) res" where
  "current_limit c w =
     bindE (get_client w c) (\<lambda>ci.
     bindE (mod_client c (\<lambda>ci. ci\<lparr>cl_count := cl_count ci + 1\<rparr>) w) (\<lambda>w.
     if cl_count ci < 10 then Inr (True, w)
     else
       bindE (mod_client c (\<lambda>ci. ci\<lparr>close_flag := True\<rparr>) w) (\<lambda>w.
       bindE (strcpy_at (replicate 20 NUL) 0 (cl_ip ci)) (\<lambda>ip.
       Inr (False, emit (MsgSnd \<lparr>msg_type = 2, msg_port = 0, msg_ip = cstr ip, process_id = m_idx w\<rparr>) w)))))"

text \<open>
  One packet, from \<open>reader.parse\<close> to the end of the loop body; the boolean tells that the
  callback returns. The packet is forwarded to the next server in turn, the idle record of the
  client is replaced by a new one, and the request is cached for being sent again.
\<close>

definition forward_request :: "'j json_lib \<Rightarrow> int \<Rightarrow> 'j \<Rightarrow> worker \<Rightarrow> (string \<times> worker) res" where
  "forward_request J c v w =
     bindE (j_set J ''client_sock'' c v) (\<lambda>v.
     bindE (mod_client c (\<lambda>ci. ci\<lparr>pack_id := pack_id ci + 1\<rparr>) w) (\<lambda>w.
     bindE (get_client w c) (\<lambda>ci.
     bindE (j_set J ''pack_id'' (pack_id ci) v) (\<lambda>v.
     let txt = cstr (j_styled J v); bev = snd (m_Serverlist w ! nat (read_count w)) in
     bindE (bev_write bev (enc_int (int (length txt))) w) (\<lambda>w.
     bindE (bev_write bev txt w) (\<lambda>w.
     Inr (txt, w\<lparr>read_count := read_count w + 1\<rparr>)))))))"

definition renew_idle :: "env \<Rightarrow> int \<Rightarrow> worker \<Rightarrow> worker res" where
  "renew_idle env c w =
     bindE (get_client w c) (\<lambda>ci.
     case map_of (cli_event_map ci) 0 of
       None \<Rightarrow> Inl Null_Deref
     | Some old \<Rightarrow>
         bindE (put_ev old (\<lambda>e. e\<lparr>msg_flag := True\<rparr>) w) (\<lambda>w.
         bindE (alloc_ev env w) (\<lambda>(p, w).
         bindE (put_ev p (\<lambda>e. e\<lparr>arr_time := e_now env\<rparr>) w) (\<lambda>w.
         bindE (put_ev p (\<lambda>e. e\<lparr>usr_uuid := s32 c\<rparr>) w) (\<lambda>w.
         bindE (deref w old) (\<lambda>e0.
         bindE (put_ev p (\<lambda>e. e\<lparr>ev_bev := ev_bev e0\<rparr>) w) (\<lambda>w.
         bindE (mod_client c (\<lambda>ci. ci\<lparr>cli_event_map := AList.update 0 p (cli_event_map ci)\<rparr>) w) (\<lambda>w.
         push_msg p w))))))))"

definition cache_request :: "env \<Rightarrow> int \<Rightarrow> string \<Rightarrow> worker \<Rightarrow> worker res" where
  "cache_request env c txt w =
     bindE (alloc_ev env w) (\<lambda>(p, w).
     bindE (put_ev p (\<lambda>e. e\<lparr>head_length := int (length txt)\<rparr>) w) (\<lambda>w.
     bindE (put_ev p (\<lambda>e. e\<lparr>usr_uuid := s32 c\<rparr>) w) (\<lambda>w.
     bindE (guardE Out_Of_Bounds (length txt < 1024)) (\<lambda>_.
     bindE (put_ev p (\<lambda>e. e\<lparr>c_info := txt\<rparr>) w) (\<lambda>w.
     bindE (put_ev p (\<lambda>e. e\<lparr>arr_time := e_now env\<rparr>) w) (\<lambda>w.
     bindE (mod_client c (\<lambda>ci. ci\<lparr>cli_event_map := map_insert (pack_id ci) p (cli_event_map ci)\<rparr>) w) (\<lambda>w.
     push_fin p w)))))))"

definition client_packet :: "'j json_lib \<Rightarrow> env \<Rightarrow> int \<Rightarrow> string \<Rightarrow> worker \<Rightarrow> (bool \<times> worker) res" where
  "client_packet J env c msg w =
     (case j_parse J msg of
        None \<Rightarrow> Inr (True, w)
      | Some v \<Rightarrow>
          if m_Serverlist w = [] then Inl Div_By_Zero
          else
            let w = w\<lparr>read_count := read_count w mod int (length (m_Serverlist w))\<rparr> in
            bindE (current_limit c w) (\<lambda>(ok, w).
            if \<not> ok then Inr (True, w)
            else
              bindE (forward_request J c v w) (\<lambda>(txt, w).
              bindE (renew_idle env c w) (\<lambda>w.
              bindE (cache_request env c txt w) (\<lambda>w. Inr (False, w))))))"

text \<open>
  The loop of \<open>client_socket_read_cb\<close>; the input buffer is an argument, and what is left of it
  is returned with the state.
\<close>

function client_read_loop ::
    "'j json_lib \<Rightarrow> env \<Rightarrow> int \<Rightarrow> string \<Rightarrow> worker \<Rightarrow> (string \<times> worker) res" where
  "client_read_loop J env c inp w =
     (case next_frame inp of
        Short \<Rightarrow> Inr (inp, w)
      | Overrun \<Rightarrow> Inl Out_Of_Bounds
      | Packet msg rest \<Rightarrow>
          (case client_packet J env c msg w of
             Inl e \<Rightarrow> Inl e
           | Inr (stop, w) \<Rightarrow> if stop then Inr (rest, w) else client_read_loop J env c rest w))"
  by pat_completeness auto
termination by (relation "measure (\<lambda>(J, env, c, inp, w). length inp)") (auto dest: next_frame_shorter)

declare client_read_loop.simps [simp del]

interpretation requests: read_callback "client_packet J env c" "client_read_loop J env c" for J env c
  by unfold_locales (rule client_read_loop.simps)

definition client_socket_read_cb ::
    "'j json_lib \<Rightarrow> env \<Rightarrow> int \<Rightarrow> string \<Rightarrow> worker \<Rightarrow> (string \<times> worker) res" where
  "client_socket_read_cb J env arg inp w =
     (let c = u32 arg in
      bindE (get_client w c) (\<lambda>ci.
      if close_flag ci then Inr (inp, w) else client_read_loop J env c inp w))"

text \<open>
  The client hung up. \<open>delete client_map[c_id]\<close> deletes NULL for an absent client, and the
  entry it inserted is erased again.
\<close>

definition client_event_cb :: "nat \<Rightarrow> int \<Rightarrow> worker \<Rightarrow> worker res" where
  "client_event_cb bev arg w = bindE (bev_free bev w) (\<lambda>w. Inr (drop_client (u32 arg) w))"

section \<open>Replies of the servers\<close>

definition server_packet :: "'j json_lib \<Rightarrow> string \<Rightarrow> worker \<Rightarrow> (bool \<times> worker) res" where
  "server_packet J msg w =
     (case j_parse J msg of
        None \<Rightarrow> Inr (True, w)
      | Some v \<Rightarrow>
          bindE (j_int J ''client_sock'' v) (\<lambda>cs.
          bindE (j_int J ''pack_id'' v) (\<lambda>pack.
          bindE (j_remove J ''client_sock'' v) (\<lambda>v.
          bindE (j_remove J ''pack_id'' v) (\<lambda>v.
          let c = u32 cs; txt = cstr (j_styled J v) in
          case map_of (client_map w) c of
            None \<Rightarrow> Inr (False, w)
          | Some ci \<Rightarrow>
              (case map_of (cli_event_map ci) pack of
                 None \<Rightarrow> Inr (False, w)
               | Some p \<Rightarrow>
                   bindE (bev_write (cl_bev ci) (enc_int (int (length txt))) w) (\<lambda>w.
                   bindE (bev_write (cl_bev ci) txt w) (\<lambda>w.
                   bindE (put_ev p (\<lambda>e. e\<lparr>finish_flag := True\<rparr>) w) (\<lambda>w.
                   bindE (mod_client c (\<lambda>ci. ci\<lparr>cli_event_map := AList.delete pack (cli_event_map ci)\<rparr>) w) (\<lambda>w.
                   Inr (False, w)))))))))))"

function work_server_socket_read_cb :: "'j json_lib \<Rightarrow> string \<Rightarrow> worker \<Rightarrow> (string \<times> worker) res" where
  "work_server_socket_read_cb J inp w =
     (case next_frame inp of
        Short \<Rightarrow> Inr (inp, w)
      | Overrun \<Rightarrow> Inl Out_Of_Bounds
      | Packet msg rest \<Rightarrow>
          (case server_packet J msg w of
             Inl e \<Rightarrow> Inl e
           | Inr (stop, w) \<Rightarrow> if stop then Inr (rest, w) else work_server_socket_read_cb J rest w))"
  by pat_completeness auto
termination by (relation "measure (\<lambda>(J, inp, w). length inp)") (auto dest: next_frame_shorter)

declare work_server_socket_read_cb.simps [simp del]

interpretation replies: read_callback "server_packet J" "work_server_socket_read_cb J" for J
  by unfold_locales (rule work_server_socket_read_cb.simps)

text \<open>
  A server hung up; \<open>fd\<close> is \<open>bufferevent_getfd(bev)\<close>. The main process is told the address,
  taken apart from \<open>ip:port\<close> again.
\<close>

definition split_ip_port :: "string \<Rightarrow> (string \<times> int) res" where
  "split_ip_port s =
     (let k = str_find s (CHR '':'') 0 in
      bindE (substr s 0 k) (\<lambda>ip.
      bindE (substr s (u64 (k + 1)) (int (length s))) (\<lambda>pt. Inr (ip, atoi pt))))"

definition work_server_event_cb :: "int \<Rightarrow> nat \<Rightarrow> worker \<Rightarrow> worker res" where
  "work_server_event_cb fd bev w =
     bindE (swap_pop (m_Serverlist w) (find_index (\<lambda>x. fst x = fd) (m_Serverlist w))) (\<lambda>l.
     let ind = find_index (\<lambda>x. fst x = bev) (m_server_info w);
         ipPort = (if ind < length (m_server_info w) then snd (m_server_info w ! ind) else []) in
     bindE (swap_pop (m_server_info w) ind) (\<lambda>si.
     bindE (bev_free bev (w\<lparr>m_Serverlist := l, m_server_info := si\<rparr>)) (\<lambda>w.
     bindE (split_ip_port ipPort) (\<lambda>(ip, port).
     bindE (strcpy_at (replicate 20 NUL) 0 ip) (\<lambda>ip.
     Inr (emit (MsgSnd \<lparr>msg_type = 1, msg_port = port, msg_ip = cstr ip, process_id = m_idx w\<rparr>) w))))))"

section \<open>Timers\<close>

text \<open>One round of the first loop of \<open>check_time_out_cb\<close>; the boolean tells that the loop ends.\<close>

definition idle_round :: "int \<Rightarrow> worker \<Rightarrow> (bool \<times> worker) res" where
  "idle_round now w =
     (if ring_empty (msg_queue w) then Inr (True, w)
      else
        let p = ring_front (msg_queue w) in
        bindE (deref w p) (\<lambda>e.
        if map_of (client_map w) (u32 (usr_uuid e)) = None then
          bindE (free_ev p w) (\<lambda>w. Inr (False, pop_msg w))
        else if now - arr_time e > MSG_TIMEOUT then
          bindE (if msg_flag e then Inr w
                 else bindE (bev_free (ev_bev e) w) (\<lambda>w. Inr (drop_client (u32 (usr_uuid e)) w))) (\<lambda>w.
          bindE (free_ev p w) (\<lambda>w. Inr (False, pop_msg w)))
        else Inr (True, w)))"

text \<open>One round of the second loop.\<close>

definition resend :: "int \<Rightarrow> int \<Rightarrow> worker \<Rightarrow> worker res" where
  "resend now p w =
     bindE (guardE Div_By_Zero (m_Serverlist w \<noteq> [])) (\<lambda>_.
     let k = resend_count w mod int (length (m_Serverlist w)); bev = snd (m_Serverlist w ! nat k) in
     bindE (deref w p) (\<lambda>e.
     bindE (bev_write bev (enc_int (head_length e)) w) (\<lambda>w.
     bindE (bev_write bev (take (nat (head_length e)) (c_info e)) w) (\<lambda>w.
     bindE (put_ev p (\<lambda>e. e\<lparr>arr_time := now\<rparr>) (w\<lparr>resend_count := k + 1\<rparr>)) (\<lambda>w.
     push_fin p w)))))"

definition fin_round :: "int \<Rightarrow> worker \<Rightarrow> (bool \<times> worker) res" where
  "fin_round now w =
     (if ring_empty (fin_queue w) then Inr (True, w)
      else
        let p = ring_front (fin_queue w) in
        bindE (deref w p) (\<lambda>e.
        if map_of (client_map w) (u32 (usr_uuid e)) = None then
          bindE (free_ev p w) (\<lambda>w. Inr (False, pop_fin w))
        else if now - arr_time e > FIN_TIMEOUT then
          bindE (if \<not> finish_flag e then resend now p w else free_ev p w) (\<lambda>w. Inr (False, pop_fin w))
        else Inr (True, w)))"

text \<open>\<open>while (true && ...)\<close>: \<^term>\<open>None\<close> is a loop that does not end.\<close>

partial_function (option) run_rounds :: "(worker \<Rightarrow> (bool \<times> worker) res) \<Rightarrow> worker \<Rightarrow> worker res option" where
  "run_rounds f w =
     (case f w of
        Inl e \<Rightarrow> Some (Inl e)
      | Inr (stop, w') \<Rightarrow> if stop then Some (Inr w') else run_rounds f w')"

definition check_time_out_cb :: "int \<Rightarrow> worker \<Rightarrow> worker res option" where
  "check_time_out_cb now w =
     (case run_rounds (idle_round now) w of
        None \<Rightarrow> None
      | Some (Inl e) \<Rightarrow> Some (Inl e)
      | Some (Inr w) \<Rightarrow> run_rounds (fin_round now) w)"

text \<open>
  \<open>empty_count_cb\<close> walks the map in key order. It erases a client with \<open>close_flag\<close> set and
  then increments the erased iterator.
\<close>

fun empty_count_loop :: "int list \<Rightarrow> worker \<Rightarrow> worker res" where
  "empty_count_loop [] w = Inr w"
| "empty_count_loop (c # cs) w =
     bindE (get_client w c) (\<lambda>ci.
     if close_flag ci then
       bindE (bev_free (cl_bev ci) w) (\<lambda>w. Inl Bad_Iterator)
     else bindE (mod_client c (\<lambda>ci. ci\<lparr>cl_count := 0\<rparr>) w) (empty_count_loop cs))"

definition empty_count_cb :: "worker \<Rightarrow> worker res" where
  "empty_count_cb w = empty_count_loop (map fst (client_map w)) w"

section \<open>Start of a worker\<close>

text \<open>
  The loop of \<open>run_child\<close> over the servers listed as up; each comes with the result of
  \<open>connect\<close> and the handle created. A failed connection is reported with a \<open>process_id\<close> that
  was never set (\<open>junk\<close>). The boolean tells whether the worker goes on to its event loop;
  \<open>snd_ok\<close> is whether \<open>msgsnd\<close> succeeds.
\<close>

fun connect_servers :: "int \<Rightarrow> bool \<Rightarrow> (string \<times> int \<times> int option \<times> nat) list \<Rightarrow> worker \<Rightarrow> (bool \<times> worker) res" where
  "connect_servers junk snd_ok [] w = Inr (True, w)"
| "connect_servers junk snd_ok ((ip, port, conn, bev) # xs) w =
     bindE (strcpy_at (replicate 20 NUL) 0 ip) (\<lambda>_.
     let w = emit (Connect ip port) w in
     case conn of
       None \<Rightarrow>
         let w = emit (MsgSnd \<lparr>msg_type = 1, msg_port = port, msg_ip = ip, process_id = junk\<rparr>) w in
         if snd_ok then connect_servers junk snd_ok xs w else Inr (False, w)
     | Some sockfd \<Rightarrow>
         connect_servers junk snd_ok xs
           ((open_bev bev w)\<lparr>m_Serverlist := m_Serverlist w @ [(sockfd, bev)],
              m_server_info := m_server_info w @ [(bev, ip_port ip port)]\<rparr>))"

end
