(* ===== verification/Worker_Inv.thy ===== *)
theory Worker_Inv
  imports Worker
begin

text \<open>
  The invariant of a worker and its preservation by the callbacks: every event of the pool is on
  exactly one of the two queues, what \<open>client_map\<close> refers to is on them and belongs to the
  client, and no handle is used after it was freed. \<open>ok_res P r\<close> says that a statement neither
  uses freed memory or a freed handle nor loops for ever, and that \<open>P\<close> holds when it ends
  normally.
\<close>

declare map_of_eq_Some_iff [simp del] Some_eq_map_of_iff [simp del]

section \<open>Outcomes\<close>

definition ok_res :: "('a \<Rightarrow> bool) \<Rightarrow> 'a res \<Rightarrow> bool" where
  "ok_res P r \<longleftrightarrow> (case r of Inl e \<Rightarrow> e \<noteq> Dangling \<and> e \<noteq> Diverges | Inr x \<Rightarrow> P x)"

lemma ok_res_Inr [simp]: "ok_res P (Inr x) = P x"
  by (simp add: ok_res_def)

lemma ok_res_Inl [simp]: "ok_res P (Inl e) = (e \<noteq> Dangling \<and> e \<noteq> Diverges)"
  by (simp add: ok_res_def)

lemma ok_res_bind: "ok_res P r \<Longrightarrow> (\<And>x. P x \<Longrightarrow> ok_res Q (f x)) \<Longrightarrow> ok_res Q (bindE r f)"
  by (cases r) (auto simp: ok_res_def)

lemma ok_res_bind': "ok_res (\<lambda>x. ok_res Q (f x)) r \<Longrightarrow> ok_res Q (bindE r f)"
  by (cases r) (auto simp: ok_res_def)

lemma ok_res_mono: "ok_res P r \<Longrightarrow> (\<And>x. P x \<Longrightarrow> Q x) \<Longrightarrow> ok_res Q r"
  by (cases r) (auto simp: ok_res_def)

section \<open>The invariant\<close>

abbreviation M :: "worker \<Rightarrow> int list" where "M w \<equiv> ring_items (msg_queue w)"
abbreviation F :: "worker \<Rightarrow> int list" where "F w \<equiv> ring_items (fin_queue w)"

definition pool_part :: "worker \<Rightarrow> bool" where
  "pool_part w \<longleftrightarrow> pool_ok (mp w) \<and> owned w = fst ` live (mp w)"

text \<open>\<open>D\<close> are events allocated and not yet queued.\<close>

definition queue_part :: "int set \<Rightarrow> worker \<Rightarrow> bool" where
  "queue_part D w \<longleftrightarrow> ring_inv (msg_queue w) \<and> ring_inv (fin_queue w) \<and> distinct (M w @ F w) \<and>
     set (M w @ F w) \<union> D = owned w \<and> D \<inter> set (M w @ F w) = {}"

text \<open>Every server has an entry with its address; there may be entries of servers that are gone.\<close>

definition server_part :: "worker \<Rightarrow> bool" where
  "server_part w \<longleftrightarrow> distinct (map fst (m_Serverlist w)) \<and> distinct (map snd (m_Serverlist w)) \<and>
     set (map snd (m_Serverlist w)) \<subseteq> open_bevs w \<and> set (map snd (m_Serverlist w)) \<subseteq> set (map fst (m_server_info w))"

definition bev_part :: "worker \<Rightarrow> bool" where
  "bev_part w \<longleftrightarrow>
     (\<forall>c ci. map_of (client_map w) c = Some ci \<longrightarrow>
        cl_bev ci \<in> open_bevs w \<and> cl_bev ci \<notin> set (map snd (m_Serverlist w)) \<and>
        (\<forall>d di. map_of (client_map w) d = Some di \<longrightarrow> cl_bev di = cl_bev ci \<longrightarrow> d = c))"

text \<open>
  The records a client refers to. The idle record of a client in \<open>X\<close> may be marked already: it
  is about to be replaced.
\<close>

definition events_ok :: "int set \<Rightarrow> (int \<Rightarrow> cli_event) \<Rightarrow> int set \<Rightarrow> int set \<Rightarrow> int \<Rightarrow> client_information \<Rightarrow> bool" where
  "events_ok X cs ms fs c ci \<longleftrightarrow> 0 \<le> pack_id ci \<and>
     (\<forall>k p. map_of (cli_event_map ci) k = Some p \<longrightarrow>
        u32 (usr_uuid (cs p)) = c \<and>
        (if k = 0 then p \<in> ms \<and> (c \<notin> X \<longrightarrow> \<not> msg_flag (cs p)) else p \<in> fs \<and> \<not> finish_flag (cs p)) \<and>
        (\<forall>k'. map_of (cli_event_map ci) k' = Some p \<longrightarrow> k' = k))"

definition client_part :: "int set \<Rightarrow> worker \<Rightarrow> bool" where
  "client_part X w \<longleftrightarrow> distinct (map fst (client_map w)) \<and> 0 \<le> client_id w \<and> client_id w < 4294967296 \<and>
     (\<forall>c ci. map_of (client_map w) c = Some ci \<longrightarrow>
        0 \<le> c \<and> c < client_id w \<and> events_ok X (cells w) (set (M w)) (set (F w)) c ci)"

text \<open>The idle records know the handle of their client until they are superseded.\<close>

definition idle_part :: "worker \<Rightarrow> bool" where
  "idle_part w \<longleftrightarrow> (\<forall>p\<in>set (M w). u32 (usr_uuid (cells w p)) < client_id w \<and>
     (\<forall>ci. map_of (client_map w) (u32 (usr_uuid (cells w p))) = Some ci \<longrightarrow>
        \<not> msg_flag (cells w p) \<longrightarrow> ev_bev (cells w p) = cl_bev ci))"

definition winv :: "int set \<Rightarrow> int set \<Rightarrow> worker \<Rightarrow> bool" where
  "winv D X w \<longleftrightarrow> pool_part w \<and> queue_part D w \<and> server_part w \<and> bev_part w \<and> client_part X w \<and> idle_part w"

lemma winvD:
  assumes "winv D X w"
  shows "pool_part w" "queue_part D w" "server_part w" "bev_part w" "client_part X w" "idle_part w"
  using assms by (auto simp: winv_def)

lemmas winv_parts = pool_part_def queue_part_def server_part_def bev_part_def client_part_def idle_part_def

text \<open>Fields the invariant does not read.\<close>

lemma winv_irrelevant [simp]:
  "winv D X (emit c w) = winv D X w" "winv D X (w\<lparr>read_count := n\<rparr>) = winv D X w"
  "winv D X (w\<lparr>resend_count := n\<rparr>) = winv D X w" "winv D X (w\<lparr>calls := cs\<rparr>) = winv D X w"
  by (simp_all add: winv_def winv_parts emit_def)

lemma emit_fields [simp]:
  "client_map (emit c w) = client_map w" "m_Serverlist (emit c w) = m_Serverlist w"
  "m_server_info (emit c w) = m_server_info w" "open_bevs (emit c w) = open_bevs w"
  "owned (emit c w) = owned w" "cells (emit c w) = cells w" "msg_queue (emit c w) = msg_queue w"
  "fin_queue (emit c w) = fin_queue w" "mp (emit c w) = mp w" "client_id (emit c w) = client_id w"
  "read_count (emit c w) = read_count w" "resend_count (emit c w) = resend_count w" "m_idx (emit c w) = m_idx w"
  by (simp_all add: emit_def)

lemma u32_s32 [simp]: "u32 (s32 c) = u32 c"
proof -
  have "(c mod 4294967296 - 4294967296) mod 4294967296 = c mod 4294967296"
    by (simp add: mod_diff_left_eq)
  then show ?thesis by (auto simp: u32_def s32_def Let_def)
qed

lemma u32_id [simp]: "0 \<le> c \<Longrightarrow> c < 4294967296 \<Longrightarrow> u32 c = c"
  by (simp add: u32_def)

section \<open>Memory\<close>

lemma winv_owned: "winv D X w \<Longrightarrow> 0 \<notin> owned w"
  using live_positive(2) by (force simp: winv_def pool_part_def pool_ok_def)

lemma alloc_ev_cases:
  assumes w: "winv D X w" and mal: "malloc_ok (e_malloc env)"
  obtains (failed) m where "alloc_ev env w = Inr (0, w\<lparr>mp := m\<rparr>)" "winv D X (w\<lparr>mp := m\<rparr>)"
  | (granted) p m where
    "alloc_ev env w = Inr (p, w\<lparr>mp := m, owned := insert p (owned w), cells := (cells w)(p := e_uninit env p)\<rparr>)"
    "p \<noteq> 0" "p \<notin> owned w"
    "winv (insert p D) X (w\<lparr>mp := m, owned := insert p (owned w), cells := (cells w)(p := e_uninit env p)\<rparr>)"
proof -
  have ok: "pool_ok (mp w) \<and> malloc_ok (e_malloc env)" and ow: "owned w = fst ` live (mp w)"
    using w mal by (auto simp: winv_def pool_part_def)
  have sz: "0 < SIZEOF_CLI_EVENT" "SIZEOF_CLI_EVENT < 18446744073709551568" by (simp_all add: SIZEOF_CLI_EVENT_def)
  show ?thesis
  proof (rule pool.alloc_cases[OF ok sz])
    fix b assume b: "pool_alloc (e_malloc env) (mp w) SIZEOF_CLI_EVENT = Inr (0, b)"
      "pool_ok b \<and> malloc_ok (e_malloc env)" "pool.held b = pool.held (mp w)"
    then have "winv D X (w\<lparr>mp := b\<rparr>)" using w ow by (simp add: winv_def winv_parts pool.held_def)
    with b(1) failed show thesis by (simp add: alloc_ev_def)
  next
    fix p b assume b: "pool_alloc (e_malloc env) (mp w) SIZEOF_CLI_EVENT = Inr (p, b)"
      "pool_ok b \<and> malloc_ok (e_malloc env)" "p \<noteq> 0" "p \<notin> pool.held (mp w)"
      "pool.held b = insert p (pool.held (mp w))"
    let ?w = "w\<lparr>mp := b, owned := insert p (owned w), cells := (cells w)(p := e_uninit env p)\<rparr>"
    have n: "p \<notin> owned w" using b(4) ow by (simp add: pool.held_def)
    have q: "queue_part D w" "client_part X w" "idle_part w" using w by (auto simp: winv_def)
    then have nm: "p \<notin> set (M w)" "p \<notin> set (F w)" "p \<notin> D" using n by (auto simp: queue_part_def)
    have e: "events_ok X (cells ?w) (set (M w)) (set (F w)) c ci" if "events_ok X (cells w) (set (M w)) (set (F w)) c ci" for c ci
      using that nm unfolding events_ok_def by (auto split: if_splits)
    have "pool_part ?w" using b ow by (simp add: pool_part_def pool.held_def)
    moreover have "queue_part (insert p D) ?w" using q(1) nm by (auto simp: queue_part_def)
    moreover have "client_part X ?w" using q(2) e by (simp add: client_part_def)
    moreover have "idle_part ?w" using q(3) nm by (auto simp: idle_part_def)
    moreover have "server_part ?w" "bev_part ?w" using w by (auto simp: winv_def server_part_def bev_part_def)
    ultimately have "winv (insert p D) X ?w" by (simp add: winv_def)
    with b(1,3) n granted show thesis by (simp add: alloc_ev_def)
  qed
qed

lemma free_ev_ok:
  assumes w: "pool_part w" and p: "p \<in> owned w"
  shows "\<exists>m. free_ev p w = Inr (w\<lparr>mp := m, owned := owned w - {p}\<rparr>) \<and>
     pool_part (w\<lparr>mp := m, owned := owned w - {p}\<rparr>)"
proof -
  have ok: "pool_ok (mp w) \<and> malloc_ok (\<lambda>_ _. 0)" and ow: "owned w = fst ` live (mp w)"
    using w by (auto simp: pool_part_def malloc_ok_def)
  have "p \<in> pool.held (mp w)" using p ow by (simp add: pool.held_def)
  from pool.dealloc_held[OF ok this] obtain b where b: "pool_free (mp w) p = Inr (0, b)" "pool_ok b"
    "pool.held b = pool.held (mp w) - {p}" by auto
  have "pool_part (w\<lparr>mp := b, owned := owned w - {p}\<rparr>)" using b(2,3) ow by (simp add: pool_part_def pool.held_def)
  then show ?thesis by (intro exI[of _ b]) (simp add: free_ev_def b(1))
qed

lemma winv_deref: "winv D X w \<Longrightarrow> p \<in> owned w \<Longrightarrow> deref w p = Inr (cells w p)"
  using winv_owned by (auto simp: deref_def)

lemma put_ev_limbo:
  assumes "winv D X w" "p \<in> D"
  shows "put_ev p f w = Inr (w\<lparr>cells := (cells w)(p := f (cells w p))\<rparr>)"
    "winv D X (w\<lparr>cells := (cells w)(p := f (cells w p))\<rparr>)"
proof -
  have q: "queue_part D w" "client_part X w" "idle_part w" using assms(1) by (auto simp: winv_def)
  then have nm: "p \<notin> set (M w)" "p \<notin> set (F w)" "p \<in> owned w" using assms(2) by (auto simp: queue_part_def)
  then show "put_ev p f w = Inr (w\<lparr>cells := (cells w)(p := f (cells w p))\<rparr>)"
    using winv_deref[OF assms(1)] by (simp add: put_ev_def)
  let ?w = "w\<lparr>cells := (cells w)(p := f (cells w p))\<rparr>"
  have e: "events_ok X (cells ?w) (set (M w)) (set (F w)) c ci" if "events_ok X (cells w) (set (M w)) (set (F w)) c ci" for c ci
    using that nm unfolding events_ok_def by (auto split: if_splits)
  have "client_part X ?w" using q(2) e by (simp add: client_part_def)
  moreover have "idle_part ?w" using q(3) nm by (auto simp: idle_part_def)
  ultimately show "winv D X ?w" using assms(1) by (auto simp: winv_def pool_part_def queue_part_def server_part_def bev_part_def)
qed

lemma bind_put_limbo:
  assumes "winv D X w" "p \<in> D"
    and "\<And>w'. w' = w\<lparr>cells := (cells w)(p := f (cells w p))\<rparr> \<Longrightarrow> winv D X w' \<Longrightarrow> ok_res Q (k w')"
  shows "ok_res Q (bindE (put_ev p f w) k)"
  using put_ev_limbo[OF assms(1,2), of f] assms(3) by simp

lemma bind_alloc_ev:
  assumes "winv D X w" "malloc_ok (e_malloc env)" "\<And>m. ok_res Q (k (0, w\<lparr>mp := m\<rparr>))"
    and "\<And>p m w'. w' = w\<lparr>mp := m, owned := insert p (owned w), cells := (cells w)(p := e_uninit env p)\<rparr> \<Longrightarrow>
      p \<notin> owned w \<Longrightarrow> winv (insert p D) X w' \<Longrightarrow> ok_res Q (k (p, w'))"
  shows "ok_res Q (bindE (alloc_ev env w) k)"
proof (rule alloc_ev_cases[OF assms(1,2)])
  fix m assume "alloc_ev env w = Inr (0, w\<lparr>mp := m\<rparr>)"
  then show ?thesis using assms(3)[of m] by simp
next
  fix p m
  assume "alloc_ev env w = Inr (p, w\<lparr>mp := m, owned := insert p (owned w), cells := (cells w)(p := e_uninit env p)\<rparr>)"
    "p \<notin> owned w" "winv (insert p D) X (w\<lparr>mp := m, owned := insert p (owned w), cells := (cells w)(p := e_uninit env p)\<rparr>)"
  then show ?thesis using assms(4)[OF refl] by simp
qed

lemma put_ev_null [simp]: "put_ev 0 f w = Inl Null_Deref"
  by (simp add: put_ev_def deref_def)

lemma push_msg_cases:
  assumes "ring_inv (msg_queue w)"
  obtains "push_msg p w = Inl Exited"
  | q where "push_msg p w = Inr (w\<lparr>msg_queue := q\<rparr>)" "ring_inv q" "ring_items q = M w @ [p]"
proof (cases "ring_push p (msg_queue w)")
  case (Inl e)
  then have "e = Exited" by (auto simp: ring_push_def Let_def split: if_splits)
  then show thesis using that(1) Inl by (simp add: push_msg_def)
next
  case (Inr q)
  then show thesis using that(2) rq.push_InrD[OF assms Inr] by (simp add: push_msg_def)
qed

lemma push_fin_cases:
  assumes "ring_inv (fin_queue w)"
  obtains "push_fin p w = Inl Exited"
  | q where "push_fin p w = Inr (w\<lparr>fin_queue := q\<rparr>)" "ring_inv q" "ring_items q = F w @ [p]"
proof (cases "ring_push p (fin_queue w)")
  case (Inl e)
  then have "e = Exited" by (auto simp: ring_push_def Let_def split: if_splits)
  then show thesis using that(1) Inl by (simp add: push_fin_def)
next
  case (Inr q)
  then show thesis using that(2) rq.push_InrD[OF assms Inr] by (simp add: push_fin_def)
qed

section \<open>New clients\<close>

definition clean :: "env \<Rightarrow> bool" where
  "clean env \<longleftrightarrow> malloc_ok (e_malloc env) \<and>
     (\<forall>p. \<not> msg_flag (e_uninit env p) \<and> \<not> finish_flag (e_uninit env p))"

lemma winv_open_bev: "winv D X w \<Longrightarrow> winv D X (open_bev b w)"
  by (auto simp: winv_def winv_parts open_bev_def)

lemma open_bev_fields [simp]:
  "client_map (open_bev b w) = client_map w" "m_Serverlist (open_bev b w) = m_Serverlist w"
  "m_server_info (open_bev b w) = m_server_info w" "open_bevs (open_bev b w) = insert b (open_bevs w)"
  "owned (open_bev b w) = owned w" "cells (open_bev b w) = cells w" "msg_queue (open_bev b w) = msg_queue w"
  "fin_queue (open_bev b w) = fin_queue w" "client_id (open_bev b w) = client_id w"
  by (simp_all add: open_bev_def)

lemma map_of_map_insert: "map_of (map_insert k v m) = (case map_of m k of None \<Rightarrow> (map_of m)(k \<mapsto> v) | Some _ \<Rightarrow> map_of m)"
  by (auto simp: map_insert_def map_add_def split: option.splits)

lemma distinct_map_insert: "distinct (map fst m) \<Longrightarrow> distinct (map fst (map_insert k v m))"
  by (auto simp: map_insert_def map_of_eq_None_iff split: option.splits)

lemma enqueue_client:
  assumes w: "winv {p} {} w" and c: "client_id w < 4294967295"
    and e: "u32 (usr_uuid (cells w p)) = client_id w" "\<not> msg_flag (cells w p)" "ev_bev (cells w p) = b"
    and b: "b \<in> open_bevs w" "b \<notin> set (map snd (m_Serverlist w))"
      "\<forall>d di. map_of (client_map w) d = Some di \<longrightarrow> cl_bev di \<noteq> b"
  shows "ok_res (winv {} {}) (bindE (push_msg p w) (\<lambda>wa.
      Inr (wa\<lparr>client_map := map_insert (client_id w) ((new_client_information b ip)\<lparr>cli_event_map := [(0, p)]\<rparr>) (client_map wa),
             client_id := u32 (client_id w + 1)\<rparr>)))"
proof -
  note parts = winvD[OF w]
  have r: "ring_inv (msg_queue w)" using parts(2) by (simp add: queue_part_def)
  show ?thesis
  proof (rule push_msg_cases[OF r, of p])
    fix q assume q: "push_msg p w = Inr (w\<lparr>msg_queue := q\<rparr>)" "ring_inv q" "ring_items q = M w @ [p]"
    define ci where "ci = (new_client_information b ip)\<lparr>cli_event_map := [(0, p)]\<rparr>"
    have ci: "cl_bev ci = b" "pack_id ci = 0" "cli_event_map ci = [(0, p)]"
      by (simp_all add: ci_def new_client_information_def)
    have none: "map_of (client_map w) (client_id w) = None"
      using parts(5) unfolding client_part_def by (metis not_Some_eq less_irrefl)
    have mo: "map_of (map_insert (client_id w) ci (client_map w)) = (map_of (client_map w))(client_id w \<mapsto> ci)"
      using none by (simp add: map_of_map_insert)
    let ?w = "w\<lparr>msg_queue := q, client_map := map_insert (client_id w) ci (client_map w), client_id := u32 (client_id w + 1)\<rparr>"
    have uc: "u32 (client_id w + 1) = client_id w + 1" using c parts(5) by (simp add: client_part_def)
    have "queue_part {} ?w" using parts(2) q by (auto simp: queue_part_def)
    moreover have "bev_part ?w" using parts(4) b by (auto simp: bev_part_def mo ci)
    moreover have "client_part {} ?w"
    proof -
      have old: "events_ok {} (cells w) (set (M w @ [p])) (set (F w)) d di"
        if "events_ok {} (cells w) (set (M w)) (set (F w)) d di" for d di
        using that unfolding events_ok_def by (auto split: if_splits)
      have new: "events_ok {} (cells w) (set (M w @ [p])) (set (F w)) (client_id w) ci"
        using e by (auto simp: events_ok_def ci split: if_splits)
      show ?thesis using parts(5) old new c q(3) unfolding client_part_def
        by (auto simp: mo uc distinct_map_insert less_imp_le)
    qed
    moreover have "idle_part ?w"
    proof -
      have "u32 (usr_uuid (cells w x)) \<noteq> client_id w" if "x \<in> set (M w)" for x
        using parts(6) that by (auto simp: idle_part_def)
      then show ?thesis using parts(6) q(3) e uc
        by (auto simp: idle_part_def mo ci)
    qed
    moreover have "pool_part ?w" "server_part ?w" using parts(1,3) by (auto simp: pool_part_def server_part_def)
    ultimately show ?thesis using q(1) by (simp add: winv_def ci_def)
  qed simp
qed

lemma new_client_ok:
  assumes w: "winv {} {} w" and cl: "clean env" and b: "e_bev env \<notin> open_bevs w"
    and c: "client_id w < 4294967295"
  shows "ok_res (winv {} {}) (new_client env ip w)"
proof -
  let ?b = "e_bev env" and ?w = "open_bev (e_bev env) w"
  have mal: "malloc_ok (e_malloc env)" using cl by (simp add: clean_def)
  have fresh: "?b \<notin> set (map snd (m_Serverlist w))" "\<forall>d di. map_of (client_map w) d = Some di \<longrightarrow> cl_bev di \<noteq> ?b"
    using w b unfolding winv_def server_part_def bev_part_def by (blast, metis)
  have c0: "0 \<le> client_id w" using w by (simp add: winv_def client_part_def)
  show ?thesis
  proof (rule alloc_ev_cases[OF winv_open_bev[OF w] mal, of ?b])
    fix m assume "alloc_ev env ?w = Inr (0, ?w\<lparr>mp := m\<rparr>)"
    then show ?thesis by (simp add: new_client_def put_ev_def deref_def)
  next
    fix p m
    let ?w1 = "?w\<lparr>mp := m, owned := insert p (owned ?w), cells := (cells ?w)(p := e_uninit env p)\<rparr>"
    assume a: "alloc_ev env ?w = Inr (p, ?w1)" "p \<noteq> 0" "winv (insert p {}) {} ?w1"
    have nf: "\<not> msg_flag (e_uninit env p)" using cl by (simp add: clean_def)
    show ?thesis unfolding new_client_def Let_def a(1) bindE_Inr prod.case
    proof (rule bind_put_limbo[OF a(3) insertI1], rule bind_put_limbo[OF _ insertI1], assumption,
        rule bind_put_limbo[OF _ insertI1], assumption)
      fix w1 w2 w3
      assume x: "w1 = ?w1\<lparr>cells := (cells ?w1)(p := (cells ?w1 p)\<lparr>arr_time := e_now env\<rparr>)\<rparr>"
        "w2 = w1\<lparr>cells := (cells w1)(p := (cells w1 p)\<lparr>ev_bev := ?b\<rparr>)\<rparr>"
        "w3 = w2\<lparr>cells := (cells w2)(p := (cells w2 p)\<lparr>usr_uuid := s32 (client_id w)\<rparr>)\<rparr>" "winv {p} {} w3"
      have f: "client_id w3 = client_id w" "client_map w3 = client_map w" "m_Serverlist w3 = m_Serverlist w"
        "open_bevs w3 = insert ?b (open_bevs w)" "u32 (usr_uuid (cells w3 p)) = client_id w"
        "\<not> msg_flag (cells w3 p)" "ev_bev (cells w3 p) = ?b"
        using nf c c0 by (simp_all add: x(1-3))
      show "ok_res (winv {} {}) (bindE (push_msg p w3) (\<lambda>wa. Inr (wa\<lparr>client_map :=
          map_insert (client_id w) ((new_client_information ?b ip)\<lparr>cli_event_map := [(0, p)]\<rparr>) (client_map wa),
          client_id := u32 (client_id w + 1)\<rparr>)))"
        using enqueue_client[OF x(4), of ?b ip] f c fresh by simp
    qed
  qed
qed

lemma accept_client_ok:
  assumes w: "winv {} {} w" and cl: "clean env" and b: "e_bev env \<notin> open_bevs w"
    and c: "client_id w < 4294967295"
  shows "ok_res (\<lambda>wh. winv {} {} (fst wh)) (accept_client env (w, h))"
proof (cases "e_accept env")
  case None
  then show ?thesis using w by (simp add: accept_client_def)
next
  case (Some x)
  obtain sockfd ip where x: "x = (sockfd, ip)" by (cases x)
  show ?thesis
    unfolding accept_client_def Some x
    apply (simp add: Let_def)
    apply (rule ok_res_bind[where P = "\<lambda>_. True"])
     apply (simp add: verify_client_ip_def strcpy_at_def)
    using w by (auto intro!: ok_res_bind[OF new_client_ok[OF assms]])
qed

end
