(* ===== verification/Worker_Requests.thy ===== *)
theory Worker_Requests
  imports Worker_Inv
begin

text \<open>
  Preservation of the worker's invariant by the callbacks of its clients
  (\<open>client_socket_read_cb\<close>, \<open>client_event_cb\<close>) and by the replies of the servers.
\<close>

section \<open>Changes of one client\<close>

lemma winv_update_client:
  assumes w: "winv D X w" and c: "map_of (client_map w) c = Some ci" and b: "cl_bev ci' = cl_bev ci"
    and e: "events_ok X' (cells w) (set (M w)) (set (F w)) c ci'" and X: "X - {c} \<subseteq> X'" "X' \<subseteq> insert c X"
  shows "winv D X' (w\<lparr>client_map := AList.update c ci' (client_map w)\<rparr>)"
proof -
  let ?w = "w\<lparr>client_map := AList.update c ci' (client_map w)\<rparr>"
  note parts = winvD[OF w]
  have mo: "map_of (AList.update c ci' (client_map w)) = (map_of (client_map w))(c \<mapsto> ci')"
    by (rule update_conv')
  have "bev_part ?w"
    using parts(4) c b unfolding bev_part_def by (auto simp: mo)
  moreover have "client_part X' ?w"
  proof -
    have other: "events_ok X' (cells w) (set (M w)) (set (F w)) d di"
      if "events_ok X (cells w) (set (M w)) (set (F w)) d di" "d \<noteq> c" for d di
    proof -
      have "d \<in> X'" if "d \<in> X" using that \<open>d \<noteq> c\<close> X by auto
      then show ?thesis using that(1) unfolding events_ok_def by metis
    qed
    show ?thesis using parts(5) c e other
      by (auto simp: client_part_def mo distinct_update)
  qed
  moreover have "idle_part ?w" using parts(6) c b by (auto simp: idle_part_def mo)
  ultimately show ?thesis using parts(1-3)
    by (auto simp: winv_def pool_part_def queue_part_def server_part_def)
qed

lemma winv_client:
  assumes "winv D X w" "map_of (client_map w) c = Some ci"
  shows "events_ok X (cells w) (set (M w)) (set (F w)) c ci" "cl_bev ci \<in> open_bevs w" "0 \<le> c" "c < 4294967296"
proof -
  have p: "client_part X w" "bev_part w" using assms(1) by (simp_all add: winv_def)
  show "cl_bev ci \<in> open_bevs w" using p(2) assms(2) unfolding bev_part_def by blast
  have a: "0 \<le> c \<and> c < client_id w \<and> events_ok X (cells w) (set (M w)) (set (F w)) c ci" "client_id w < 4294967296"
    using p(1) assms(2) unfolding client_part_def by blast+
  then show "events_ok X (cells w) (set (M w)) (set (F w)) c ci" "0 \<le> c" "c < 4294967296" by auto
qed

lemma mod_client_neutral:
  assumes w: "winv D X w" and f: "\<And>ci. cl_bev (f ci) = cl_bev ci \<and> cli_event_map (f ci) = cli_event_map ci \<and> pack_id ci \<le> pack_id (f ci)"
  shows "ok_res (\<lambda>w'. winv D X w' \<and> (\<exists>cm. w' = w\<lparr>client_map := cm\<rparr>)) (mod_client c f w)"
proof (cases "map_of (client_map w) c")
  case None
  then show ?thesis by (simp add: mod_client_def get_client_def)
next
  case (Some ci)
  have "events_ok X (cells w) (set (M w)) (set (F w)) c (f ci)"
    using winv_client(1)[OF w Some] f[of ci] unfolding events_ok_def by (auto intro: order_trans)
  from winv_update_client[OF w Some _ this] f[of ci] show ?thesis
    by (auto simp: mod_client_def get_client_def Some)
qed

lemma get_client_ok: "ok_res (\<lambda>ci. map_of (client_map w) c = Some ci) (get_client w c)"
  by (auto simp: get_client_def split: option.splits)

section \<open>Rate limit and forwarding\<close>

definition same_servers :: "worker \<Rightarrow> worker \<Rightarrow> bool" where
  "same_servers w w' \<longleftrightarrow> m_Serverlist w' = m_Serverlist w \<and> read_count w' = read_count w"

lemma current_limit_ok:
  assumes w: "winv D X w"
  shows "ok_res (\<lambda>(b, w'). winv D X w' \<and> same_servers w w') (current_limit c w)"
  unfolding current_limit_def
proof (rule ok_res_bind[OF get_client_ok])
  fix ci
  show "ok_res (\<lambda>(b, w'). winv D X w' \<and> same_servers w w')
     (bindE (mod_client c (\<lambda>ci. ci\<lparr>cl_count := cl_count ci + 1\<rparr>) w) (\<lambda>w.
     if cl_count ci < 10 then Inr (True, w)
     else
       bindE (mod_client c (\<lambda>ci. ci\<lparr>close_flag := True\<rparr>) w) (\<lambda>w.
       bindE (strcpy_at (replicate 20 NUL) 0 (cl_ip ci)) (\<lambda>ip.
       Inr (False, emit (MsgSnd \<lparr>msg_type = 2, msg_port = 0, msg_ip = cstr ip, process_id = m_idx w\<rparr>) w)))))"
  proof (rule ok_res_bind[OF mod_client_neutral[OF w]], simp)
    fix w1 assume w1: "winv D X w1 \<and> (\<exists>cm. w1 = w\<lparr>client_map := cm\<rparr>)"
    show "ok_res (\<lambda>(b, w'). winv D X w' \<and> same_servers w w')
     (if cl_count ci < 10 then Inr (True, w1)
     else
       bindE (mod_client c (\<lambda>ci. ci\<lparr>close_flag := True\<rparr>) w1) (\<lambda>w.
       bindE (strcpy_at (replicate 20 NUL) 0 (cl_ip ci)) (\<lambda>ip.
       Inr (False, emit (MsgSnd \<lparr>msg_type = 2, msg_port = 0, msg_ip = cstr ip, process_id = m_idx w\<rparr>) w))))"
    proof (cases "cl_count ci < 10")
      case True
      then show ?thesis using w1 by (auto simp: same_servers_def)
    next
      case False
      have "ok_res (\<lambda>w'. winv D X w' \<and> (\<exists>cm. w' = w1\<lparr>client_map := cm\<rparr>)) (mod_client c (\<lambda>ci. ci\<lparr>close_flag := True\<rparr>) w1)"
        by (rule mod_client_neutral) (use w1 in auto)
      then show ?thesis using False w1
        by (auto simp: strcpy_at_def same_servers_def elim!: ok_res_bind)
    qed
  qed
qed

definition json_ok :: "'j json_lib \<Rightarrow> bool" where
  "json_ok J \<longleftrightarrow> (\<forall>k n v. ok_res (\<lambda>_. True) (j_set J k n v)) \<and> (\<forall>k v. ok_res (\<lambda>_. True) (j_int J k v)) \<and>
     (\<forall>k v. ok_res (\<lambda>_. True) (j_remove J k v))"

lemma server_bev_open:
  assumes w: "winv D X w" and k: "k < length (m_Serverlist w)"
  shows "snd (m_Serverlist w ! k) \<in> open_bevs w"
  using assms nth_mem[OF k] by (auto simp: winv_def server_part_def)

lemma bev_write_ok: "winv D X w \<Longrightarrow> b \<in> open_bevs w \<Longrightarrow>
    bev_write b s w = Inr (emit (BevWrite b s) w)"
  by (simp add: bev_write_def)

lemma forward_request_ok:
  assumes J: "json_ok J" and w: "winv D X w" and k: "0 \<le> read_count w" "read_count w < int (length (m_Serverlist w))"
  shows "ok_res (\<lambda>(txt, w'). winv D X w') (forward_request J c v w)"
  unfolding forward_request_def
proof (rule ok_res_bind[where P = "\<lambda>_. True"])
  show "ok_res (\<lambda>_. True) (j_set J ''client_sock'' c v)" using J by (simp add: json_ok_def)
  fix v1
  show "ok_res (\<lambda>(txt, w'). winv D X w')
     (bindE (mod_client c (\<lambda>ci. ci\<lparr>pack_id := pack_id ci + 1\<rparr>) w) (\<lambda>w.
     bindE (get_client w c) (\<lambda>ci.
     bindE (j_set J ''pack_id'' (pack_id ci) v1) (\<lambda>v.
     let txt = cstr (j_styled J v); bev = snd (m_Serverlist w ! nat (read_count w)) in
     bindE (bev_write bev (enc_int (int (length txt))) w) (\<lambda>w.
     bindE (bev_write bev txt w) (\<lambda>w.
     Inr (txt, w\<lparr>read_count := read_count w + 1\<rparr>)))))))"
  proof (rule ok_res_bind[OF mod_client_neutral[OF w]], simp, rule ok_res_bind[OF get_client_ok],
      rule ok_res_bind[where P = "\<lambda>_. True"])
    fix ci
    show "ok_res (\<lambda>_. True) (j_set J ''pack_id'' (pack_id ci) v1)" using J by (simp add: json_ok_def)
    fix w1 v2 assume w1: "winv D X w1 \<and> (\<exists>cm. w1 = w\<lparr>client_map := cm\<rparr>)"
    then have "nat (read_count w1) < length (m_Serverlist w1)" using k by auto
    from server_bev_open[OF _ this] w1 have "snd (m_Serverlist w1 ! nat (read_count w1)) \<in> open_bevs w1" by blast
    then show "ok_res (\<lambda>(txt, w'). winv D X w')
       (let txt = cstr (j_styled J v2); bev = snd (m_Serverlist w1 ! nat (read_count w1)) in
       bindE (bev_write bev (enc_int (int (length txt))) w1) (\<lambda>w.
       bindE (bev_write bev txt w) (\<lambda>w. Inr (txt, w\<lparr>read_count := read_count w + 1\<rparr>))))"
      using w1 by (auto simp: Let_def bev_write_def)
  qed
qed

section \<open>The idle record\<close>

lemma mark_old:
  assumes w: "winv {} {} w" and c: "map_of (client_map w) c = Some ci" "map_of (cli_event_map ci) 0 = Some old"
  shows "put_ev old (\<lambda>e. e\<lparr>msg_flag := True\<rparr>) w = Inr (w\<lparr>cells := (cells w)(old := (cells w old)\<lparr>msg_flag := True\<rparr>)\<rparr>)"
    "winv {} {c} (w\<lparr>cells := (cells w)(old := (cells w old)\<lparr>msg_flag := True\<rparr>)\<rparr>)"
    "old \<in> set (M w)" "u32 (usr_uuid (cells w old)) = c" "ev_bev (cells w old) = cl_bev ci"
proof -
  note parts = winvD[OF w]
  have e: "old \<in> set (M w)" "u32 (usr_uuid (cells w old)) = c" "\<not> msg_flag (cells w old)"
    using winv_client(1)[OF w c(1)] c(2) by (auto simp: events_ok_def)
  then show "old \<in> set (M w)" "u32 (usr_uuid (cells w old)) = c" by auto
  show "ev_bev (cells w old) = cl_bev ci" using parts(6) e c(1) by (auto simp: idle_part_def)
  have o: "old \<in> owned w" "old \<notin> set (F w)" using e(1) parts(2) by (auto simp: queue_part_def)
  show "put_ev old (\<lambda>e. e\<lparr>msg_flag := True\<rparr>) w = Inr (w\<lparr>cells := (cells w)(old := (cells w old)\<lparr>msg_flag := True\<rparr>)\<rparr>)"
    using winv_deref[OF w o(1)] by (simp add: put_ev_def)
  let ?w = "w\<lparr>cells := (cells w)(old := (cells w old)\<lparr>msg_flag := True\<rparr>)\<rparr>"
  have ev: "events_ok {c} (cells ?w) (set (M w)) (set (F w)) d di"
    if "events_ok {} (cells w) (set (M w)) (set (F w)) d di" for d di
    using that e o unfolding events_ok_def by (auto split: if_splits)
  have "client_part {c} ?w" using parts(5) ev by (simp add: client_part_def)
  moreover have "idle_part ?w" using parts(6) by (auto simp: idle_part_def)
  ultimately show "winv {} {c} ?w" using parts(1-4)
    by (auto simp: winv_def pool_part_def queue_part_def server_part_def bev_part_def)
qed

text \<open>The new record takes the place of the old one.\<close>

lemma queue_idle:
  assumes w: "winv {p} {c} w" and c: "map_of (client_map w) c = Some ci"
    and e: "u32 (usr_uuid (cells w p)) = c" "\<not> msg_flag (cells w p)" "ev_bev (cells w p) = cl_bev ci"
  shows "ok_res (winv {} {}) (push_msg p (w\<lparr>client_map := AList.update c (ci\<lparr>cli_event_map := AList.update 0 p (cli_event_map ci)\<rparr>) (client_map w)\<rparr>))"
proof -
  note parts = winvD[OF w]
  define ci' where "ci' = ci\<lparr>cli_event_map := AList.update 0 p (cli_event_map ci)\<rparr>"
  let ?w = "w\<lparr>client_map := AList.update c ci' (client_map w)\<rparr>"
  have r: "ring_inv (msg_queue ?w)" using parts(2) by (simp add: queue_part_def)
  have mo: "map_of (AList.update c ci' (client_map w)) = (map_of (client_map w))(c \<mapsto> ci')" by (rule update_conv')
  have ci': "cl_bev ci' = cl_bev ci" "pack_id ci' = pack_id ci"
    "map_of (cli_event_map ci') = (map_of (cli_event_map ci))(0 \<mapsto> p)"
    by (simp_all add: ci'_def update_conv')
  have n: "p \<notin> set (M w)" "p \<notin> set (F w)" using parts(2) by (auto simp: queue_part_def)
  show ?thesis unfolding ci'_def[symmetric]
  proof (rule push_msg_cases[OF r, of p])
    fix q assume q: "push_msg p ?w = Inr (?w\<lparr>msg_queue := q\<rparr>)" "ring_inv q" "ring_items q = M ?w @ [p]"
    let ?w' = "?w\<lparr>msg_queue := q\<rparr>"
    have iq: "ring_items q = M w @ [p]" using q(3) by simp
    have "queue_part {} ?w'" using parts(2) q(2) iq by (auto simp: queue_part_def)
    moreover have "bev_part ?w'" using parts(4) c ci'(1) unfolding bev_part_def by (auto simp: mo)
    moreover have "client_part {} ?w'"
    proof -
      have old: "events_ok {} (cells w) (set (M w @ [p])) (set (F w)) d di"
        if "events_ok {c} (cells w) (set (M w)) (set (F w)) d di" "d \<noteq> c" for d di
        using that unfolding events_ok_def by (auto split: if_splits)
      have "events_ok {c} (cells w) (set (M w)) (set (F w)) c ci" using parts(5) c by (simp add: client_part_def)
      then have new: "events_ok {} (cells w) (set (M w @ [p])) (set (F w)) c ci'"
        using e n ci' unfolding events_ok_def by (auto split: if_splits)
      show ?thesis using parts(5) c old new iq by (auto simp: client_part_def mo distinct_update)
    qed
    moreover have "idle_part ?w'"
    proof -
      have "c < client_id w" using parts(5) c by (simp add: client_part_def)
      then show ?thesis using parts(6) c e iq ci'(1) by (auto simp: idle_part_def mo)
    qed
    moreover have "pool_part ?w'" "server_part ?w'" using parts(1,3) by (auto simp: pool_part_def server_part_def)
    ultimately show "ok_res (winv {} {}) (push_msg p ?w)" using q(1) by (simp add: winv_def)
  qed simp
qed

lemma fill_idle:
  assumes w: "winv {p} {c} w" and ci: "map_of (client_map w) c = Some ci" and c: "0 \<le> c" "c < 4294967296"
    and old: "old \<in> owned w" "old \<noteq> p" "ev_bev (cells w old) = cl_bev ci" and new: "\<not> msg_flag (cells w p)"
  shows "ok_res (winv {} {}) (bindE (put_ev p (\<lambda>e. e\<lparr>arr_time := now\<rparr>) w) (\<lambda>w.
     bindE (put_ev p (\<lambda>e. e\<lparr>usr_uuid := s32 c\<rparr>) w) (\<lambda>w.
     bindE (deref w old) (\<lambda>e0.
     bindE (put_ev p (\<lambda>e. e\<lparr>ev_bev := ev_bev e0\<rparr>) w) (\<lambda>w.
     bindE (mod_client c (\<lambda>ci. ci\<lparr>cli_event_map := AList.update 0 p (cli_event_map ci)\<rparr>) w) (\<lambda>w.
     push_msg p w))))))"
proof (rule bind_put_limbo[OF w insertI1], rule bind_put_limbo[OF _ insertI1], assumption)
  fix w1 w2
  assume x: "w1 = w\<lparr>cells := (cells w)(p := (cells w p)\<lparr>arr_time := now\<rparr>)\<rparr>"
    "w2 = w1\<lparr>cells := (cells w1)(p := (cells w1 p)\<lparr>usr_uuid := s32 c\<rparr>)\<rparr>" "winv {p} {c} w2"
  have d: "deref w2 old = Inr (cells w2 old)" using old(1) by (intro winv_deref[OF x(3)]) (simp add: x(1,2))
  show "ok_res (winv {} {}) (bindE (deref w2 old) (\<lambda>e0.
     bindE (put_ev p (\<lambda>e. e\<lparr>ev_bev := ev_bev e0\<rparr>) w2) (\<lambda>w.
     bindE (mod_client c (\<lambda>ci. ci\<lparr>cli_event_map := AList.update 0 p (cli_event_map ci)\<rparr>) w) (\<lambda>w.
     push_msg p w))))" unfolding d bindE_Inr
  proof (rule bind_put_limbo[OF x(3) insertI1])
    fix w3 assume w3: "w3 = w2\<lparr>cells := (cells w2)(p := (cells w2 p)\<lparr>ev_bev := ev_bev (cells w2 old)\<rparr>)\<rparr>" "winv {p} {c} w3"
    have f: "client_map w3 = client_map w" "u32 (usr_uuid (cells w3 p)) = c" "\<not> msg_flag (cells w3 p)" "ev_bev (cells w3 p) = cl_bev ci"
      using old(2,3) new c by (simp_all add: w3(1) x(1,2))
    from queue_idle[OF w3(2), of ci] f ci
    show "ok_res (winv {} {}) (bindE (mod_client c (\<lambda>ci. ci\<lparr>cli_event_map := AList.update 0 p (cli_event_map ci)\<rparr>) w3) (push_msg p))"
      by (simp add: mod_client_def get_client_def)
  qed
qed

lemma renew_idle_ok:
  assumes w: "winv {} {} w" and cl: "clean env" and c: "0 \<le> c" "c < 4294967296"
  shows "ok_res (winv {} {}) (renew_idle env c w)"
proof (cases "map_of (client_map w) c")
  case None
  then show ?thesis by (simp add: renew_idle_def get_client_def)
next
  case (Some ci)
  show ?thesis
  proof (cases "map_of (cli_event_map ci) 0")
    case None
    then show ?thesis using Some by (simp add: renew_idle_def get_client_def)
  next
    case old: (Some old)
    note m = mark_old[OF w Some old]
    define w0 where "w0 = w\<lparr>cells := (cells w)(old := (cells w old)\<lparr>msg_flag := True\<rparr>)\<rparr>"
    note w0 = m(2)[folded w0_def] and put = m(1)[folded w0_def]
    have mal: "malloc_ok (e_malloc env)" using cl by (simp add: clean_def)
    have oo: "old \<in> owned w0" using m(3) w by (auto simp: winv_def queue_part_def w0_def)
    show ?thesis
      unfolding renew_idle_def get_client_def Some option.case bindE_Inr old put
    proof (rule bind_alloc_ev[OF w0 mal], simp, unfold prod.case)
      fix p m w'
      assume w': "w' = w0\<lparr>mp := m, owned := insert p (owned w0), cells := (cells w0)(p := e_uninit env p)\<rparr>" "p \<notin> owned w0" "winv {p} {c} w'"
      have "map_of (client_map w') c = Some ci" "old \<in> owned w'" "old \<noteq> p" "ev_bev (cells w' old) = cl_bev ci" "\<not> msg_flag (cells w' p)"
        using Some oo w'(2) m(5) cl by (auto simp: w'(1) w0_def clean_def)
      from fill_idle[OF w'(3) this(1) c this(2-5)]
      show "ok_res (winv {} {}) (bindE (put_ev p (\<lambda>e. e\<lparr>arr_time := e_now env\<rparr>) w') (\<lambda>w.
         bindE (put_ev p (\<lambda>e. e\<lparr>usr_uuid := s32 c\<rparr>) w) (\<lambda>w.
         bindE (deref w old) (\<lambda>e0.
         bindE (put_ev p (\<lambda>e. e\<lparr>ev_bev := ev_bev e0\<rparr>) w) (\<lambda>w.
         bindE (mod_client c (\<lambda>ci. ci\<lparr>cli_event_map := AList.update 0 p (cli_event_map ci)\<rparr>) w) (\<lambda>w.
         push_msg p w))))))" .
    qed
  qed
qed

section \<open>The cached request\<close>

lemma events_ok_grow: "events_ok X cs ms fs c ci \<Longrightarrow> ms \<subseteq> ms' \<Longrightarrow> fs \<subseteq> fs' \<Longrightarrow> events_ok X cs ms' fs' c ci"
  unfolding events_ok_def by (auto split: if_splits)

lemma events_ok_insert:
  assumes ev: "events_ok {} cs ms fs c ci" and p: "p \<notin> ms" "p \<notin> fs" "u32 (usr_uuid (cs p)) = c" "\<not> finish_flag (cs p)" and n: "1 \<le> pack_id ci"
  shows "events_ok {} cs ms (insert p fs) c (ci\<lparr>cli_event_map := map_insert (pack_id ci) p (cli_event_map ci)\<rparr>)"
proof (cases "map_of (cli_event_map ci) (pack_id ci)")
  case (Some _)
  then have e: "events_ok {} cs ms (insert p fs) c (ci\<lparr>cli_event_map := map_insert (pack_id ci) p (cli_event_map ci)\<rparr>) =
      events_ok {} cs ms (insert p fs) c ci"
    unfolding events_ok_def by (simp add: map_of_map_insert)
  show ?thesis by (rule iffD2[OF e events_ok_grow[OF ev subset_refl subset_insertI]])
next
  case None
  have "map_of (cli_event_map ci) k \<noteq> Some p" for k
    using ev p(1,2) unfolding events_ok_def by (metis (full_types))
  then show ?thesis using ev p(3,4) n None
    unfolding events_ok_def by (auto simp: map_of_map_insert split: if_splits)
qed

lemma queue_request:
  assumes w: "winv {p} {} w" and c: "map_of (client_map w) c = Some ci" "1 \<le> pack_id ci"
    and e: "u32 (usr_uuid (cells w p)) = c" "\<not> finish_flag (cells w p)"
  shows "ok_res (winv {} {}) (push_fin p (w\<lparr>client_map := AList.update c (ci\<lparr>cli_event_map :=
      map_insert (pack_id ci) p (cli_event_map ci)\<rparr>) (client_map w)\<rparr>))"
proof -
  note parts = winvD[OF w]
  define ci' where "ci' = ci\<lparr>cli_event_map := map_insert (pack_id ci) p (cli_event_map ci)\<rparr>"
  let ?w = "w\<lparr>client_map := AList.update c ci' (client_map w)\<rparr>"
  have r: "ring_inv (fin_queue ?w)" using parts(2) by (simp add: queue_part_def)
  have mo: "map_of (AList.update c ci' (client_map w)) = (map_of (client_map w))(c \<mapsto> ci')" by (rule update_conv')
  have n: "p \<notin> set (M w)" "p \<notin> set (F w)" using parts(2) by (auto simp: queue_part_def)
  have "events_ok {} (cells w) (set (M w)) (set (F w)) c ci" using parts(5) c by (simp add: client_part_def)
  from events_ok_insert[OF this n e c(2)] have new: "events_ok {} (cells w) (set (M w)) (insert p (set (F w))) c ci'" by (simp add: ci'_def)
  have b: "cl_bev ci' = cl_bev ci" by (simp add: ci'_def)
  show ?thesis unfolding ci'_def[symmetric]
  proof (rule push_fin_cases[OF r, of p])
    fix q assume q: "push_fin p ?w = Inr (?w\<lparr>fin_queue := q\<rparr>)" "ring_inv q" "ring_items q = F ?w @ [p]"
    let ?w' = "?w\<lparr>fin_queue := q\<rparr>"
    have iq: "ring_items q = F w @ [p]" using q(3) by simp
    have "queue_part {} ?w'" using parts(2) q(2) iq by (auto simp: queue_part_def)
    moreover have "bev_part ?w'" using parts(4) c b unfolding bev_part_def by (auto simp: mo)
    moreover have "client_part {} ?w'"
      using parts(5) c new iq by (auto simp: client_part_def mo distinct_update intro: events_ok_grow)
    moreover have "idle_part ?w'" using parts(6) c b by (auto simp: idle_part_def mo)
    moreover have "pool_part ?w'" "server_part ?w'" using parts(1,3) by (auto simp: pool_part_def server_part_def)
    ultimately show "ok_res (winv {} {}) (push_fin p ?w)" using q(1) by (simp add: winv_def)
  qed simp
qed

text \<open>The packet number of the client is at least one when a request is cached.\<close>

definition numbered :: "int \<Rightarrow> worker \<Rightarrow> bool" where
  "numbered c w \<longleftrightarrow> (\<forall>ci. map_of (client_map w) c = Some ci \<longrightarrow> 1 \<le> pack_id ci)"

lemma fill_request:
  assumes w: "winv {p} {} w" and n: "numbered c w" and c: "0 \<le> c" "c < 4294967296" and new: "\<not> finish_flag (cells w p)"
  shows "ok_res (winv {} {}) (bindE (put_ev p (\<lambda>e. e\<lparr>head_length := int (length txt)\<rparr>) w) (\<lambda>w.
      bindE (put_ev p (\<lambda>e. e\<lparr>usr_uuid := s32 c\<rparr>) w) (\<lambda>w.
      bindE (guardE Out_Of_Bounds (length txt < 1024)) (\<lambda>_.
      bindE (put_ev p (\<lambda>e. e\<lparr>c_info := txt\<rparr>) w) (\<lambda>w.
      bindE (put_ev p (\<lambda>e. e\<lparr>arr_time := now\<rparr>) w) (\<lambda>w.
      bindE (mod_client c (\<lambda>ci. ci\<lparr>cli_event_map := map_insert (pack_id ci) p (cli_event_map ci)\<rparr>) w) (\<lambda>w.
      push_fin p w)))))))"
proof (rule bind_put_limbo[OF w insertI1], rule bind_put_limbo[OF _ insertI1], assumption,
    rule ok_res_bind[where P = "\<lambda>_. True"], simp add: guardE_def,
    rule bind_put_limbo[OF _ insertI1], assumption, rule bind_put_limbo[OF _ insertI1], assumption)
  fix w1 w2 w3 w4
  assume x: "w1 = w\<lparr>cells := (cells w)(p := (cells w p)\<lparr>head_length := int (length txt)\<rparr>)\<rparr>"
    "w2 = w1\<lparr>cells := (cells w1)(p := (cells w1 p)\<lparr>usr_uuid := s32 c\<rparr>)\<rparr>"
    "w3 = w2\<lparr>cells := (cells w2)(p := (cells w2 p)\<lparr>c_info := txt\<rparr>)\<rparr>"
    "w4 = w3\<lparr>cells := (cells w3)(p := (cells w3 p)\<lparr>arr_time := now\<rparr>)\<rparr>" "winv {p} {} w4"
  have f: "client_map w4 = client_map w" "u32 (usr_uuid (cells w4 p)) = c" "\<not> finish_flag (cells w4 p)"
    using new c by (simp_all add: x(1-4))
  show "ok_res (winv {} {}) (bindE (mod_client c (\<lambda>ci. ci\<lparr>cli_event_map :=
      map_insert (pack_id ci) p (cli_event_map ci)\<rparr>) w4) (push_fin p))"
  proof (cases "map_of (client_map w) c")
    case None
    then show ?thesis using f by (simp add: mod_client_def get_client_def)
  next
    case (Some ci)
    with n have "1 \<le> pack_id ci" by (simp add: numbered_def)
    from queue_request[OF x(5) _ this f(2,3)] Some f(1) show ?thesis
      by (simp add: mod_client_def get_client_def)
  qed
qed

lemma cache_request_ok:
  assumes w: "winv {} {} w" and cl: "clean env" and c: "0 \<le> c" "c < 4294967296" and n: "numbered c w"
  shows "ok_res (winv {} {}) (cache_request env c txt w)"
  unfolding cache_request_def
proof (rule bind_alloc_ev[OF w], use cl in \<open>simp add: clean_def\<close>, simp, unfold prod.case)
  fix p m w'
  assume w': "w' = w\<lparr>mp := m, owned := insert p (owned w), cells := (cells w)(p := e_uninit env p)\<rparr>" "winv {p} {} w'"
  have f: "numbered c w'" "\<not> finish_flag (cells w' p)" using n cl by (simp_all add: w'(1) numbered_def clean_def)
  show "ok_res (winv {} {}) (bindE (put_ev p (\<lambda>e. e\<lparr>head_length := int (length txt)\<rparr>) w') (\<lambda>w.
      bindE (put_ev p (\<lambda>e. e\<lparr>usr_uuid := s32 c\<rparr>) w) (\<lambda>w.
      bindE (guardE Out_Of_Bounds (length txt < 1024)) (\<lambda>_.
      bindE (put_ev p (\<lambda>e. e\<lparr>c_info := txt\<rparr>) w) (\<lambda>w.
      bindE (put_ev p (\<lambda>e. e\<lparr>arr_time := e_now env\<rparr>) w) (\<lambda>w.
      bindE (mod_client c (\<lambda>ci. ci\<lparr>cli_event_map := map_insert (pack_id ci) p (cli_event_map ci)\<rparr>) w) (\<lambda>w.
      push_fin p w)))))))"
    by (rule fill_request[OF w'(2) f(1) c f(2)])
qed

section \<open>The read callback\<close>

text \<open>Forwarding numbers the packet; the idle record's replacement keeps the number.\<close>

lemma forward_request_numbered:
  assumes f: "forward_request J c v w = Inr (txt, w')" and w: "winv D X w"
  shows "numbered c w'"
proof -
  from f obtain w1 where w1: "mod_client c (\<lambda>ci. ci\<lparr>pack_id := pack_id ci + 1\<rparr>) w = Inr w1"
    and cm: "client_map w' = client_map w1"
    by (auto simp: forward_request_def res_simps Let_def bev_write_def split: if_splits)
  show ?thesis unfolding numbered_def cm
  proof (intro allI impI)
    fix ci assume "map_of (client_map w1) c = Some ci"
    with w1 obtain di where d: "map_of (client_map w) c = Some di" "pack_id ci = pack_id di + 1"
      by (auto simp: mod_client_def get_client_def update_conv' split: option.splits)
    have "0 \<le> pack_id di" using winv_client(1)[OF w d(1)] by (simp add: events_ok_def)
    then show "1 \<le> pack_id ci" using d(2) by simp
  qed
qed

lemma renew_idle_numbered:
  assumes r: "renew_idle env c w = Inr w'" and n: "numbered c w"
  shows "numbered c w'"
proof -
  have put: "put_ev p f u = Inr u' \<Longrightarrow> numbered c u' = numbered c u" for p f u u'
    by (auto simp: put_ev_def res_simps numbered_def)
  have al: "alloc_ev env u = Inr (p, u') \<Longrightarrow> numbered c u' = numbered c u" for u p u'
    by (auto simp: alloc_ev_def res_simps numbered_def split: if_splits)
  have md: "mod_client c (\<lambda>ci. ci\<lparr>cli_event_map := AList.update 0 p (cli_event_map ci)\<rparr>) u = Inr u' \<Longrightarrow>
      numbered c u' = numbered c u" for p u u'
    by (auto simp: numbered_def mod_client_def get_client_def update_conv' split: option.splits)
  have ps: "push_msg p u = Inr u' \<Longrightarrow> numbered c u' = numbered c u" for p u u'
    by (auto simp: push_msg_def res_simps numbered_def)
  show ?thesis using r n
    by (auto simp: renew_idle_def res_simps split: option.splits dest!: put al md ps)
qed

lemma ok_res_conj: "ok_res P r \<Longrightarrow> (\<And>x. r = Inr x \<Longrightarrow> Q x) \<Longrightarrow> ok_res (\<lambda>x. P x \<and> Q x) r"
  by (cases r) auto

lemma forward_and_remember_ok:
  assumes J: "json_ok J" and w: "winv {} {} w" and cl: "clean env" and c: "0 \<le> c" "c < 4294967296"
    and k: "0 \<le> read_count w" "read_count w < int (length (m_Serverlist w))"
  shows "ok_res (\<lambda>(stop, w'). winv {} {} w') (bindE (forward_request J c v w) (\<lambda>(txt, w).
      bindE (renew_idle env c w) (\<lambda>w. bindE (cache_request env c txt w) (\<lambda>w. Inr (False, w)))))"
proof (rule ok_res_bind)
  show "ok_res (\<lambda>x. (case x of (txt, w') \<Rightarrow> winv {} {} w') \<and> numbered c (snd x)) (forward_request J c v w)"
    using forward_request_numbered[OF _ w]
    by (intro ok_res_conj[OF forward_request_ok[OF J w k]]) auto
next
  fix x :: "string \<times> worker" assume "(case x of (txt, w') \<Rightarrow> winv {} {} w') \<and> numbered c (snd x)"
  then obtain tx w2 where x: "x = (tx, w2)" "winv {} {} w2" "numbered c w2" by (cases x) auto
  have "ok_res (\<lambda>w. winv {} {} w \<and> numbered c w) (renew_idle env c w2)"
    using renew_idle_numbered[OF _ x(3)] by (intro ok_res_conj[OF renew_idle_ok[OF x(2) cl c]]) auto
  then show "ok_res (\<lambda>(stop, w'). winv {} {} w') (case x of (txt, w) \<Rightarrow>
      bindE (renew_idle env c w) (\<lambda>w. bindE (cache_request env c txt w) (\<lambda>w. Inr (False, w))))"
    unfolding x(1) prod.case
    by (rule ok_res_bind) (rule ok_res_bind[OF cache_request_ok], use cl c in auto)
qed

lemma client_packet_ok:
  assumes J: "json_ok J" and w: "winv {} {} w" and cl: "clean env" and c: "0 \<le> c" "c < 4294967296"
  shows "ok_res (\<lambda>(stop, w'). winv {} {} w') (client_packet J env c msg w)"
proof (cases "j_parse J msg = None \<or> m_Serverlist w = []")
  case True
  then show ?thesis using w by (auto simp: client_packet_def split: option.splits)
next
  case False
  then obtain v where v: "j_parse J msg = Some v" "m_Serverlist w \<noteq> []" by auto
  define w0 where "w0 = w\<lparr>read_count := read_count w mod int (length (m_Serverlist w))\<rparr>"
  have w0: "winv {} {} w0" using w by (simp add: w0_def)
  have k: "0 \<le> read_count w0" "read_count w0 < int (length (m_Serverlist w0))" using v(2) by (simp_all add: w0_def)
  have "ok_res (\<lambda>(stop, w'). winv {} {} w') (bindE (current_limit c w0) (\<lambda>(ok, w).
          if \<not> ok then Inr (True, w)
          else
            bindE (forward_request J c v w) (\<lambda>(txt, w).
            bindE (renew_idle env c w) (\<lambda>w.
            bindE (cache_request env c txt w) (\<lambda>w. Inr (False, w))))))"
    by (rule ok_res_bind[OF current_limit_ok[OF w0]])
      (use k in \<open>auto simp: same_servers_def intro!: forward_and_remember_ok[OF J _ cl c]\<close>)
  then show ?thesis using v by (simp add: client_packet_def w0_def Let_def)
qed

lemma client_read_loop_ok:
  assumes J: "json_ok J" and cl: "clean env" and c: "0 \<le> c" "c < 4294967296" and w: "winv {} {} w"
  shows "ok_res (\<lambda>(rest, w'). winv {} {} w') (client_read_loop J env c inp w)"
proof -
  have "case client_packet J env c msg w of Inl e \<Rightarrow> e \<noteq> Dangling \<and> e \<noteq> Diverges | Inr (stop, w) \<Rightarrow> winv {} {} w"
    if "winv {} {} w" for msg w
    using client_packet_ok[OF J that cl c, of msg] by (simp add: ok_res_def split: sum.splits)
  from requests.loop_keeps[of "winv {} {}" "\<lambda>e. e \<noteq> Dangling \<and> e \<noteq> Diverges", OF this _ w, of inp] show ?thesis
    by (auto simp: ok_res_def split: sum.splits)
qed

lemma client_socket_read_cb_ok:
  assumes J: "json_ok J" and cl: "clean env" and w: "winv {} {} w"
  shows "ok_res (\<lambda>(rest, w'). winv {} {} w') (client_socket_read_cb J env arg inp w)"
  unfolding client_socket_read_cb_def Let_def
proof (rule ok_res_bind[OF get_client_ok])
  fix ci
  have "0 \<le> u32 arg" "u32 arg < 4294967296" by (simp_all add: u32_def)
  from client_read_loop_ok[OF J cl this w]
  show "ok_res (\<lambda>(rest, w'). winv {} {} w') (if close_flag ci then Inr (inp, w) else client_read_loop J env (u32 arg) inp w)"
    using w by simp
qed

section \<open>A client leaves\<close>

lemma winv_drop_client:
  assumes w: "winv D X w" and c: "map_of (client_map w) c = Some ci"
  shows "winv D X (drop_client c (w\<lparr>open_bevs := open_bevs w - {cl_bev ci}\<rparr>))"
proof -
  note parts = winvD[OF w]
  have mo: "map_of (AList.delete c (client_map w)) = (map_of (client_map w))(c := None)" by (rule delete_conv')
  let ?w = "drop_client c (w\<lparr>open_bevs := open_bevs w - {cl_bev ci}\<rparr>)"
  have cb: "cl_bev ci \<notin> set (map snd (m_Serverlist w))" "\<And>d di. map_of (client_map w) d = Some di \<Longrightarrow> d \<noteq> c \<Longrightarrow> cl_bev di \<noteq> cl_bev ci"
    using parts(4) c unfolding bev_part_def by metis+
  have "server_part ?w" using parts(3) cb(1) by (force simp: server_part_def drop_client_def)
  moreover have "bev_part ?w" using parts(4) cb(2) unfolding bev_part_def drop_client_def
    by (auto simp: mo split: if_splits)
  moreover have "client_part X ?w" using parts(5) by (auto simp: client_part_def drop_client_def mo distinct_delete split: if_splits)
  moreover have "idle_part ?w" using parts(6) by (auto simp: idle_part_def drop_client_def mo)
  ultimately show ?thesis using parts(1,2) by (auto simp: winv_def pool_part_def queue_part_def drop_client_def)
qed

lemma client_event_cb_ok:
  assumes w: "winv {} {} w" and c: "map_of (client_map w) (u32 arg) = Some ci"
  shows "ok_res (winv {} {}) (client_event_cb (cl_bev ci) arg w)"
proof -
  have "emit (BevFree (cl_bev ci)) (w\<lparr>open_bevs := open_bevs w - {cl_bev ci}\<rparr>)\<lparr>client_map := AList.delete (u32 arg) (client_map w)\<rparr>
    = emit (BevFree (cl_bev ci)) (drop_client (u32 arg) (w\<lparr>open_bevs := open_bevs w - {cl_bev ci}\<rparr>))"
    by (simp add: emit_def drop_client_def)
  then show ?thesis
    using winv_client(2)[OF w c] winv_drop_client[OF w c]
    by (simp add: client_event_cb_def bev_free_def drop_client_def)
qed

end
