(* ===== verification/Worker_Replies.thy ===== *)
theory Worker_Replies
  imports Worker_Requests
begin

text \<open>
  Preservation of the worker's invariant by the callbacks of its servers
  (\<open>work_server_socket_read_cb\<close>, \<open>work_server_event_cb\<close>), by a new server, and by the end of
  the worker.
\<close>

section \<open>Replies\<close>

text \<open>The event of the reply leaves the map of its client, and no other client refers to it.\<close>

lemma events_ok_other:
  assumes "events_ok X cs ms fs d di" "u32 (usr_uuid (cs p)) \<noteq> d"
  shows "events_ok X (cs(p := (cs p)\<lparr>finish_flag := True\<rparr>)) ms fs d di"
proof -
  have "map_of (cli_event_map di) j \<noteq> Some p" for j
    using assms unfolding events_ok_def by metis
  then show ?thesis using assms(1) unfolding events_ok_def by (metis fun_upd_apply)
qed

lemma events_ok_delete:
  assumes ev: "events_ok X cs ms fs c ci" and p: "map_of (cli_event_map ci) k = Some p"
  shows "events_ok X (cs(p := (cs p)\<lparr>finish_flag := True\<rparr>)) ms fs c (ci\<lparr>cli_event_map := AList.delete k (cli_event_map ci)\<rparr>)"
    (is "events_ok X ?cs ms fs c ?ci")
proof -
  have ci': "map_of (cli_event_map ?ci) = (map_of (cli_event_map ci))(k := None)" by (simp add: delete_conv')
  have "map_of (cli_event_map ci) j = Some p \<Longrightarrow> j = k" for j
    using ev p unfolding events_ok_def by metis
  then have np: "map_of (cli_event_map ?ci) j \<noteq> Some p" for j using ci' by auto
  have sub: "map_of (cli_event_map ?ci) j = Some q \<Longrightarrow> map_of (cli_event_map ci) j = Some q" for j q
    using ci' by (auto split: if_splits)
  show ?thesis unfolding events_ok_def
  proof (intro conjI allI impI)
    show "0 \<le> pack_id ?ci" using ev by (simp add: events_ok_def)
    fix j q assume j: "map_of (cli_event_map ?ci) j = Some q"
    then have qp: "q \<noteq> p" using np by auto
    note e = ev[unfolded events_ok_def, THEN conjunct2, rule_format, OF sub[OF j]]
    show "u32 (usr_uuid (?cs q)) = c" using e qp by simp
    show "if j = 0 then q \<in> ms \<and> (c \<notin> X \<longrightarrow> \<not> msg_flag (?cs q)) else q \<in> fs \<and> \<not> finish_flag (?cs q)"
      using e qp by auto
    fix j' assume "map_of (cli_event_map ?ci) j' = Some q"
    then show "j' = j" using e sub by blast
  qed
qed

lemma finish_request:
  assumes w: "winv {} {} w" and c: "map_of (client_map w) c = Some ci" "map_of (cli_event_map ci) k = Some p"
  shows "put_ev p (\<lambda>e. e\<lparr>finish_flag := True\<rparr>) w = Inr (w\<lparr>cells := (cells w)(p := (cells w p)\<lparr>finish_flag := True\<rparr>)\<rparr>)"
    "winv {} {} (w\<lparr>cells := (cells w)(p := (cells w p)\<lparr>finish_flag := True\<rparr>),
        client_map := AList.update c (ci\<lparr>cli_event_map := AList.delete k (cli_event_map ci)\<rparr>) (client_map w)\<rparr>)"
    (is "winv {} {} ?w")
proof -
  note parts = winvD[OF w]
  note ev = winv_client(1)[OF w c(1)]
  have pc: "u32 (usr_uuid (cells w p)) = c" "p \<in> set (M w) \<or> p \<in> set (F w)"
    using ev c(2) unfolding events_ok_def by metis+
  then have o: "p \<in> owned w" using parts(2) by (auto simp: queue_part_def)
  show "put_ev p (\<lambda>e. e\<lparr>finish_flag := True\<rparr>) w = Inr (w\<lparr>cells := (cells w)(p := (cells w p)\<lparr>finish_flag := True\<rparr>)\<rparr>)"
    using winv_deref[OF w o] by (simp add: put_ev_def)
  define ci' where "ci' = ci\<lparr>cli_event_map := AList.delete k (cli_event_map ci)\<rparr>"
  have mo: "map_of (client_map ?w) = (map_of (client_map w))(c \<mapsto> ci')" by (simp add: update_conv' ci'_def)
  have b: "cl_bev ci' = cl_bev ci" by (simp add: ci'_def)
  have "bev_part ?w" using parts(4) c(1) b unfolding bev_part_def mo by auto
  moreover have "client_part {} ?w"
    using parts(5) c(1) events_ok_other[of "{}" "cells w" _ _ _ _ p] events_ok_delete[OF ev c(2)] pc(1)
    unfolding client_part_def mo by (auto simp: distinct_update ci'_def)
  moreover have "idle_part ?w" using parts(6) c(1) b unfolding idle_part_def mo by auto
  ultimately show "winv {} {} ?w" using parts(1-3)
    by (auto simp: winv_def pool_part_def queue_part_def server_part_def)
qed

lemma reply_written_ok:
  assumes w: "winv {} {} w" and c: "map_of (client_map w) c = Some ci" "map_of (cli_event_map ci) k = Some p"
  shows "ok_res (\<lambda>(stop, w'). winv {} {} w') (bindE (bev_write (cl_bev ci) h w) (\<lambda>w.
      bindE (bev_write (cl_bev ci) t w) (\<lambda>w.
      bindE (put_ev p (\<lambda>e. e\<lparr>finish_flag := True\<rparr>) w) (\<lambda>w.
      bindE (mod_client c (\<lambda>ci. ci\<lparr>cli_event_map := AList.delete k (cli_event_map ci)\<rparr>) w) (\<lambda>w.
      Inr (False, w))))))"
proof -
  define w2 where "w2 = emit (BevWrite (cl_bev ci) t) (emit (BevWrite (cl_bev ci) h) w)"
  have i2: "winv {} {} w2" using w by (simp add: w2_def)
  have c2: "map_of (client_map w2) c = Some ci" using c(1) by (simp add: w2_def)
  have b: "bindE (bev_write (cl_bev ci) h w) (\<lambda>w. bindE (bev_write (cl_bev ci) t w) f) = f w2" for f :: "worker \<Rightarrow> (bool \<times> worker) res"
    using winv_client(2)[OF w c(1)] by (simp add: bev_write_def w2_def)
  show ?thesis unfolding b
    using finish_request[OF i2 c2 c(2)] c2 by (simp add: mod_client_def get_client_def)
qed

lemma server_packet_ok:
  assumes J: "json_ok J" and w: "winv {} {} w"
  shows "ok_res (\<lambda>(stop, w'). winv {} {} w') (server_packet J msg w)"
proof (cases "j_parse J msg")
  case None
  then show ?thesis using w by (simp add: server_packet_def)
next
  case (Some v)
  have ji: "ok_res (\<lambda>_. True) (j_int J k u)" "ok_res (\<lambda>_. True) (j_remove J k u)" for k u
    using J by (simp_all add: json_ok_def)
  show ?thesis unfolding server_packet_def Some option.case
    by (rule ok_res_bind[OF ji(1)], rule ok_res_bind[OF ji(1)], rule ok_res_bind[OF ji(2)], rule ok_res_bind[OF ji(2)])
      (auto simp: Let_def w reply_written_ok[OF w] split: option.splits)
qed

lemma work_server_socket_read_cb_ok:
  assumes J: "json_ok J" and w: "winv {} {} w"
  shows "ok_res (\<lambda>(rest, w'). winv {} {} w') (work_server_socket_read_cb J inp w)"
proof -
  have "case server_packet J msg w of Inl e \<Rightarrow> e \<noteq> Dangling \<and> e \<noteq> Diverges | Inr (stop, w) \<Rightarrow> winv {} {} w"
    if "winv {} {} w" for msg w
    using server_packet_ok[OF J that, of msg] by (simp add: ok_res_def split: sum.splits)
  from replies.loop_keeps[of "winv {} {}" "\<lambda>e. e \<noteq> Dangling \<and> e \<noteq> Diverges", OF this _ w, of inp] show ?thesis
    by (auto simp: ok_res_def split: sum.splits)
qed

section \<open>Servers come and go\<close>

lemma new_server_ok:
  assumes w: "winv {} {} w" and b: "bev \<notin> open_bevs w" and fd: "sockfd \<notin> set (map fst (m_Serverlist w))"
  shows "winv {} {} ((open_bev bev w)\<lparr>m_Serverlist := m_Serverlist w @ [(sockfd, bev)], m_server_info := m_server_info w @ [(bev, s)]\<rparr>)"
    (is "winv {} {} ?w")
proof -
  note parts = winvD[OF w]
  have nb: "bev \<notin> set (map snd (m_Serverlist w))" using parts(3) b by (auto simp: server_part_def)
  have nc: "cl_bev ci \<noteq> bev" if "map_of (client_map w) c = Some ci" for c ci
    using parts(4) that b unfolding bev_part_def by metis
  have "server_part ?w" using parts(3) nb fd by (auto simp: server_part_def open_bev_def)
  moreover have "bev_part ?w" using parts(4) nc by (auto simp: bev_part_def open_bev_def)
  moreover have "pool_part ?w" "queue_part {} ?w" "client_part {} ?w" "idle_part ?w"
    using parts by (auto simp: open_bev_def pool_part_def queue_part_def client_part_def idle_part_def)
  ultimately show ?thesis by (simp add: winv_def)
qed

lemma add_server_ok:
  assumes w: "winv {} {} w" and b: "e_bev env \<notin> open_bevs w"
    and fd: "\<And>fd ip port. e_connect env ip port = Some fd \<Longrightarrow> fd \<notin> set (map fst (m_Serverlist w))"
  shows "winv {} {} (add_server env a w)"
  using assms new_server_ok[of "emit (Connect (c_ip a) (addr_port a)) w"]
  by (auto simp: add_server_def Let_def emit_def split: option.splits)

text \<open>The start of a worker: the kernel gives every connection of its own a descriptor and a handle.\<close>

definition fresh_conns :: "(string \<times> int \<times> int option \<times> nat) list \<Rightarrow> worker \<Rightarrow> bool" where
  "fresh_conns xs w \<longleftrightarrow>
     distinct (map (\<lambda>(_, _, _, bev). bev) xs) \<and> (\<forall>(_, _, conn, bev)\<in>set xs. bev \<notin> open_bevs w) \<and>
     distinct (List.map_filter (\<lambda>(_, _, conn, _). conn) xs) \<and>
     (\<forall>fd\<in>set (List.map_filter (\<lambda>(_, _, conn, _). conn) xs). fd \<notin> set (map fst (m_Serverlist w)))"

lemma connect_servers_ok:
  assumes "winv {} {} w" "fresh_conns xs w"
  shows "ok_res (\<lambda>(go, w'). winv {} {} w' \<and> client_map w' = client_map w) (connect_servers junk snd_ok xs w)"
  using assms
proof (induction xs arbitrary: w)
  case (Cons x xs)
  obtain ip port conn bev where x: "x = (ip, port, conn, bev)" by (cases x)
  show ?case
  proof (cases "strcpy_at (replicate 20 NUL) 0 ip")
    case (Inl e)
    then show ?thesis by (auto simp: x strcpy_at_def split: if_splits)
  next
    case ip: (Inr b)
    show ?thesis
    proof (cases conn)
      case None
      let ?w = "emit (MsgSnd \<lparr>msg_type = 1, msg_port = port, msg_ip = ip, process_id = junk\<rparr>) (emit (Connect ip port) w)"
      have "fresh_conns xs ?w" using Cons.prems(2) by (simp add: fresh_conns_def x None emit_def map_filter_simps)
      from Cons.IH[OF _ this] Cons.prems(1) show ?thesis by (simp add: x ip None Let_def) (auto simp: emit_def)
    next
      case (Some sockfd)
      let ?v = "emit (Connect ip port) w"
      let ?w = "(open_bev bev ?v)\<lparr>m_Serverlist := m_Serverlist ?v @ [(sockfd, bev)], m_server_info := m_server_info ?v @ [(bev, ip_port ip port)]\<rparr>"
      have "winv {} {} ?w"
        by (rule new_server_ok) (use Cons.prems in \<open>auto simp: fresh_conns_def x Some emit_def map_filter_simps\<close>)
      moreover have "fresh_conns xs ?w"
        using Cons.prems(2) by (fastforce simp: fresh_conns_def x Some emit_def open_bev_def map_filter_simps image_iff)
      ultimately show ?thesis using Cons.IH[of ?w] by (simp add: x ip Some Let_def)
    qed
  qed
qed simp

lemma find_index_distinct:
  assumes "distinct (map f xs)" "i < length xs" "f (xs ! i) = y"
  shows "find_index (\<lambda>x. f x = y) xs = i"
  using assms
proof (induction xs arbitrary: i)
  case (Cons x xs)
  show ?case
  proof (cases i)
    case 0
    then show ?thesis using Cons.prems by simp
  next
    case (Suc j)
    then have "f (xs ! j) = y" "j < length xs" using Cons.prems by auto
    moreover from this have "f x \<noteq> y" using Cons.prems(1) nth_mem by fastforce
    ultimately show ?thesis using Cons Suc by simp
  qed
qed simp

lemma swap_pop_Inr: "i < length v \<Longrightarrow> swap_pop v i = Inr (butlast (v[i := last v]))"
  by (simp add: swap_pop_def)

lemma map_swap_pop_list:
  assumes "i < length v"
  shows "map f (butlast (v[i := last v])) = butlast ((map f v)[i := last (map f v)])"
proof -
  have "v \<noteq> []" using assms by auto
  then show ?thesis by (simp add: map_butlast map_update last_map)
qed

lemma set_swap_pop_distinct:
  assumes "distinct v" "i < length v"
  shows "distinct (butlast (v[i := last v])) \<and> set (butlast (v[i := last v])) = set v - {v ! i}"
  using distinct_swap_pop[OF swap_pop_Inr[OF assms(2)] assms(1)] .

text \<open>A server leaves the list and its connection is freed; the other servers keep their entries.\<close>

lemma server_dropped:
  assumes w: "winv {} {} w" and i: "i < length (m_Serverlist w)" "m_Serverlist w ! i = (fd, bev)"
    and l: "swap_pop (m_Serverlist w) i = Inr l" and si: "fst ` set (m_server_info w) - {bev} \<subseteq> fst ` set si"
  shows "\<exists>w'. bev_free bev (w\<lparr>m_Serverlist := l, m_server_info := si\<rparr>) = Inr w' \<and> winv {} {} w' \<and>
     m_server_info w' = si \<and> m_Serverlist w' = l \<and> open_bevs w' = open_bevs w - {bev}"
proof -
  note parts = winvD[OF w]
  let ?sl = "m_Serverlist w"
  have d: "distinct (map fst ?sl)" "distinct (map snd ?sl)" "snd ` set ?sl \<subseteq> open_bevs w" "snd ` set ?sl \<subseteq> fst ` set (m_server_info w)"
    using parts(3) by (auto simp: server_part_def)
  have b: "bev \<in> snd ` set ?sl" using i by (metis image_eqI nth_mem snd_conv)
  have lb: "l = butlast (?sl[i := last ?sl])" using l i(1) by (simp add: swap_pop_Inr)
  have sl: "distinct (map fst l)" "distinct (map snd l)" "snd ` set l = snd ` set ?sl - {bev}"
    using set_swap_pop_distinct[OF d(1)] set_swap_pop_distinct[OF d(2)] i
    unfolding lb map_swap_pop_list[OF i(1)] set_map[symmetric] by auto
  have en: "snd ` set l \<subseteq> fst ` set si" unfolding sl(3) using Diff_mono[OF d(4), of "{bev}" "{bev}"] si by simp
  define w1 where "w1 = w\<lparr>m_Serverlist := l, m_server_info := si, open_bevs := open_bevs w - {bev}\<rparr>"
  have "cl_bev ci \<noteq> bev" if "map_of (client_map w) c = Some ci" for c ci
    using parts(4) that b unfolding bev_part_def set_map by metis
  then have "bev_part w1" using parts(4) sl(3) unfolding bev_part_def w1_def set_map by auto
  moreover have "server_part w1" using sl d(3) en by (auto simp: server_part_def w1_def)
  ultimately have "winv {} {} w1" using parts
    by (auto simp: winv_def w1_def pool_part_def queue_part_def client_part_def idle_part_def)
  moreover have "bev \<in> open_bevs w" using d(3) b by blast
  then have "bev_free bev (w\<lparr>m_Serverlist := l, m_server_info := si\<rparr>) = Inr (emit (BevFree bev) w1)"
    by (simp add: bev_free_def w1_def emit_def)
  ultimately show ?thesis by (intro exI[of _ "emit (BevFree bev) w1"]) (simp add: w1_def)
qed

lemma swap_pop_rest: "swap_pop v j = Inr v' \<Longrightarrow> f ` set v - {f (v ! j)} \<subseteq> f ` set v'"
proof -
  assume "swap_pop v j = Inr v'"
  then have "add_mset (v ! j) (mset v') = mset v" by (rule mset_swap_pop)
  then have "set v = insert (v ! j) (set v')" by (metis set_mset_add_mset_insert set_mset_mset)
  then show ?thesis by auto
qed

lemma work_server_event_cb_ok:
  assumes w: "winv {} {} w" and s: "(fd, bev) \<in> set (m_Serverlist w)"
  shows "ok_res (winv {} {}) (work_server_event_cb fd bev w)"
proof -
  let ?sl = "m_Serverlist w" and ?si = "m_server_info w"
  have d: "distinct (map fst ?sl)" "bev \<in> fst ` set ?si"
    using w s by (force simp: winv_def server_part_def)+
  from s obtain i where i: "i < length ?sl" "?sl ! i = (fd, bev)" by (auto simp: in_set_conv_nth)
  have fi: "find_index (\<lambda>x. fst x = fd) ?sl = i" by (rule find_index_distinct[OF d(1) i(1)]) (simp add: i(2))
  define j where "j = find_index (\<lambda>x. fst x = bev) ?si"
  have j: "j < length ?si" using d(2) unfolding j_def find_index_less by force
  have jb: "fst (?si ! j) = bev" using find_index_nth[OF j[unfolded j_def]] by (simp add: j_def)
  obtain l si where l: "swap_pop ?sl i = Inr l" and si: "swap_pop ?si j = Inr si"
    using i(1) j by (simp add: swap_pop_def)
  have "fst ` set ?si - {bev} \<subseteq> fst ` set si" using swap_pop_rest[OF si, of fst] jb by simp
  from server_dropped[OF w i l this] obtain w1 where
    w1: "bev_free bev (w\<lparr>m_Serverlist := l, m_server_info := si\<rparr>) = Inr w1" "winv {} {} w1" by blast
  have sp: "ok_res (\<lambda>_. True) (split_ip_port s)" for s
    by (auto simp: split_ip_port_def substr_def Let_def)
  show ?thesis
    unfolding work_server_event_cb_def fi j_def[symmetric] Let_def l si bindE_Inr w1(1)
    by (rule ok_res_bind[OF sp]) (use w1(2) in \<open>auto simp: strcpy_at_def\<close>)
qed

text \<open>
  Command 3 takes the index of an address in \<open>m_server_info\<close> for one of \<open>m_Serverlist\<close>. That is right as
  long as both have the same server there; it is for any server until one has been dropped.
\<close>

definition in_step :: "address \<Rightarrow> worker \<Rightarrow> bool" where
  "in_step a w \<longleftrightarrow> (let i = find_index (\<lambda>x. snd x = ip_port (c_ip a) (addr_port a)) (m_server_info w) in
     i < length (m_server_info w) \<longrightarrow> i < length (m_Serverlist w) \<and> snd (m_Serverlist w ! i) = fst (m_server_info w ! i))"

lemma in_step_before: "map fst (m_server_info w) = map snd (m_Serverlist w) \<Longrightarrow> in_step a w"
  unfolding in_step_def Let_def by (metis length_map nth_map)

lemma remove_server_ok:
  assumes w: "winv {} {} w" and a: "in_step a w"
  shows "ok_res (winv {} {}) (remove_server a w)"
proof -
  define i where "i = find_index (\<lambda>x. snd x = ip_port (c_ip a) (addr_port a)) (m_server_info w)"
  show ?thesis
  proof (cases "i < length (m_server_info w)")
    case True
    then have i: "i < length (m_Serverlist w)" "snd (m_Serverlist w ! i) = fst (m_server_info w ! i)"
      using a by (auto simp: in_step_def Let_def i_def)
    obtain l where l: "swap_pop (m_Serverlist w) i = Inr l" using i(1) by (simp add: swap_pop_def)
    have "m_Serverlist w ! i = (fst (m_Serverlist w ! i), fst (m_server_info w ! i))" using i(2) by (metis prod.collapse)
    from server_dropped[OF w i(1) this l, of "m_server_info w"] obtain w1 where
      w1: "bev_free (fst (m_server_info w ! i)) (w\<lparr>m_Serverlist := l\<rparr>) = Inr w1" "winv {} {} w1" by auto
    have "remove_server a w = Inr w1"
      unfolding remove_server_def Let_def i_def[symmetric] using True l w1(1) by simp
    then show ?thesis using w1(2) by simp
  next
    case False
    then show ?thesis using w by (simp add: remove_server_def Let_def i_def[symmetric])
  qed
qed

section \<open>The end of the worker\<close>

lemma bev_free_all:
  assumes "distinct (map f xs)" "set (map f xs) \<subseteq> open_bevs w"
  shows "\<exists>w'. foldE (\<lambda>x. bev_free (f x)) xs w = Inr w' \<and> open_bevs w' = open_bevs w - set (map f xs) \<and>
     mp w' = mp w \<and> m_Serverlist w' = m_Serverlist w"
  using assms
proof (induction xs arbitrary: w)
  case Nil
  then show ?case by simp
next
  case (Cons x xs)
  let ?w = "emit (BevFree (f x)) (w\<lparr>open_bevs := open_bevs w - {f x}\<rparr>)"
  have "bev_free (f x) w = Inr ?w" using Cons.prems by (simp add: bev_free_def)
  moreover obtain w' where "foldE (\<lambda>x. bev_free (f x)) xs ?w = Inr w'" "open_bevs w' = open_bevs ?w - set (map f xs)"
    "mp w' = mp ?w" "m_Serverlist w' = m_Serverlist ?w"
    using Cons.IH[of ?w] Cons.prems by auto
  ultimately show ?case by (intro exI[of _ w']) auto
qed

lemma client_bevs_distinct:
  assumes b: "bev_part w" and d: "distinct (map fst (client_map w))"
  shows "distinct (map (\<lambda>x. cl_bev (snd x)) (client_map w))"
    "set (map (\<lambda>x. cl_bev (snd x)) (client_map w)) \<subseteq> open_bevs w - set (map snd (m_Serverlist w))"
proof -
  have m: "map_of (client_map w) c = Some ci" if "(c, ci) \<in> set (client_map w)" for c ci
    using d that by (simp add: map_of_is_SomeI)
  have "inj_on (\<lambda>x. cl_bev (snd x)) (set (client_map w))"
  proof (rule inj_onI)
    fix x y assume x: "x \<in> set (client_map w)" "y \<in> set (client_map w)" "cl_bev (snd x) = cl_bev (snd y)"
    have mx: "map_of (client_map w) (fst x) = Some (snd x)" "map_of (client_map w) (fst y) = Some (snd y)"
      using m[of "fst x" "snd x"] m[of "fst y" "snd y"] x by auto
    then have "fst x = fst y" using b x(3) unfolding bev_part_def by metis
    then show "x = y" using mx by (simp add: prod_eq_iff)
  qed
  moreover have "distinct (client_map w)" using d by (simp add: distinct_map)
  ultimately show "distinct (map (\<lambda>x. cl_bev (snd x)) (client_map w))" by (simp add: distinct_map)
  show "set (map (\<lambda>x. cl_bev (snd x)) (client_map w)) \<subseteq> open_bevs w - set (map snd (m_Serverlist w))"
  proof
    fix y assume "y \<in> set (map (\<lambda>x. cl_bev (snd x)) (client_map w))"
    then obtain c ci where "(c, ci) \<in> set (client_map w)" "y = cl_bev ci" by auto
    then show "y \<in> open_bevs w - set (map snd (m_Serverlist w))"
      using b m unfolding bev_part_def by blast
  qed
qed

lemma shut_down_ok:
  assumes w: "winv {} {} w"
  shows "\<exists>w'. shut_down w = Inr w' \<and> owned w' = {} \<and>
     open_bevs w' = open_bevs w - set (map (\<lambda>x. cl_bev (snd x)) (client_map w)) - set (map snd (m_Serverlist w))"
proof -
  have parts: "pool_part w" "server_part w" "bev_part w" "client_part {} w" using w by (auto simp: winv_def)
  have dk: "distinct (map fst (client_map w))" using parts(4) by (simp add: client_part_def)
  note cb = client_bevs_distinct[OF parts(3) dk]
  have sub: "set (map (\<lambda>x. cl_bev (snd x)) (client_map w)) \<subseteq> open_bevs w" using cb(2) by blast
  obtain w1 where w1: "foldE (\<lambda>x. bev_free (cl_bev (snd x))) (client_map w) w = Inr w1"
    "open_bevs w1 = open_bevs w - set (map (\<lambda>x. cl_bev (snd x)) (client_map w))" "mp w1 = mp w" "m_Serverlist w1 = m_Serverlist w"
    using bev_free_all[OF cb(1) sub] by blast
  have d2: "distinct (map snd (m_Serverlist w1))" "set (map snd (m_Serverlist w1)) \<subseteq> open_bevs w1"
    using parts(2) cb(2) w1(2,4) unfolding server_part_def by auto
  obtain w2 where w2: "foldE (\<lambda>x. bev_free (snd x)) (m_Serverlist w1) w1 = Inr w2"
    "open_bevs w2 = open_bevs w1 - set (map snd (m_Serverlist w1))" "mp w2 = mp w1"
    using bev_free_all[OF d2] by blast
  have "pool_ok (mp w2)" using parts(1) w1(3) w2(3) by (simp add: pool_part_def)
  from MemoryPoolClear_ok[OF this] obtain m where m: "MemoryPoolClear (mp w2) = Inr m" "pool_ok m" by blast
  then have "\<exists>rs. MemoryPoolDestroy m = Inr (0, rs)"
    by (simp add: MemoryPoolDestroy_def MP_LOCK_def pool_ok_def)
  then obtain rs where "MemoryPoolDestroy m = Inr (0, rs)" by blast
  then show ?thesis using w1 w2 m by (simp add: shut_down_def Let_def)
qed

end
