(* ===== verification/Worker_Timers.thy ===== *)
theory Worker_Timers
  imports Worker_Replies
begin

text \<open>
  The timers of a worker: \<open>check_time_out_cb\<close> ends, keeps the invariant and leaves no overdue
  record at the front of either queue; \<open>empty_count_cb\<close> resets the rate limit.
\<close>

section \<open>Giving an event back\<close>

lemma queue_front:
  assumes "winv {} X w" "\<not> ring_empty (msg_queue w)"
  shows "ring_inv (ring_pop (msg_queue w))"
    "M w = ring_front (msg_queue w) # ring_items (ring_pop (msg_queue w))"
  using rq.pop_ok[of "msg_queue w"] assms by (auto simp: winv_def queue_part_def)

lemma fin_front:
  assumes "winv {} X w" "\<not> ring_empty (fin_queue w)"
  shows "ring_inv (ring_pop (fin_queue w))"
    "F w = ring_front (fin_queue w) # ring_items (ring_pop (fin_queue w))"
  using rq.pop_ok[of "fin_queue w"] assms by (auto simp: winv_def queue_part_def)

text \<open>No client refers to the event.\<close>

definition unreferenced :: "int \<Rightarrow> worker \<Rightarrow> bool" where
  "unreferenced p w \<longleftrightarrow> (\<forall>c ci k. map_of (client_map w) c = Some ci \<longrightarrow> map_of (cli_event_map ci) k \<noteq> Some p)"

lemma events_ok_subset:
  assumes "events_ok X cs ms fs c ci" "\<And>k. map_of (cli_event_map ci) k \<noteq> Some p" "ms - {p} \<subseteq> ms'" "fs - {p} \<subseteq> fs'"
  shows "events_ok X cs ms' fs' c ci"
  unfolding events_ok_def
proof (intro conjI allI impI)
  show "0 \<le> pack_id ci" using assms(1) by (simp add: events_ok_def)
  fix k q assume k: "map_of (cli_event_map ci) k = Some q"
  then have "q \<noteq> p" using assms(2) by auto
  moreover note e = assms(1)[unfolded events_ok_def, THEN conjunct2, rule_format, OF k]
  ultimately show "if k = 0 then q \<in> ms' \<and> (c \<notin> X \<longrightarrow> \<not> msg_flag (cs q)) else q \<in> fs' \<and> \<not> finish_flag (cs q)"
    using assms(3,4) by (auto split: if_splits)
  show "u32 (usr_uuid (cs q)) = c" using e by simp
  fix k' assume "map_of (cli_event_map ci) k' = Some q"
  then show "k' = k" using e by blast
qed

lemma winv_release:
  assumes w: "winv {} {} w" and p: "p \<in> owned w" and u: "unreferenced p w"
  obtains m where "free_ev p w = Inr (w\<lparr>mp := m, owned := owned w - {p}\<rparr>)"
    "\<And>mq fq. ring_inv mq \<Longrightarrow> ring_inv fq \<Longrightarrow> distinct (ring_items mq @ ring_items fq) \<Longrightarrow> set (ring_items mq) = set (M w) - {p} \<Longrightarrow>
       set (ring_items fq) = set (F w) - {p} \<Longrightarrow>
       winv {} {} (w\<lparr>mp := m, owned := owned w - {p}, msg_queue := mq, fin_queue := fq\<rparr>)"
proof -
  note parts = winvD[OF w]
  obtain m where m: "free_ev p w = Inr (w\<lparr>mp := m, owned := owned w - {p}\<rparr>)"
    "pool_part (w\<lparr>mp := m, owned := owned w - {p}\<rparr>)" using free_ev_ok[OF parts(1) p] by blast
  show thesis
  proof (rule that[OF m(1)])
    fix mq fq assume q: "ring_inv mq" "ring_inv fq" "distinct (ring_items mq @ ring_items fq)"
      "set (ring_items mq) = set (M w) - {p}" "set (ring_items fq) = set (F w) - {p}"
    let ?w = "w\<lparr>mp := m, owned := owned w - {p}, msg_queue := mq, fin_queue := fq\<rparr>"
    have "events_ok {} (cells w) (set (M w) - {p}) (set (F w) - {p}) c ci"
      if "events_ok {} (cells w) (set (M w)) (set (F w)) c ci" "map_of (client_map w) c = Some ci" for c ci
      by (rule events_ok_subset[OF that(1), of p]) (use u that(2) in \<open>auto simp: unreferenced_def\<close>)
    then have "client_part {} ?w" using parts(5) q(4,5) by (auto simp: client_part_def)
    moreover have "queue_part {} ?w" "idle_part ?w" using parts(2,6) q by (auto simp: queue_part_def idle_part_def)
    moreover have "pool_part ?w" "server_part ?w" "bev_part ?w"
      using m(2) parts(3,4) by (auto simp: pool_part_def server_part_def bev_part_def)
    ultimately show "winv {} {} ?w" by (simp add: winv_def)
  qed
qed

lemma release_idle:
  assumes w: "winv {} {} w" and ne: "\<not> ring_empty (msg_queue w)" and u: "unreferenced (ring_front (msg_queue w)) w"
  shows "\<exists>w'. bindE (free_ev (ring_front (msg_queue w)) w) (\<lambda>w. Inr (False, pop_msg w)) = Inr (False, w') \<and>
     winv {} {} w' \<and> M w = ring_front (msg_queue w) # M w' \<and> F w' = F w \<and> cells w' = cells w \<and>
     client_map w' = client_map w"
proof -
  let ?p = "ring_front (msg_queue w)"
  note f = queue_front[OF w ne]
  have q: "queue_part {} w" using w by (simp add: winv_def)
  then have o: "?p \<in> owned w" using f(2) by (auto simp: queue_part_def)
  show ?thesis
  proof (rule winv_release[OF w o u])
    fix m
    assume m: "free_ev ?p w = Inr (w\<lparr>mp := m, owned := owned w - {?p}\<rparr>)"
      and keep: "\<And>mq fq. ring_inv mq \<Longrightarrow> ring_inv fq \<Longrightarrow> distinct (ring_items mq @ ring_items fq) \<Longrightarrow>
        set (ring_items mq) = set (M w) - {?p} \<Longrightarrow> set (ring_items fq) = set (F w) - {?p} \<Longrightarrow>
        winv {} {} (w\<lparr>mp := m, owned := owned w - {?p}, msg_queue := mq, fin_queue := fq\<rparr>)"
    have "winv {} {} (w\<lparr>mp := m, owned := owned w - {?p}, msg_queue := ring_pop (msg_queue w), fin_queue := fin_queue w\<rparr>)"
      by (rule keep) (use f q in \<open>auto simp: queue_part_def\<close>)
    then show ?thesis using m f(2) by (simp add: pop_msg_def)
  qed
qed

lemma release_fin:
  assumes w: "winv {} {} w" and ne: "\<not> ring_empty (fin_queue w)" and u: "unreferenced (ring_front (fin_queue w)) w"
  shows "\<exists>w'. bindE (free_ev (ring_front (fin_queue w)) w) (\<lambda>w. Inr (False, pop_fin w)) = Inr (False, w') \<and>
     winv {} {} w' \<and> F w = ring_front (fin_queue w) # F w' \<and> M w' = M w \<and> cells w' = cells w \<and>
     client_map w' = client_map w"
proof -
  let ?p = "ring_front (fin_queue w)"
  note f = fin_front[OF w ne]
  have q: "queue_part {} w" using w by (simp add: winv_def)
  then have o: "?p \<in> owned w" using f(2) by (auto simp: queue_part_def)
  show ?thesis
  proof (rule winv_release[OF w o u])
    fix m
    assume m: "free_ev ?p w = Inr (w\<lparr>mp := m, owned := owned w - {?p}\<rparr>)"
      and keep: "\<And>mq fq. ring_inv mq \<Longrightarrow> ring_inv fq \<Longrightarrow> distinct (ring_items mq @ ring_items fq) \<Longrightarrow>
        set (ring_items mq) = set (M w) - {?p} \<Longrightarrow> set (ring_items fq) = set (F w) - {?p} \<Longrightarrow>
        winv {} {} (w\<lparr>mp := m, owned := owned w - {?p}, msg_queue := mq, fin_queue := fq\<rparr>)"
    have "winv {} {} (w\<lparr>mp := m, owned := owned w - {?p}, msg_queue := msg_queue w, fin_queue := ring_pop (fin_queue w)\<rparr>)"
      by (rule keep) (use f q in \<open>auto simp: queue_part_def\<close>)
    then show ?thesis using m f(2) by (simp add: pop_fin_def)
  qed
qed

lemma unreferenced_absent:
  assumes w: "winv {} {} w" and "map_of (client_map w) (u32 (usr_uuid (cells w p))) = None"
  shows "unreferenced p w"
  unfolding unreferenced_def
proof (intro allI impI notI)
  fix c ci k assume c: "map_of (client_map w) c = Some ci" "map_of (cli_event_map ci) k = Some p"
  then have "u32 (usr_uuid (cells w p)) = c" using winv_client(1)[OF w c(1)] unfolding events_ok_def by metis
  then show False using assms(2) c(1) by simp
qed

lemma unreferenced_done:
  assumes w: "winv {} {} w" and p: "p \<in> set (M w) \<and> msg_flag (cells w p) \<or> p \<in> set (F w) \<and> finish_flag (cells w p)"
  shows "unreferenced p w"
  unfolding unreferenced_def
proof (intro allI impI notI)
  fix c ci k assume c: "map_of (client_map w) c = Some ci" "map_of (cli_event_map ci) k = Some p"
  have e: "if k = 0 then p \<in> set (M w) \<and> \<not> msg_flag (cells w p) else p \<in> set (F w) \<and> \<not> finish_flag (cells w p)"
    using winv_client(1)[OF w c(1)] c(2) unfolding events_ok_def by (metis empty_iff)
  have "\<not> (p \<in> set (M w) \<and> p \<in> set (F w))" using w by (auto simp: winv_def queue_part_def)
  then show False using e p by (auto split: if_splits)
qed

section \<open>The idle loop\<close>

text \<open>A client that never asked is dropped together with its record.\<close>

lemma idle_drop:
  assumes w: "winv {} {} w" and ne: "\<not> ring_empty (msg_queue w)" and p: "p = ring_front (msg_queue w)"
    and c: "map_of (client_map w) (u32 (usr_uuid (cells w p))) = Some ci" and nf: "\<not> msg_flag (cells w p)"
  shows "\<exists>w'. bindE (bindE (bev_free (ev_bev (cells w p)) w) (\<lambda>v. Inr (drop_client (u32 (usr_uuid (cells w p))) v)))
      (\<lambda>w. bindE (free_ev p w) (\<lambda>w. Inr (False, pop_msg w))) = Inr (False, w') \<and> winv {} {} w' \<and> M w = p # M w'"
proof -
  let ?c = "u32 (usr_uuid (cells w p))"
  have "p \<in> set (M w)" using queue_front[OF w ne] p by simp
  then have b: "ev_bev (cells w p) = cl_bev ci" using w c nf by (auto simp: winv_def idle_part_def)
  define w1 where "w1 = drop_client ?c (emit (BevFree (cl_bev ci)) (w\<lparr>open_bevs := open_bevs w - {cl_bev ci}\<rparr>))"
  have "w1 = emit (BevFree (cl_bev ci)) (drop_client ?c (w\<lparr>open_bevs := open_bevs w - {cl_bev ci}\<rparr>))"
    by (simp add: w1_def emit_def drop_client_def)
  then have i1: "winv {} {} w1" using winv_drop_client[OF w c] by simp
  have s: "msg_queue w1 = msg_queue w" "cells w1 = cells w" by (simp_all add: w1_def drop_client_def)
  have "map_of (client_map w1) ?c = None" by (simp add: w1_def drop_client_def delete_conv')
  then have "unreferenced p w1" using unreferenced_absent[OF i1, of p] s(2) by simp
  from release_idle[OF i1, unfolded s, OF ne this[unfolded p]] obtain w' where
    "bindE (free_ev p w1) (\<lambda>w. Inr (False, pop_msg w)) = Inr (False, w')" "winv {} {} w'" "M w = p # M w'"
    unfolding p by blast
  moreover have "bindE (bev_free (ev_bev (cells w p)) w) (\<lambda>v. Inr (drop_client ?c v)) = Inr w1"
    using winv_client(2)[OF w c] by (simp add: bev_free_def b w1_def)
  ultimately show ?thesis by simp
qed

lemma idle_round_ok:
  assumes w: "winv {} {} w"
  shows "ok_res (\<lambda>(stop, w'). winv {} {} w' \<and> (if stop then w' = w \<and> (M w = [] \<or>
        map_of (client_map w) (u32 (usr_uuid (cells w (hd (M w))))) \<noteq> None \<and> now - arr_time (cells w (hd (M w))) \<le> MSG_TIMEOUT)
      else length (M w') < length (M w))) (idle_round now w)"
proof (cases "ring_empty (msg_queue w)")
  case True
  then have "M w = []" using w rq.empty_ok[of "msg_queue w"] by (auto simp: winv_def queue_part_def)
  then show ?thesis using True w by (simp add: idle_round_def)
next
  case False
  let ?p = "ring_front (msg_queue w)"
  note f = queue_front[OF w False]
  have pm: "?p \<in> set (M w)" "hd (M w) = ?p" unfolding f(2) by simp_all
  have o: "?p \<in> owned w" using pm w by (auto simp: winv_def queue_part_def)
  note d = winv_deref[OF w o]
  have less: "M w = ?p # M w' \<Longrightarrow> length (M w') < length (M w)" for w' using arg_cong[of "M w" _ length] by simp
  let ?ci = "map_of (client_map w) (u32 (usr_uuid (cells w ?p)))"
  consider (gone) "?ci = None" | (finished) ci where "?ci = Some ci" "now - arr_time (cells w ?p) > MSG_TIMEOUT" "msg_flag (cells w ?p)"
    | (idle) ci where "?ci = Some ci" "now - arr_time (cells w ?p) > MSG_TIMEOUT" "\<not> msg_flag (cells w ?p)"
    | (early) ci where "?ci = Some ci" "\<not> now - arr_time (cells w ?p) > MSG_TIMEOUT" by (cases ?ci) auto
  then show ?thesis
  proof cases
    case gone
    then show ?thesis using release_idle[OF w False unreferenced_absent[OF w gone]] False d by (auto simp: idle_round_def dest: less)
  next
    case finished
    then have "unreferenced ?p w" using unreferenced_done[OF w] pm by simp
    then show ?thesis using release_idle[OF w False] False d finished by (auto simp: idle_round_def dest: less)
  next
    case idle
    then show ?thesis using idle_drop[OF w False refl idle(1,3)] False d by (auto simp: idle_round_def dest: less)
  next
    case early
    then show ?thesis using False d w pm(2) by (simp add: idle_round_def)
  qed
qed

section \<open>The resend loop\<close>

definition overdue :: "int \<Rightarrow> worker \<Rightarrow> nat" where
  "overdue now w = length (filter (\<lambda>p. now - arr_time (cells w p) > FIN_TIMEOUT) (F w))"

text \<open>What is sent again, and that the event goes to the end of the queue with the time of now.\<close>

definition restamp :: "int \<Rightarrow> int \<Rightarrow> (int \<Rightarrow> cli_event) \<Rightarrow> int \<Rightarrow> cli_event" where
  "restamp now p cs = cs(p := (cs p)\<lparr>arr_time := now\<rparr>)"

lemma restamp_fields [simp]:
  "usr_uuid (restamp now p cs x) = usr_uuid (cs x)" "msg_flag (restamp now p cs x) = msg_flag (cs x)"
  "ev_bev (restamp now p cs x) = ev_bev (cs x)" "finish_flag (restamp now p cs x) = finish_flag (cs x)"
  "arr_time (restamp now p cs x) = (if x = p then now else arr_time (cs x))" "x \<noteq> p \<Longrightarrow> restamp now p cs x = cs x"
  by (simp_all add: restamp_def)

lemma resend_run:
  assumes w: "winv {} {} w" and p: "p \<in> owned w" and ne: "m_Serverlist w \<noteq> []"
  shows "\<exists>w'. winv {} {} w' \<and> fin_queue w' = fin_queue w \<and> msg_queue w' = msg_queue w \<and> cells w' = cells w \<and>
    client_map w' = client_map w \<and> resend now p w = push_fin p (w'\<lparr>cells := restamp now p (cells w)\<rparr>)"
proof -
  define k where "k = resend_count w mod int (length (m_Serverlist w))"
  define b where "b = snd (m_Serverlist w ! nat k)"
  have "nat k < length (m_Serverlist w)" using ne by (simp add: k_def nat_less_iff)
  then have bo: "b \<in> open_bevs w" using server_bev_open[OF w] by (simp add: b_def)
  define e where "e = cells w p"
  define w' where "w' = (emit (BevWrite b (take (nat (head_length e)) (c_info e)))
     (emit (BevWrite b (enc_int (head_length e))) w))\<lparr>resend_count := k + 1\<rparr>"
  have "winv {} {} w'" using w by (simp add: w'_def)
  moreover have "resend now p w = push_fin p (w'\<lparr>cells := restamp now p (cells w)\<rparr>)"
    using ne bo winv_deref[OF w p] p unfolding resend_def k_def[symmetric] b_def[symmetric] Let_def e_def[symmetric]
    by (simp add: bev_write_def put_ev_def deref_def w'_def restamp_def e_def split: if_splits)
  ultimately show ?thesis by (intro exI[of _ w']) (simp add: w'_def)
qed

text \<open>A round of the queue keeps the invariant.\<close>

lemma winv_rotate:
  assumes w: "winv {} {} w" and q: "ring_inv q" "F w = p # r" "ring_items q = r @ [p]"
  shows "winv {} {} (w\<lparr>cells := restamp now p (cells w), fin_queue := q\<rparr>)"
proof -
  let ?w = "w\<lparr>cells := restamp now p (cells w), fin_queue := q\<rparr>"
  note parts = winvD[OF w]
  have s: "set (ring_items q) = set (F w)" using q by auto
  have "events_ok {} (restamp now p (cells w)) ms fs c ci = events_ok {} (cells w) ms fs c ci" for ms fs c ci
    unfolding events_ok_def by simp
  then have "client_part {} ?w" using parts(5) s by (simp add: client_part_def)
  moreover have "queue_part {} ?w" using parts(2) q s by (auto simp: queue_part_def)
  moreover have "idle_part ?w" using parts(6) by (simp add: idle_part_def)
  moreover have "pool_part ?w" "server_part ?w" "bev_part ?w"
    using parts(1,3,4) by (auto simp: pool_part_def server_part_def bev_part_def)
  ultimately show ?thesis by (simp add: winv_def)
qed

lemma overdue_rotate:
  assumes "F w = p # r" "p \<notin> set r" "now - arr_time (cells w p) > FIN_TIMEOUT" "ring_items q = r @ [p]"
  shows "overdue now (w\<lparr>cells := restamp now p (cells w), fin_queue := q\<rparr>) < overdue now w"
proof -
  have "filter (\<lambda>x. now - arr_time (restamp now p (cells w) x) > FIN_TIMEOUT) (r @ [p]) =
      filter (\<lambda>x. now - arr_time (cells w x) > FIN_TIMEOUT) r"
    using assms(2) by (auto simp: FIN_TIMEOUT_def intro!: filter_cong)
  then show ?thesis using assms(1,3,4) by (simp add: overdue_def)
qed

lemma resend_ok:
  assumes w: "winv {} {} w" and ne: "\<not> ring_empty (fin_queue w)"
    and late: "now - arr_time (cells w (ring_front (fin_queue w))) > FIN_TIMEOUT"
  shows "ok_res (\<lambda>w'. winv {} {} w' \<and> M w' = M w \<and> client_map w' = client_map w \<and>
      (\<forall>p\<in>set (M w). cells w' p = cells w p) \<and>
      length (F w') = length (F w) \<and> overdue now w' < overdue now w)
    (bindE (resend now (ring_front (fin_queue w)) w) (\<lambda>w. Inr (pop_fin w)))"
proof (cases "m_Serverlist w = []")
  case True
  then show ?thesis by (simp add: resend_def)
next
  case False
  let ?p = "ring_front (fin_queue w)"
  define r where "r = ring_items (ring_pop (fin_queue w))"
  have Fw: "F w = ?p # r" using fin_front[OF w ne] by (simp add: r_def)
  have qp: "queue_part {} w" using w by (simp add: winv_def)
  have p: "?p \<notin> set r" "?p \<notin> set (M w)" "?p \<in> owned w" using qp Fw by (auto simp: queue_part_def)
  obtain w2 where w2: "winv {} {} w2" "fin_queue w2 = fin_queue w" "msg_queue w2 = msg_queue w" "cells w2 = cells w"
    "client_map w2 = client_map w" "resend now ?p w = push_fin ?p (w2\<lparr>cells := restamp now ?p (cells w)\<rparr>)"
    using resend_run[OF w p(3) False] by blast
  have "ring_inv (fin_queue (w2\<lparr>cells := restamp now ?p (cells w)\<rparr>))" using qp by (simp add: w2(2) queue_part_def)
  then show ?thesis
  proof (rule push_fin_cases[of _ ?p])
    fix q assume q: "push_fin ?p (w2\<lparr>cells := restamp now ?p (cells w)\<rparr>) = Inr (w2\<lparr>cells := restamp now ?p (cells w), fin_queue := q\<rparr>)"
      "ring_inv q" "ring_items q = F (w2\<lparr>cells := restamp now ?p (cells w)\<rparr>) @ [?p]"
    have qi: "ring_items q = ?p # r @ [?p]" using q(3) Fw w2(2) by simp
    then have "\<not> ring_empty q" using rq.empty_ok[OF q(2)] by simp
    from rq.pop_ok[OF q(2) this] qi have pop: "ring_inv (ring_pop q)" "ring_items (ring_pop q) = r @ [?p]" by auto
    have F2: "F w2 = ?p # r" using Fw w2(2) by simp
    have len: "ring_count (ring_pop q) = Suc (length r)" using arg_cong[OF pop(2), of length] by simp
    have "overdue now w2 = overdue now w" by (simp add: overdue_def w2(2,4))
    then show ?thesis using winv_rotate[OF w2(1) pop(1) F2 pop(2), of now] overdue_rotate[OF F2 p(1) _ pop(2), of now] late len
      by (auto simp: w2 q(1) pop_fin_def pop(2) Fw p(2) intro: restamp_fields(6))
  qed (simp add: w2(6))
qed

text \<open>What a round of the loop does: it stops at an event that can wait, or makes the queue shorter or less overdue.\<close>

definition fin_progress :: "int \<Rightarrow> worker \<Rightarrow> bool \<Rightarrow> worker \<Rightarrow> bool" where
  "fin_progress now w stop w' \<longleftrightarrow> winv {} {} w' \<and> M w' = M w \<and> client_map w' = client_map w \<and>
      (\<forall>p\<in>set (M w). cells w' p = cells w p) \<and>
      (if stop then w' = w \<and> (F w = [] \<or>
        map_of (client_map w) (u32 (usr_uuid (cells w (hd (F w))))) \<noteq> None \<and> now - arr_time (cells w (hd (F w))) \<le> FIN_TIMEOUT)
      else length (F w') + overdue now w' < length (F w) + overdue now w)"

lemma fin_released:
  assumes w: "winv {} {} w" and ne: "\<not> ring_empty (fin_queue w)" and u: "unreferenced (ring_front (fin_queue w)) w"
  shows "ok_res (\<lambda>(stop, w'). fin_progress now w stop w') (bindE (free_ev (ring_front (fin_queue w)) w) (\<lambda>w. Inr (False, pop_fin w)))"
proof -
  obtain w' where w': "bindE (free_ev (ring_front (fin_queue w)) w) (\<lambda>w. Inr (False, pop_fin w)) = Inr (False, w')"
    "winv {} {} w'" "F w = ring_front (fin_queue w) # F w'" "M w' = M w" "cells w' = cells w" "client_map w' = client_map w"
    using release_fin[OF w ne u] by blast
  have "length (F w') + overdue now w' < length (F w) + overdue now w" unfolding overdue_def w'(3,5) by simp
  then show ?thesis using w' by (simp add: fin_progress_def)
qed

lemma fin_resent:
  assumes w: "winv {} {} w" and ne: "\<not> ring_empty (fin_queue w)"
    and late: "now - arr_time (cells w (ring_front (fin_queue w))) > FIN_TIMEOUT"
  shows "ok_res (\<lambda>(stop, w'). fin_progress now w stop w') (bindE (resend now (ring_front (fin_queue w)) w) (\<lambda>w. Inr (False, pop_fin w)))"
proof -
  have e: "bindE (resend now (ring_front (fin_queue w)) w) (\<lambda>w. Inr (False, pop_fin w)) =
      bindE (bindE (resend now (ring_front (fin_queue w)) w) (\<lambda>w. Inr (pop_fin w))) (\<lambda>w. Inr (False, w))"
    by (cases "resend now (ring_front (fin_queue w)) w") simp_all
  show ?thesis unfolding e by (rule ok_res_bind[OF resend_ok[OF w ne late]]) (simp add: fin_progress_def)
qed

lemma fin_round_ok:
  assumes w: "winv {} {} w"
  shows "ok_res (\<lambda>(stop, w'). fin_progress now w stop w') (fin_round now w)"
proof (cases "ring_empty (fin_queue w)")
  case True
  then have "F w = []" using w rq.empty_ok[of "fin_queue w"] by (auto simp: winv_def queue_part_def)
  then show ?thesis using True w by (simp add: fin_round_def fin_progress_def)
next
  case False
  let ?p = "ring_front (fin_queue w)"
  have pm: "?p \<in> set (F w)" "hd (F w) = ?p" unfolding fin_front(2)[OF w False] by simp_all
  have o: "?p \<in> owned w" using pm w by (auto simp: winv_def queue_part_def)
  note d = winv_deref[OF w o]
  let ?ci = "map_of (client_map w) (u32 (usr_uuid (cells w ?p)))"
  consider (gone) "?ci = None"
    | (finished) ci where "?ci = Some ci" "now - arr_time (cells w ?p) > FIN_TIMEOUT" "finish_flag (cells w ?p)"
    | (again) ci where "?ci = Some ci" "now - arr_time (cells w ?p) > FIN_TIMEOUT" "\<not> finish_flag (cells w ?p)"
    | (early) ci where "?ci = Some ci" "\<not> now - arr_time (cells w ?p) > FIN_TIMEOUT" by (cases ?ci) auto
  then show ?thesis
  proof cases
    case gone
    then show ?thesis using fin_released[OF w False unreferenced_absent[OF w gone], of now] False d by (simp add: fin_round_def)
  next
    case finished
    then have "unreferenced ?p w" using unreferenced_done[OF w] pm by simp
    then show ?thesis using fin_released[OF w False, of now] False d finished by (simp add: fin_round_def)
  next
    case again
    then show ?thesis using fin_resent[OF w False again(2)] False d by (simp add: fin_round_def)
  next
    case early
    then show ?thesis using False d w pm(2) by (simp add: fin_round_def fin_progress_def)
  qed
qed

section \<open>The whole callback\<close>

lemma run_rounds_ok:
  fixes m :: "worker \<Rightarrow> nat"
  assumes step: "\<And>w. I w \<Longrightarrow> ok_res (\<lambda>(stop, w'). I w' \<and> (if stop then Q w' else m w' < m w)) (f w)"
    and w: "I w"
  shows "\<exists>r. run_rounds f w = Some r \<and> ok_res (\<lambda>w'. I w' \<and> Q w') r"
  using w
proof (induction "m w" arbitrary: w rule: less_induct)
  case less
  note s = step[OF less.prems]
  show ?case
  proof (cases "f w")
    case (Inl e)
    then show ?thesis using s by (subst run_rounds.simps) simp
  next
    case (Inr x)
    obtain stop w' where x: "x = (stop, w')" by (cases x)
    show ?thesis
    proof (cases stop)
      case True
      then show ?thesis using s Inr x by (subst run_rounds.simps) simp
    next
      case False
      then have "m w' < m w" "I w'" using s Inr x by auto
      from less.hyps[OF this] show ?thesis using False Inr x by (subst run_rounds.simps) simp
    qed
  qed
qed

definition idle_served :: "int \<Rightarrow> worker \<Rightarrow> bool" where
  "idle_served now w \<longleftrightarrow> M w = [] \<or>
     map_of (client_map w) (u32 (usr_uuid (cells w (hd (M w))))) \<noteq> None \<and> now - arr_time (cells w (hd (M w))) \<le> MSG_TIMEOUT"

definition fin_served :: "int \<Rightarrow> worker \<Rightarrow> bool" where
  "fin_served now w \<longleftrightarrow> F w = [] \<or>
     map_of (client_map w) (u32 (usr_uuid (cells w (hd (F w))))) \<noteq> None \<and> now - arr_time (cells w (hd (F w))) \<le> FIN_TIMEOUT"

lemma check_time_out_cb_ok:
  assumes w: "winv {} {} w"
  shows "\<exists>r. check_time_out_cb now w = Some r \<and>
     ok_res (\<lambda>w'. winv {} {} w' \<and> idle_served now w' \<and> fin_served now w') r"
proof -
  have s1: "ok_res (\<lambda>(stop, w'). winv {} {} w' \<and> (if stop then idle_served now w' else length (M w') < length (M w))) (idle_round now w)"
    if "winv {} {} w" for w
    by (rule ok_res_mono[OF idle_round_ok[OF that, of now]]) (auto simp: idle_served_def split: if_splits)
  obtain r where r: "run_rounds (idle_round now) w = Some r" "ok_res (\<lambda>w'. winv {} {} w' \<and> idle_served now w') r"
    using run_rounds_ok[where I = "winv {} {}" and Q = "idle_served now" and m = "\<lambda>w. length (M w)" and f = "idle_round now", OF s1 w] by blast
  show ?thesis
  proof (cases r)
    case (Inl e)
    then show ?thesis using r by (simp add: check_time_out_cb_def)
  next
    case (Inr w1)
    have s2: "ok_res (\<lambda>(stop, w'). (winv {} {} w' \<and> idle_served now w') \<and>
        (if stop then fin_served now w' else length (F w') + overdue now w' < length (F w) + overdue now w)) (fin_round now w)"
      if "winv {} {} w \<and> idle_served now w" for w
    proof -
      have keep: "idle_served now w'" if "M w' = M w" "client_map w' = client_map w" "\<forall>p\<in>set (M w). cells w' p = cells w p" for w'
        using \<open>winv {} {} w \<and> idle_served now w\<close> that
        by (cases "M w") (auto simp: idle_served_def)
      show ?thesis
        by (rule ok_res_mono[OF fin_round_ok[of w now]]) (use that keep in \<open>auto simp: fin_served_def fin_progress_def split: if_splits\<close>)
    qed
    have i1: "winv {} {} w1 \<and> idle_served now w1" using r(2) Inr by simp
    obtain r2 where "run_rounds (fin_round now) w1 = Some r2" "ok_res (\<lambda>w'. (winv {} {} w' \<and> idle_served now w') \<and> fin_served now w') r2"
      using run_rounds_ok[where I = "\<lambda>w. winv {} {} w \<and> idle_served now w" and Q = "fin_served now"
          and m = "\<lambda>w. length (F w) + overdue now w" and f = "fin_round now", OF s2 i1] by blast
    then show ?thesis using r(1) Inr by (intro exI[of _ r2]) (auto simp: check_time_out_cb_def elim: ok_res_mono)
  qed
qed

lemma empty_count_loop_ok:
  assumes "winv {} {} w" "\<forall>c\<in>set cs. map_of (client_map w) c \<noteq> None"
  shows "ok_res (winv {} {}) (empty_count_loop cs w)"
  using assms
proof (induction cs arbitrary: w)
  case Nil
  then show ?case by simp
next
  case (Cons c cs)
  then obtain ci where ci: "map_of (client_map w) c = Some ci" by auto
  show ?case
  proof (cases "close_flag ci")
    case True
    then show ?thesis using ci winv_client(2)[OF Cons.prems(1) ci] by (simp add: get_client_def bev_free_def)
  next
    case False
    define w1 where "w1 = w\<lparr>client_map := AList.update c (ci\<lparr>cl_count := 0\<rparr>) (client_map w)\<rparr>"
    have e: "events_ok {} (cells w) (set (M w)) (set (F w)) c (ci\<lparr>cl_count := 0\<rparr>)"
      using winv_client(1)[OF Cons.prems(1) ci] by (simp add: events_ok_def)
    have i: "winv {} {} w1" unfolding w1_def by (rule winv_update_client[OF Cons.prems(1) ci _ e]) auto
    have m: "mod_client c (\<lambda>ci. ci\<lparr>cl_count := 0\<rparr>) w = Inr w1" by (simp add: mod_client_def get_client_def ci w1_def)
    have "\<forall>d\<in>set cs. map_of (client_map w1) d \<noteq> None" using Cons.prems(2) by (auto simp: w1_def update_conv')
    from Cons.IH[OF i this] show ?thesis using False ci m by (simp add: get_client_def)
  qed
qed

lemma empty_count_cb_ok: "winv {} {} w \<Longrightarrow> ok_res (winv {} {}) (empty_count_cb w)"
  unfolding empty_count_cb_def
  by (rule empty_count_loop_ok) (auto simp: map_of_eq_None_iff)

section \<open>Reachable workers\<close>

text \<open>
  The events of a worker, with the environment libevent and the kernel provide: fresh handles
  and descriptors, callbacks for handles that are open. A server is removed on command 3 while it has
  the same place in both server lists (\<open>in_step\<close>), and \<open>clean\<close> asks that the memory handed out reads
  with both flags clear.
\<close>

inductive worker_step :: "'j json_lib \<Rightarrow> worker \<Rightarrow> worker res \<Rightarrow> bool" for J where
  accept: "clean env \<Longrightarrow> e_bev env \<notin> open_bevs w \<Longrightarrow> client_id w < 4294967295 \<Longrightarrow>
    worker_step J w (bindE (accept_client env (w, h)) (\<lambda>wh. Inr (fst wh)))"
| server: "e_bev env \<notin> open_bevs w \<Longrightarrow>
    (\<And>fd ip port. e_connect env ip port = Some fd \<Longrightarrow> fd \<notin> set (map fst (m_Serverlist w))) \<Longrightarrow>
    worker_step J w (Inr (add_server env a w))"
| drop: "in_step a w \<Longrightarrow> worker_step J w (remove_server a w)"
| request: "clean env \<Longrightarrow> worker_step J w (bindE (client_socket_read_cb J env arg inp w) (\<lambda>x. Inr (snd x)))"
| hangup: "map_of (client_map w) (u32 arg) = Some ci \<Longrightarrow> worker_step J w (client_event_cb (cl_bev ci) arg w)"
| reply: "worker_step J w (bindE (work_server_socket_read_cb J inp w) (\<lambda>x. Inr (snd x)))"
| server_gone: "(fd, bev) \<in> set (m_Serverlist w) \<Longrightarrow> worker_step J w (work_server_event_cb fd bev w)"
| timeout: "check_time_out_cb now w = r \<Longrightarrow> worker_step J w (settle r)"
| count: "worker_step J w (empty_count_cb w)"

inductive worker_reach :: "'j json_lib \<Rightarrow> worker \<Rightarrow> bool" for J where
  start: "pool_ok pool \<Longrightarrow> live pool = {} \<Longrightarrow> fresh_conns xs (init_worker idx pool mem0) \<Longrightarrow>
    connect_servers junk snd_ok xs (init_worker idx pool mem0) = Inr (True, w) \<Longrightarrow> worker_reach J w"
| step: "worker_reach J w \<Longrightarrow> worker_step J w (Inr w') \<Longrightarrow> worker_reach J w'"

lemma worker_step_ok:
  assumes J: "json_ok J" and w: "winv {} {} w" and s: "worker_step J w r"
  shows "ok_res (winv {} {}) r"
  using s
proof cases
  case (accept env h)
  then show ?thesis using accept_client_ok[OF w, of env h] by (auto intro!: ok_res_bind)
next
  case (server env a)
  then show ?thesis using add_server_ok[OF w server(2,3)] by simp
next
  case (drop a)
  then show ?thesis using remove_server_ok[OF w] by simp
next
  case (request env arg inp)
  show ?thesis unfolding request(1)
    by (rule ok_res_bind[OF client_socket_read_cb_ok[OF J request(2) w]]) auto
next
  case (hangup arg ci)
  then show ?thesis using client_event_cb_ok[OF w] by simp
next
  case (reply inp)
  show ?thesis unfolding reply(1) by (rule ok_res_bind[OF work_server_socket_read_cb_ok[OF J w]]) auto
next
  case (server_gone fd bev)
  then show ?thesis using work_server_event_cb_ok[OF w] by simp
next
  case (timeout now x)
  from check_time_out_cb_ok[OF w, of now] obtain y where y: "check_time_out_cb now w = Some y"
    "ok_res (\<lambda>w'. winv {} {} w' \<and> idle_served now w' \<and> fin_served now w') y" by blast
  have "ok_res (winv {} {}) y" by (rule ok_res_mono[OF y(2)]) simp
  then show ?thesis using timeout y(1) by (auto simp: settle_def)
next
  case count
  then show ?thesis using empty_count_cb_ok[OF w] by simp
qed

lemma worker_reach_init: "pool_ok pool \<Longrightarrow> live pool = {} \<Longrightarrow> worker_reach J (init_worker idx pool mem0)"
  by (rule worker_reach.start[of _ "[]"]) (simp_all add: fresh_conns_def map_filter_simps)

lemma init_worker_inv: "pool_ok pool \<Longrightarrow> live pool = {} \<Longrightarrow> winv {} {} (init_worker idx pool mem0)"
  by (simp add: winv_def winv_parts init_worker_def ring_items_empty ring_inv_empty)

lemma worker_reach_inv:
  assumes "json_ok J" "worker_reach J w"
  shows "winv {} {} w"
  using assms(2)
proof induction
  case (start pool xs idx mem0 junk snd_ok w)
  show ?case using connect_servers_ok[OF init_worker_inv[OF start(1,2)] start(3), of junk snd_ok] start(4) by simp
next
  case (step w w')
  then show ?case using worker_step_ok[OF assms(1) step.IH step.hyps(2)] by simp
qed

end
