(* ===== verification/Worker_Numbers.thy ===== *)
theory Worker_Numbers
  imports Worker_Timers
begin

text \<open>
  The numbers of the cached requests: a client never waits for a packet number above the last one
  it was given, so the number of the next request is free. The statement is about the results of
  the callbacks only and is kept by every step of a worker.
\<close>

section \<open>Statements that do not touch the clients\<close>

lemma put_ev_map: "put_ev p f w = Inr w' \<Longrightarrow> client_map w' = client_map w"
  by (auto simp: put_ev_def res_simps)

lemma alloc_ev_map: "alloc_ev env w = Inr (p, w') \<Longrightarrow> client_map w' = client_map w"
  by (auto simp: alloc_ev_def res_simps split: if_splits)

lemma free_ev_map: "free_ev p w = Inr w' \<Longrightarrow> client_map w' = client_map w"
  by (auto simp: free_ev_def res_simps)

lemma push_msg_map: "push_msg p w = Inr w' \<Longrightarrow> client_map w' = client_map w"
  by (auto simp: push_msg_def res_simps)

lemma push_fin_map: "push_fin p w = Inr w' \<Longrightarrow> client_map w' = client_map w"
  by (auto simp: push_fin_def res_simps)

lemma bev_write_map: "bev_write b s w = Inr w' \<Longrightarrow> client_map w' = client_map w"
  by (auto simp: bev_write_def emit_def split: if_splits)

lemma bev_free_map: "bev_free b w = Inr w' \<Longrightarrow> client_map w' = client_map w"
  by (auto simp: bev_free_def emit_def split: if_splits)

lemmas same_clients = put_ev_map alloc_ev_map free_ev_map push_msg_map push_fin_map bev_write_map bev_free_map

section \<open>Clients of a kind\<close>

text \<open>Every client satisfies \<open>P\<close>; a statement keeps that when it changes one client within \<open>P\<close>.\<close>

definition all_clients :: "(client_information \<Rightarrow> bool) \<Rightarrow> worker \<Rightarrow> bool" where
  "all_clients P w \<longleftrightarrow> (\<forall>c ci. map_of (client_map w) c = Some ci \<longrightarrow> P ci)"

lemma all_clients_same: "client_map w' = client_map w \<Longrightarrow> all_clients P w' = all_clients P w"
  by (simp add: all_clients_def)

lemma all_clients_mod:
  "mod_client c f w = Inr w' \<Longrightarrow> all_clients P w \<Longrightarrow> (\<And>ci. map_of (client_map w) c = Some ci \<Longrightarrow> P ci \<Longrightarrow> P (f ci)) \<Longrightarrow>
    all_clients P w'"
  by (auto simp: all_clients_def mod_client_def get_client_def update_conv' split: option.splits if_splits)

lemma all_clients_drop: "all_clients P w \<Longrightarrow> all_clients P (drop_client c w)"
  by (auto simp: all_clients_def drop_client_def delete_conv' split: if_splits)

lemma all_clients_fields [simp]:
  "all_clients P (emit x w) = all_clients P w" "all_clients P (w\<lparr>read_count := n\<rparr>) = all_clients P w"
  "all_clients P (pop_msg w) = all_clients P w" "all_clients P (pop_fin w) = all_clients P w"
  "all_clients P (w\<lparr>resend_count := n\<rparr>) = all_clients P w"
  "all_clients P (w\<lparr>m_Serverlist := l, m_server_info := s\<rparr>) = all_clients P w"
  "all_clients P (w\<lparr>m_Serverlist := l\<rparr>) = all_clients P w"
  "all_clients P (open_bev b w) = all_clients P w"
  by (simp_all add: all_clients_def emit_def pop_msg_def pop_fin_def open_bev_def)

lemmas all_kept = same_clients[THEN all_clients_same]

definition keys_below :: "client_information \<Rightarrow> bool" where
  "keys_below ci \<longleftrightarrow> 0 \<le> pack_id ci \<and> (\<forall>k p. map_of (cli_event_map ci) k = Some p \<longrightarrow> k \<le> pack_id ci)"

abbreviation numbers_ok :: "worker \<Rightarrow> bool" where "numbers_ok \<equiv> all_clients keys_below"

lemma keys_below_fields [simp]:
  "keys_below (ci\<lparr>cl_count := n\<rparr>) = keys_below ci" "keys_below (ci\<lparr>close_flag := b\<rparr>) = keys_below ci"
  by (simp_all add: keys_below_def)

lemma keys_below_bump: "keys_below ci \<Longrightarrow> keys_below (ci\<lparr>pack_id := pack_id ci + 1\<rparr>)"
  by (force simp: keys_below_def)

lemma keys_below_idle: "keys_below ci \<Longrightarrow> keys_below (ci\<lparr>cli_event_map := AList.update 0 p (cli_event_map ci)\<rparr>)"
  by (auto simp: keys_below_def update_conv' split: if_splits)

lemma keys_below_insert:
  "keys_below ci \<Longrightarrow> k \<le> pack_id ci \<Longrightarrow> keys_below (ci\<lparr>cli_event_map := map_insert k p (cli_event_map ci)\<rparr>)"
  by (auto simp: keys_below_def map_of_map_insert split: option.splits if_splits)

lemma keys_below_delete: "keys_below ci \<Longrightarrow> keys_below (ci\<lparr>cli_event_map := AList.delete k (cli_event_map ci)\<rparr>)"
  by (auto simp: keys_below_def delete_conv' split: if_splits)

section \<open>The callbacks\<close>

lemma numbers_current_limit: "current_limit c w = Inr (b, w') \<Longrightarrow> numbers_ok w \<Longrightarrow> numbers_ok w'"
  by (auto simp: current_limit_def res_simps split: if_splits dest!: all_clients_mod[where P = keys_below])

lemma numbers_forward: "forward_request J c v w = Inr (t, w') \<Longrightarrow> numbers_ok w \<Longrightarrow> numbers_ok w'"
  by (auto simp: forward_request_def res_simps Let_def all_kept keys_below_bump
      dest!: all_clients_mod[where P = keys_below])

lemma numbers_renew: "renew_idle env c w = Inr w' \<Longrightarrow> numbers_ok w \<Longrightarrow> numbers_ok w'"
  by (auto simp: renew_idle_def res_simps all_kept keys_below_idle split: option.splits
      dest!: all_clients_mod[where P = keys_below])

lemma numbers_cache: "cache_request env c t w = Inr w' \<Longrightarrow> numbers_ok w \<Longrightarrow> numbers_ok w'"
  by (auto simp: cache_request_def res_simps all_kept keys_below_insert
      dest!: all_clients_mod[where P = keys_below])

lemma numbers_client_packet: "client_packet J env c msg w = Inr (stop, w') \<Longrightarrow> numbers_ok w \<Longrightarrow> numbers_ok w'"
  by (auto simp: client_packet_def res_simps Let_def split: option.splits if_splits
      dest!: numbers_current_limit numbers_forward numbers_renew numbers_cache)

lemma numbers_read_loop: "client_read_loop J env c inp w = Inr (rest, w') \<Longrightarrow> numbers_ok w \<Longrightarrow> numbers_ok w'"
  using requests.loop_InrD[of J env c inp w rest w' numbers_ok] by (blast dest: numbers_client_packet)

lemma server_packet_cases:
  assumes "server_packet J msg w = Inr (stop, w')"
  obtains "w' = w"
  | b s1 s2 p c k u1 u2 u3 where "bev_write b s1 w = Inr u1" "bev_write b s2 u1 = Inr u2"
      "put_ev p (\<lambda>e. e\<lparr>finish_flag := True\<rparr>) u2 = Inr u3"
      "mod_client c (\<lambda>ci. ci\<lparr>cli_event_map := AList.delete k (cli_event_map ci)\<rparr>) u3 = Inr w'"
proof (cases "j_parse J msg")
  case None
  then show ?thesis using assms that(1) by (simp add: server_packet_def)
next
  case (Some v)
  from assms Some obtain cs pack v1 v2 where
    r: "(case map_of (client_map w) (u32 cs) of None \<Rightarrow> Inr (False, w)
      | Some ci \<Rightarrow> (case map_of (cli_event_map ci) pack of None \<Rightarrow> Inr (False, w)
        | Some p \<Rightarrow>
           bindE (bev_write (cl_bev ci) (enc_int (int (length (cstr (j_styled J v2))))) w) (\<lambda>w.
           bindE (bev_write (cl_bev ci) (cstr (j_styled J v2)) w) (\<lambda>w.
           bindE (put_ev p (\<lambda>e. e\<lparr>finish_flag := True\<rparr>) w) (\<lambda>w.
           bindE (mod_client (u32 cs) (\<lambda>ci. ci\<lparr>cli_event_map := AList.delete pack (cli_event_map ci)\<rparr>) w) (\<lambda>w.
           Inr (False, w))))))) = Inr (stop, w')"
    by (auto simp only: server_packet_def option.case Let_def bindE_eq_Inr)
  show ?thesis
  proof (cases "\<exists>ci p. map_of (client_map w) (u32 cs) = Some ci \<and> map_of (cli_event_map ci) pack = Some p")
    case True
    then obtain ci p where "map_of (client_map w) (u32 cs) = Some ci" "map_of (cli_event_map ci) pack = Some p" by blast
    then show ?thesis using r that(2) by (auto simp: bindE_eq_Inr)
  next
    case False
    then show ?thesis using r that(1) by (auto split: option.splits)
  qed
qed

lemma numbers_server_packet:
  assumes "server_packet J msg w = Inr (stop, w')" "numbers_ok w"
  shows "numbers_ok w'"
  using assms(1)
proof (cases rule: server_packet_cases)
  case 1
  then show ?thesis using assms(2) by simp
next
  case 2
  then show ?thesis
    using assms(2) by (auto simp: all_kept keys_below_delete dest!: all_clients_mod[where P = keys_below])
qed

lemma numbers_server_read: "work_server_socket_read_cb J inp w = Inr (rest, w') \<Longrightarrow> numbers_ok w \<Longrightarrow> numbers_ok w'"
  using replies.loop_InrD[of J inp w rest w' numbers_ok] by (blast dest: numbers_server_packet)

lemma keys_below_new: "keys_below ((new_client_information b ip)\<lparr>cli_event_map := [(0, p)]\<rparr>)"
  by (simp add: keys_below_def new_client_information_def)

lemma numbers_new_client: "new_client env ip w = Inr w' \<Longrightarrow> numbers_ok w \<Longrightarrow> numbers_ok w'"
proof -
  assume n: "new_client env ip w = Inr w'" and w: "numbers_ok w"
  from n obtain u p where u: "client_map u = client_map w"
    and "w' = u\<lparr>client_map := map_insert (client_id w)
      ((new_client_information (e_bev env) ip)\<lparr>cli_event_map := [(0, p)]\<rparr>) (client_map u), client_id := u32 (client_id w + 1)\<rparr>"
    by (auto simp: new_client_def res_simps Let_def open_bev_def dest!: same_clients)
  then obtain c ci i where k: "keys_below ci"
    and w': "w' = u\<lparr>client_map := map_insert c ci (client_map u), client_id := i\<rparr>"
    by (intro that[OF keys_below_new]) simp
  have "keys_below di" if "map_of (client_map w') d = Some di" for d di
    using that w k u by (auto simp: w' all_clients_def map_of_map_insert split: option.splits if_splits)
  then show ?thesis by (auto simp: all_clients_def)
qed

lemma numbers_accept: "accept_client env (w, h) = Inr wh \<Longrightarrow> numbers_ok w \<Longrightarrow> numbers_ok (fst wh)"
  by (auto simp: accept_client_def res_simps Let_def numbers_new_client split: option.splits if_splits)

lemma numbers_idle_round: "idle_round now w = Inr (stop, w') \<Longrightarrow> numbers_ok w \<Longrightarrow> numbers_ok w'"
  by (auto simp: idle_round_def res_simps Let_def all_kept all_clients_drop split: if_splits)

lemma numbers_fin_round: "fin_round now w = Inr (stop, w') \<Longrightarrow> numbers_ok w \<Longrightarrow> numbers_ok w'"
  by (auto simp: fin_round_def resend_def res_simps Let_def all_kept split: if_splits)

text \<open>An invariant of the rounds is one of the loop.\<close>

lemma run_rounds_invariant:
  assumes "run_rounds f w = Some (Inr w')" "P w"
    and f: "\<And>w b u. f w = Inr (b, u) \<Longrightarrow> P w \<Longrightarrow> P u"
  shows "P w'"
proof -
  have "(\<forall>w b u. f w = Inr (b, u) \<longrightarrow> P w \<longrightarrow> P u) \<longrightarrow> P w \<longrightarrow> (case r of Inl e \<Rightarrow> True | Inr u \<Rightarrow> P u)"
    if "run_rounds f w = Some r" for f w r
    using that
  proof (induction rule: run_rounds.raw_induct)
    case (1 rec f w r)
    show ?case
    proof (intro impI)
      assume i: "\<forall>w b u. f w = Inr (b, u) \<longrightarrow> P w \<longrightarrow> P u" and w: "P w"
      show "case r of Inl e \<Rightarrow> True | Inr u \<Rightarrow> P u"
      proof (cases "f w")
        case (Inl e)
        then show ?thesis using 1 by auto
      next
        case (Inr bu)
        obtain b u where bu: "bu = (b, u)" by (cases bu)
        have "P u" using i w Inr bu by auto
        have "run_rounds f w = (if b then Some (Inr u) else run_rounds f u)"
          using Inr bu by (subst run_rounds.simps) simp
        then show ?thesis using 1 i Inr bu \<open>P u\<close> by (cases b) auto
      qed
    qed
  qed (rule that)
  from this[OF assms(1)] f assms(2) show ?thesis by auto
qed

lemma numbers_time_out: "check_time_out_cb now w = Some (Inr w') \<Longrightarrow> numbers_ok w \<Longrightarrow> numbers_ok w'"
  unfolding check_time_out_cb_def
  by (auto split: option.splits sum.splits
      dest!: run_rounds_invariant[where P = numbers_ok] intro: numbers_idle_round numbers_fin_round)

lemma numbers_count_loop: "empty_count_loop cs w = Inr w' \<Longrightarrow> numbers_ok w \<Longrightarrow> numbers_ok w'"
proof (induction cs arbitrary: w)
  case (Cons c cs)
  then show ?case
    by (auto simp: res_simps split: if_splits dest!: all_clients_mod[where P = keys_below])
qed simp

lemma numbers_server_gone: "work_server_event_cb fd bev w = Inr w' \<Longrightarrow> numbers_ok w \<Longrightarrow> numbers_ok w'"
  by (auto simp: work_server_event_cb_def res_simps Let_def all_kept)

lemma worker_reach_numbers: "worker_reach J w \<Longrightarrow> numbers_ok w"
proof (induction rule: worker_reach.induct)
  case (start pool xs idx mem0 junk snd_ok w)
  then have "client_map w = []"
    using connect_servers_ok[OF init_worker_inv[OF start(1,2)] start(3), of junk snd_ok] by (simp add: init_worker_def)
  then show ?case by (simp add: all_clients_def)
next
  case (step w w')
  from step.hyps(2) show ?case
  proof cases
    case (accept env h)
    show ?thesis using accept(1)[symmetric] step.IH by (auto simp: res_simps dest: numbers_accept)
  next
    case (server env a)
    then show ?thesis using step.IH by (auto simp: add_server_def Let_def all_clients_def emit_def open_bev_def split: option.splits)
  next
    case (drop a)
    show ?thesis using drop(1)[symmetric] step.IH by (auto simp: remove_server_def Let_def res_simps all_kept split: if_splits)
  next
    case (request env arg inp)
    show ?thesis
      using request(1)[symmetric] step.IH by (auto simp: res_simps client_socket_read_cb_def Let_def split: if_splits dest: numbers_read_loop)
  next
    case (hangup arg ci)
    show ?thesis using hangup(1)[symmetric] step.IH by (auto simp: client_event_cb_def res_simps all_kept all_clients_drop)
  next
    case (reply inp)
    show ?thesis using reply(1)[symmetric] step.IH by (auto simp: res_simps dest: numbers_server_read)
  next
    case (server_gone fd bev)
    then show ?thesis using step.IH by (metis numbers_server_gone)
  next
    case (timeout now r)
    then have "check_time_out_cb now w = Some (Inr w')" by (auto simp: settle_def split: option.splits)
    then show ?thesis using step.IH by (rule numbers_time_out)
  next
    case count
    then show ?thesis using step.IH by (metis empty_count_cb_def numbers_count_loop)
  qed
qed

end
