(* ===== verification/Worker_Demo.thy ===== *)
theory Worker_Demo
  imports Worker_Timers Pool_Theorems
begin

text \<open>
  A concrete worker: a pool of 8000 bytes, one server, one client and one request of the client,
  evaluated step by step. The properties of the workers are applied to its states.
\<close>

text \<open>
  Values of JSON played by strings: the client and the packet number of a reply are its first two
  characters.
\<close>

definition demo_json :: "string json_lib" where
  "demo_json = \<lparr>j_parse = Some, j_styled = (\<lambda>v. v), j_set = (\<lambda>k n v. Inr (v @ to_string n)),
     j_int = (\<lambda>k v. case v of a # b # _ \<Rightarrow> Inr (digit_val (if k = ''pack_id'' then b else a)) | _ \<Rightarrow> Inl Uncaught),
     j_remove = (\<lambda>k v. Inr v)\<rparr>"

lemma demo_json_ok: "json_ok demo_json"
  by (auto simp: json_ok_def demo_json_def split: list.splits)

definition blank_event :: "bool \<Rightarrow> cli_event" where
  "blank_event b = \<lparr>ev_bev = 0, usr_uuid = 0, head_length = 0, c_info = [], arr_time = 0, msg_flag = b, finish_flag = b\<rparr>"

text \<open>An environment at a given time; \<open>b\<close> is what both flags of unused memory read as.\<close>

definition demo_env :: "int \<Rightarrow> nat \<Rightarrow> bool \<Rightarrow> env" where
  "demo_env now bev b = \<lparr>e_now = now, e_malloc = (\<lambda>_ _. 0), e_uninit = (\<lambda>_. blank_event b),
     e_bev = bev, e_accept = Some (5, ''10.1.1.1''), e_connect = (\<lambda>_ _. Some 7)\<rparr>"

lemma demo_env_clean: "clean (demo_env now bev False)"
  by (simp add: clean_def demo_env_def malloc_ok_def blank_event_def)

definition work_pool :: MemoryPool where
  "work_pool = the (MemoryPoolInit 0 8 4096 8000 8000)"

lemma work_pool_ok: "pool_ok work_pool" "live work_pool = {}"
proof -
  obtain mp where "MemoryPoolInit 0 8 4096 8000 8000 = Some mp" "pool_ok mp" "live mp = {}"
    using MemoryPoolInit_ok[of 8000 8000 4096 8 0] by auto
  then show "pool_ok work_pool" "live work_pool = {}" by (auto simp: work_pool_def)
qed

definition worker0 :: worker where
  "worker0 = init_worker 0 work_pool (\<lambda>_. blank_event False)"

lemma worker0_reach: "worker_reach demo_json worker0"
  unfolding worker0_def by (rule worker_reach_init[OF work_pool_ok])

text \<open>The server with handle 1 is added, then a client is accepted on handle 2.\<close>

definition demo_address :: address where
  "demo_address = (new_address 0)\<lparr>addr_port := 8001\<rparr>"

text \<open>The pool after one, two and three events have been allocated.\<close>

definition pool_after :: "MemoryPool \<Rightarrow> MemoryPool" where
  "pool_after m = snd (projr (pool_alloc (\<lambda>_ _. 0) m SIZEOF_CLI_EVENT))"

lemmas pool_steps = pool_eval pool_after_def pool_alloc_def settle_def work_pool_def SIZEOF_CLI_EVENT_def

lemma pool_alloc1: "pool_alloc (\<lambda>_ _. 0) work_pool SIZEOF_CLI_EVENT = Inr (4192, pool_after work_pool)"
  by (simp add: pool_steps)

lemma pool_alloc2: "pool_alloc (\<lambda>_ _. 0) (pool_after work_pool) SIZEOF_CLI_EVENT =
    Inr (5296, pool_after (pool_after work_pool))"
  by (simp add: pool_steps)

lemma pool_alloc3: "pool_alloc (\<lambda>_ _. 0) (pool_after (pool_after work_pool)) SIZEOF_CLI_EVENT =
    Inr (6400, pool_after (pool_after (pool_after work_pool)))"
  by (simp add: pool_steps)

lemmas pool_allocs = pool_alloc1 pool_alloc2 pool_alloc3

definition worker1 :: worker where
  "worker1 = add_server (demo_env 100 1 False) demo_address worker0"

definition worker2 :: "bool \<Rightarrow> worker" where
  "worker2 b = fst (projr (accept_client (demo_env 100 2 b) (worker1, init_shm)))"

text \<open>The client sends the packet \<open>A\<close> at time 101.\<close>

definition worker3 :: "bool \<Rightarrow> worker" where
  "worker3 b = snd (projr (client_socket_read_cb demo_json (demo_env 101 3 b) 0 (frame_of ''A'') (worker2 b)))"

lemma worker0_eq: "worker0 = \<lparr>m_idx = 0, client_map = [], client_id = 0, m_Serverlist = [],
     m_server_info = [], msg_queue = empty_ring 0, fin_queue = empty_ring 0, mp = work_pool,
     cells = (\<lambda>_. blank_event False), read_count = 0, resend_count = 0, calls = [], owned = {}, open_bevs = {}\<rparr>"
  by (simp add: worker0_def init_worker_def)

lemma worker1_eq: "worker1 = worker0\<lparr>m_Serverlist := [(7, 1)], m_server_info := [(1, ip_port (c_ip demo_address) 8001)],
    calls := [Connect (c_ip demo_address) 8001], open_bevs := {1}\<rparr>"
  by (simp add: worker1_def add_server_def worker0_eq demo_env_def Let_def emit_def open_bev_def demo_address_def new_address_def)

lemma worker1_reach: "worker_reach demo_json worker1"
  unfolding worker1_def
  by (rule worker_reach.step[OF worker0_reach], rule worker_step.server) (simp_all add: worker0_eq)

lemmas put_eval = put_ev_def deref_def push_msg_def push_fin_def ring_push_def empty_ring_def MSG_QUEUE_LEN_def
  alloc_ev_def

lemma worker2_eval: "accept_client (demo_env 100 2 b) (worker1, init_shm) = Inr (worker2 b, init_shm)"
  "worker2 b = worker1\<lparr>client_map := [(0, (new_client_information 2 ''10.1.1.1'')\<lparr>cli_event_map := [(0, 4192)]\<rparr>)],
     client_id := 1, msg_queue := \<lparr>q_slots = (\<lambda>_. 0)(0 := 4192), q_front = 0, q_back = 1\<rparr>, mp := pool_after work_pool,
     cells := (\<lambda>_. blank_event False)(4192 := (blank_event b)\<lparr>arr_time := 100, ev_bev := 2, usr_uuid := 0\<rparr>),
     owned := {4192}, open_bevs := {1, 2}\<rparr>"
  unfolding worker2_def worker1_eq worker0_eq
  by (simp_all add: accept_client_def new_client_def Let_def verify_client_ip_def strcpy_at_def init_shm_def
      demo_env_def open_bev_def put_eval pool_allocs u32_def s32_def map_insert_def insert_commute)

lemma worker2_reach: "worker_reach demo_json (worker2 False)"
proof (rule worker_reach.step[OF worker1_reach])
  have "bindE (accept_client (demo_env 100 2 False) (worker1, init_shm)) (\<lambda>wh. Inr (fst wh)) = Inr (worker2 False)"
    by (simp only: worker2_eval(1) bindE_Inr fst_conv)
  then show "worker_step demo_json worker1 (Inr (worker2 False))"
    using worker_step.accept[OF demo_env_clean[of 100 2], of worker1 demo_json init_shm]
    by (simp add: worker1_eq worker0_eq demo_env_def)
qed

definition demo_request :: string where
  "demo_request = ''A01''"

lemma next_frame_A: "next_frame (frame_of ''A'') = Packet ''A'' []"
  using next_frame_of[of "''A''" "[]"] by (simp add: sendable_def BUF_LEN_def)

lemma next_frame_nil: "next_frame [] = Short"
  by (simp add: next_frame_def SIZEOF_HEAD_def)

lemma small_strings: "to_string 0 = ''0''" "to_string 1 = ''1''"
  by (simp_all add: to_string_def show_nat.simps digit_char_def char_of_def bit_iff_odd)

text \<open>The worker after the request: the idle record is renewed and the request is cached.\<close>

lemma worker3_eval:
  "client_socket_read_cb demo_json (demo_env 101 3 b) 0 (frame_of ''A'') (worker2 b) = Inr ([], worker3 b)"
  "worker3 b = (worker2 b)\<lparr>
     client_map := [(0, (new_client_information 2 ''10.1.1.1'')\<lparr>cl_count := 1, pack_id := 1,
                       cli_event_map := [(0, 5296), (1, 6400)]\<rparr>)],
     read_count := 1,
     msg_queue := \<lparr>q_slots = (\<lambda>_. 0)(0 := 4192, 1 := 5296), q_front = 0, q_back = 2\<rparr>,
     fin_queue := \<lparr>q_slots = (\<lambda>_. 0)(0 := 6400), q_front = 0, q_back = 1\<rparr>,
     mp := pool_after (pool_after (pool_after work_pool)),
     cells := (\<lambda>_. blank_event False)
       (4192 := (blank_event b)\<lparr>arr_time := 100, ev_bev := 2, msg_flag := True\<rparr>,
        5296 := (blank_event b)\<lparr>arr_time := 101, ev_bev := 2\<rparr>,
        6400 := (blank_event b)\<lparr>head_length := 3, c_info := demo_request, arr_time := 101\<rparr>),
     calls := calls worker1 @ [BevWrite 1 (enc_int 3), BevWrite 1 demo_request],
     owned := {4192, 5296, 6400}\<rparr>"
  unfolding worker3_def
  by (simp_all add: client_socket_read_cb_def client_read_loop.simps next_frame_A next_frame_nil client_packet_def
      current_limit_def forward_request_def renew_idle_def cache_request_def Let_def get_client_def mod_client_def
      worker2_eval(2) worker1_eq worker0_eq demo_json_def small_strings demo_request_def cstr_def bev_write_def emit_def
      map_insert_def put_eval pool_allocs u32_def s32_def new_client_information_def blank_event_def demo_env_def
      insert_commute fun_upd_twist)

lemma worker3_reach: "worker_reach demo_json (worker3 False)"
  by (rule worker_reach.step[OF worker2_reach])
    (use worker_step.request[OF demo_env_clean, of demo_json "worker2 False" 101 3 0 "frame_of ''A''"] in
      \<open>simp only: worker3_eval(1) bindE_Inr snd_conv\<close>)

lemma demo_json_simps:
  "j_parse demo_json = Some" "j_styled demo_json = (\<lambda>v. v)" "j_set demo_json k n v = Inr (v @ to_string n)"
  "j_remove demo_json k v = Inr v" "j_int demo_json ''client_sock'' (a # b # s) = Inr (digit_val a)"
  "j_int demo_json ''pack_id'' (a # b # s) = Inr (digit_val b)"
  by (simp_all add: demo_json_def)

lemma small_digits: "digit_val CHR ''0'' = 0" "digit_val CHR ''1'' = 1"
  by (simp_all add: digit_val_def)

lemma u32_0: "u32 0 = 0"
  by (simp add: u32_def)

definition demo_client :: client_information where
  "demo_client = (new_client_information 2 ''10.1.1.1'')\<lparr>cl_count := 1, pack_id := 1,
     cli_event_map := [(0, 5296), (1, 6400)]\<rparr>"

lemma worker3_client:
  "map_of (client_map (worker3 b)) 0 = Some demo_client" "cl_bev demo_client = 2"
  "map_of (cli_event_map demo_client) 1 = Some 6400"
  by (simp_all add: worker3_eval(2) demo_client_def new_client_information_def)

end
