(* ===== verification/Worker_Routing.thy ===== *)
theory Worker_Routing
  imports Worker_Numbers Worker_Demo
begin

text \<open>
  What a worker does with a request and with its servers: the exact effect of a forwarded packet,
  of the loss of a server and of the periodic reset, and what follows from them.
\<close>

section \<open>The parts of a forwarded packet\<close>

lemma current_limit_below:
  assumes "map_of (client_map w) c = Some ci" "cl_count ci < 10"
  shows "current_limit c w = Inr (True, w\<lparr>client_map := AList.update c (ci\<lparr>cl_count := cl_count ci + 1\<rparr>) (client_map w)\<rparr>)"
  using assms by (simp add: current_limit_def get_client_def mod_client_def)

lemma forward_request_effect:
  assumes f: "forward_request J c v w = Inr (t, w')" and ci: "map_of (client_map w) c = Some ci"
    and set: "j_set J ''client_sock'' c v = Inr v1" "j_set J ''pack_id'' (pack_id ci + 1) v1 = Inr v2"
    and bev: "bev = snd (m_Serverlist w ! nat (read_count w))"
  shows "t = cstr (j_styled J v2)"
    "w' = w\<lparr>client_map := AList.update c (ci\<lparr>pack_id := pack_id ci + 1\<rparr>) (client_map w), read_count := read_count w + 1,
       calls := calls w @ [BevWrite bev (enc_int (int (length t))), BevWrite bev t]\<rparr>"
  using f ci set
  by (auto simp: forward_request_def get_client_def mod_client_def res_simps Let_def bev_write_def emit_def update_conv' bev
      split: if_splits)

lemma renew_idle_effect:
  assumes r: "renew_idle env c w = Inr w'" and ci: "map_of (client_map w) c = Some ci"
  shows "\<exists>p. client_map w' = AList.update c (ci\<lparr>cli_event_map := AList.update 0 p (cli_event_map ci)\<rparr>) (client_map w)"
    "calls w' = calls w" "read_count w' = read_count w" "fin_queue w' = fin_queue w" "m_Serverlist w' = m_Serverlist w"
proof -
  obtain old where "map_of (cli_event_map ci) 0 = Some old"
    using r ci by (cases "map_of (cli_event_map ci) 0") (auto simp: renew_idle_def get_client_def)
  then show "\<exists>p. client_map w' = AList.update c (ci\<lparr>cli_event_map := AList.update 0 p (cli_event_map ci)\<rparr>) (client_map w)"
    "calls w' = calls w" "read_count w' = read_count w" "fin_queue w' = fin_queue w" "m_Serverlist w' = m_Serverlist w"
    using r ci by (auto simp: renew_idle_def get_client_def mod_client_def res_simps put_ev_def alloc_ev_def push_msg_def
        split: if_splits)
qed

lemma cache_request_effect:
  assumes r: "cache_request env c t w = Inr w'" and ci: "map_of (client_map w) c = Some ci"
    and new: "map_of (cli_event_map ci) (pack_id ci) = None"
  shows "\<exists>p. client_map w' = AList.update c (ci\<lparr>cli_event_map := cli_event_map ci @ [(pack_id ci, p)]\<rparr>) (client_map w) \<and>
     ring_push p (fin_queue w) = Inr (fin_queue w') \<and>
     cells w' p = (e_uninit env p)\<lparr>head_length := int (length t), usr_uuid := s32 c, c_info := t, arr_time := e_now env\<rparr>"
    "length t < 1024" "calls w' = calls w" "read_count w' = read_count w" "m_Serverlist w' = m_Serverlist w"
  using r ci new
  by (auto simp: cache_request_def get_client_def mod_client_def res_simps put_ev_def alloc_ev_def push_fin_def deref_def map_insert_def
      split: if_splits)

section \<open>Requests\<close>

text \<open>The request is remembered under the number that it was sent with.\<close>

lemma remembered:
  assumes r: "renew_idle env c u = Inr x" and q: "cache_request env c t x = Inr w'" and ci: "map_of (client_map u) c = Some ci"
    and new: "map_of (cli_event_map ci) (pack_id ci) = None" "pack_id ci \<noteq> 0" and inv: "ring_inv (fin_queue u)" and cl: "clean env"
  shows "calls w' = calls u" "read_count w' = read_count u" "length t < 1024"
    "\<exists>ci' p. map_of (client_map w') c = Some ci' \<and> cl_bev ci' = cl_bev ci \<and> pack_id ci' = pack_id ci \<and> cl_count ci' = cl_count ci \<and>
       map_of (cli_event_map ci') (pack_id ci) = Some p \<and> ring_items (fin_queue w') = ring_items (fin_queue u) @ [p] \<and>
       c_info (cells w' p) = t \<and> head_length (cells w' p) = int (length t) \<and> arr_time (cells w' p) = e_now env \<and> \<not> finish_flag (cells w' p)"
proof -
  note R = renew_idle_effect[OF r ci]
  from R(1) obtain old where x: "client_map x = AList.update c (ci\<lparr>cli_event_map := AList.update 0 old (cli_event_map ci)\<rparr>) (client_map u)" by blast
  define di where "di = ci\<lparr>cli_event_map := AList.update 0 old (cli_event_map ci)\<rparr>"
  have c: "map_of (client_map x) c = Some di" by (simp add: x update_conv' di_def)
  have n: "map_of (cli_event_map di) (pack_id di) = None" using new by (simp add: di_def update_conv')
  note C = cache_request_effect[OF q c n]
  show "calls w' = calls u" "read_count w' = read_count u" "length t < 1024" using R C by simp_all
  from C(1) obtain p where p: "client_map w' = AList.update c (di\<lparr>cli_event_map := cli_event_map di @ [(pack_id di, p)]\<rparr>) (client_map x)"
    "ring_push p (fin_queue x) = Inr (fin_queue w')"
    "cells w' p = (e_uninit env p)\<lparr>head_length := int (length t), usr_uuid := s32 c, c_info := t, arr_time := e_now env\<rparr>" by blast
  have "ring_items (fin_queue w') = ring_items (fin_queue u) @ [p]" using ring_items_push[OF inv] p(2) R(4) by simp
  moreover have "map_of (client_map w') c = Some (di\<lparr>cli_event_map := cli_event_map di @ [(pack_id di, p)]\<rparr>)" by (simp add: p(1) update_conv')
  moreover have "\<not> finish_flag (cells w' p)" using cl by (simp add: p(3) clean_def)
  ultimately show "\<exists>ci' p. map_of (client_map w') c = Some ci' \<and> cl_bev ci' = cl_bev ci \<and> pack_id ci' = pack_id ci \<and> cl_count ci' = cl_count ci \<and>
       map_of (cli_event_map ci') (pack_id ci) = Some p \<and> ring_items (fin_queue w') = ring_items (fin_queue u) @ [p] \<and>
       c_info (cells w' p) = t \<and> head_length (cells w' p) = int (length t) \<and> arr_time (cells w' p) = e_now env \<and> \<not> finish_flag (cells w' p)"
    using n p(3) by (intro exI[of _ "di\<lparr>cli_event_map := cli_event_map di @ [(pack_id di, p)]\<rparr>"] exI[of _ p]) (simp add: di_def map_add_def)
qed

lemma forwarded:
  assumes "json_ok J" "worker_reach J w" "clean env"
    and ci: "map_of (client_map w) c = Some ci" "cl_count ci < 10"
    and set: "j_parse J msg = Some v" "j_set J ''client_sock'' c v = Inr v1" "j_set J ''pack_id'' (pack_id ci + 1) v1 = Inr v2"
    and p: "client_packet J env c msg w = Inr (stop, w')"
  shows "let t = cstr (j_styled J v2); k = read_count w mod int (length (m_Serverlist w));
       bev = snd (m_Serverlist w ! nat k) in
     length t < 1024 \<and> \<not> stop \<and> calls w' = calls w @ [BevWrite bev (enc_int (int (length t))), BevWrite bev t] \<and>
     read_count w' = k + 1 \<and>
     (\<exists>ci' p. map_of (client_map w') c = Some ci' \<and> cl_bev ci' = cl_bev ci \<and> pack_id ci' = pack_id ci + 1 \<and> cl_count ci' = cl_count ci + 1 \<and>
        map_of (cli_event_map ci') (pack_id ci + 1) = Some p \<and> ring_items (fin_queue w') = ring_items (fin_queue w) @ [p] \<and>
        c_info (cells w' p) = t \<and> head_length (cells w' p) = int (length t) \<and>
        arr_time (cells w' p) = e_now env \<and> \<not> finish_flag (cells w' p))"
proof -
  define k where "k = read_count w mod int (length (m_Serverlist w))"
  define bev where "bev = snd (m_Serverlist w ! nat k)"
  define t where "t = cstr (j_styled J v2)"
  define ci1 where "ci1 = ci\<lparr>cl_count := cl_count ci + 1\<rparr>"
  define w1 where "w1 = w\<lparr>read_count := k, client_map := AList.update c ci1 (client_map w)\<rparr>"
  have lim: "current_limit c (w\<lparr>read_count := k\<rparr>) = Inr (True, w1)"
    using current_limit_below[of "w\<lparr>read_count := k\<rparr>" c ci] ci by (simp add: w1_def ci1_def)
  from p set(1) lim obtain t' u x where f: "forward_request J c v w1 = Inr (t', u)"
    and r: "renew_idle env c u = Inr x" and q: "cache_request env c t' x = Inr w'" and st: "\<not> stop"
    by (auto simp: client_packet_def Let_def k_def[symmetric] res_simps split: if_splits)
  have c1: "map_of (client_map w1) c = Some ci1" by (simp add: w1_def update_conv')
  have b1: "bev = snd (m_Serverlist w1 ! nat (read_count w1))" by (simp add: w1_def bev_def)
  have set1: "j_set J ''pack_id'' (pack_id ci1 + 1) v1 = Inr v2" using set(3) by (simp add: ci1_def)
  note F = forward_request_effect[OF f c1 set(2) set1 b1]
  have tt: "t' = t" using F(1) by (simp add: t_def)
  define ci2 where "ci2 = ci1\<lparr>pack_id := pack_id ci1 + 1\<rparr>"
  have c2: "map_of (client_map u) c = Some ci2" unfolding F(2) by (simp add: update_conv' ci2_def)
  have nums: "keys_below ci" using worker_reach_numbers[OF assms(2)] ci(1) by (auto simp: all_clients_def)
  then have new: "map_of (cli_event_map ci2) (pack_id ci2) = None" "pack_id ci2 \<noteq> 0"
    by (cases "map_of (cli_event_map ci) (pack_id ci + 1)"; force simp: keys_below_def ci2_def ci1_def)+
  have "ring_inv (fin_queue u)"
    using worker_reach_inv[OF assms(1,2)] unfolding F(2) by (simp add: winv_def queue_part_def w1_def)
  note m = remembered[OF r q c2 new this assms(3), unfolded tt]
  show ?thesis
    unfolding Let_def t_def[symmetric] k_def[symmetric] bev_def[symmetric]
    using st m by (simp add: F(2) tt w1_def ci2_def ci1_def)
qed


lemma loop_single:
  "(case r of Inl e \<Rightarrow> Inl e | Inr (stop, w) \<Rightarrow> if stop then Inr ([], w) else client_read_loop J env c [] w) = Inr (s, u) \<Longrightarrow>
    \<exists>stop. r = Inr (stop, u)"
  by (auto simp: client_read_loop.simps[of J env c "[]"] next_frame_nil split: sum.splits prod.splits if_splits)


section \<open>Pieces of a stream\<close>

lemma server_packet_goes_on:
  "j_parse J msg \<noteq> None \<Longrightarrow> server_packet J msg w = Inr (stop, w') \<Longrightarrow> \<not> stop"
  by (auto simp: server_packet_def Let_def res_simps split: option.splits)

lemma server_steps_go_on:
  assumes "\<forall>m\<in>set ms. j_parse J m \<noteq> None"
  shows "steps (server_packet J) ms w \<noteq> Inr (True, w')"
  using assms
proof (induction ms arbitrary: w)
  case (Cons m ms)
  have "\<not> fst x" if "server_packet J m w = Inr x" for x
    using server_packet_goes_on[of J m w "fst x" "snd x"] Cons.prems that by simp
  then show ?case using Cons by (cases "server_packet J m w") (auto split: prod.splits)
qed simp

text \<open>C10: The pieces in which the replies of a server arrive do not matter. When a stream of packets, and
  the beginning of another, arrives in any number of pieces, cut anywhere, also inside the heads, the
  read callbacks for the pieces together do exactly what one callback for the whole stream does:
  every packet once, in order; and the beginning of the incomplete one is kept for the next event.\<close>

theorem replies_in_pieces:
  assumes "concat chunks = concat (map frame_of ms) @ p" "unfinished p"
    and "\<forall>m\<in>set ms. sendable m \<and> j_parse J m \<noteq> None"
  shows "foldE (feed (work_server_socket_read_cb J)) chunks ([], w) = work_server_socket_read_cb J (concat chunks) w \<and>
    work_server_socket_read_cb J (concat chunks) w =
      bindE (foldE (\<lambda>m w. bindE (server_packet J m w) (\<lambda>(_, w). Inr w)) ms w) (\<lambda>w. Inr (p, w))"
proof -
  have n: "steps (server_packet J) ms w \<noteq> Inr (True, w')" for w' by (rule server_steps_go_on) (use assms(3) in blast)
  have "bindE (steps (server_packet J) ms w) (\<lambda>(stop, w). Inr (p, w)) =
      bindE (foldE (\<lambda>m w. bindE (server_packet J m w) (\<lambda>(_, w). Inr w)) ms w) (\<lambda>w. Inr (p, w))"
    using assms(3)
  proof (induction ms arbitrary: w)
    case (Cons m ms)
    show ?case
    proof (cases "server_packet J m w")
      case (Inr x)
      then have "\<not> fst x" using server_packet_goes_on[of J m w "fst x" "snd x"] Cons.prems by simp
      then show ?thesis using Cons Inr by (cases x) simp
    qed simp
  qed simp
  then show ?thesis
    using replies.feed_pieces[of "[]" chunks ms p J, OF _ _ assms(2) _ n] replies.loop_frames[of ms p J w, OF _ unfinished_Short[OF assms(2)] n]
      assms(1,3) by simp
qed

theorem replies_in_pieces_witness:
  "foldE (feed (work_server_socket_read_cb demo_json)) [[CHR 0x02], drop 1 (enc_int 2) @ ''0'', ''1'' @ enc_int 3] ([], worker3 False) =
     bindE (server_packet demo_json ''01'' (worker3 False)) (\<lambda>(_, w). Inr (enc_int 3, w))"
proof -
  have e: "enc_int 2 = CHR 0x02 # drop 1 (enc_int 2)" by (simp add: enc_int_def char_of_def bit_iff_odd)
  have u: "unfinished (enc_int 3)"
    unfolding unfinished_def
    by (intro exI[of _ "''A01''"] exI conjI) (simp_all add: sendable_def BUF_LEN_def frame_of_def)
  have c: "concat [[CHR 0x02], drop 1 (enc_int 2) @ ''0'', ''1'' @ enc_int 3] = concat (map frame_of [''01'']) @ enc_int 3"
    using e by (simp add: frame_of_def)
  have s: "\<forall>m\<in>set [''01'']. sendable m \<and> j_parse demo_json m \<noteq> None" by (simp add: sendable_def BUF_LEN_def demo_json_simps)
  show ?thesis using replies_in_pieces[OF c u s, of "worker3 False"]
    by (cases "server_packet demo_json ''01'' (worker3 False)") (auto split: prod.splits)
qed

section \<open>Servers\<close>

text \<open>The address printed by \<open>ip_port\<close> is read back.\<close>

lemma split_ip_port:
  assumes "CHR '':'' \<notin> set ip" "length ip < 20"
  shows "split_ip_port (ip_port ip port) = Inr (ip, port)"
proof -
  have "find_index (\<lambda>x. x = CHR '':'') (ip_port ip port) = length ip"
    using find_index_append[of ip "\<lambda>x. x = CHR '':''" "CHR '':''" "to_string port"] assms(1) by (auto simp: ip_port_def)
  then have k: "str_find (ip_port ip port) (CHR '':'') 0 = int (length ip)"
    by (simp add: str_find_def ip_port_def Let_def)
  have u: "u64 (int (length ip) + 1) = int (length ip) + 1" using assms(2) by (intro u64_id) auto
  show ?thesis
    unfolding split_ip_port_def k Let_def u
    by (simp add: substr_def ip_port_def nat_add_distrib atoi_to_string)
qed

text \<open>A lost server is reported to the main process. When the connection of a server ends, the
  worker drops exactly this server from its two vectors, whatever the order they are in, frees the
  connection and sends one message of type 1 with the address and the port the server was entered
  with.\<close>

lemma lost_server_reported:
  assumes "json_ok J" "worker_reach J w" "(fd, bev) \<in> set (m_Serverlist w)"
    and "(bev, ip_port ip port) \<in> set (m_server_info w)" "CHR '':'' \<notin> set ip" "NUL \<notin> set ip" "length ip < 20"
    and "distinct (map fst (m_server_info w))"
  shows "\<exists>w'. work_server_event_cb fd bev w = Inr w' \<and>
     mset (m_Serverlist w') = mset (m_Serverlist w) - {#(fd, bev)#} \<and>
     mset (m_server_info w') = mset (m_server_info w) - {#(bev, ip_port ip port)#} \<and>
     calls w' = calls w @ [BevFree bev, MsgSnd \<lparr>msg_type = 1, msg_port = port, msg_ip = ip, process_id = m_idx w\<rparr>] \<and>
     open_bevs w' = open_bevs w - {bev}"
proof -
  have sp: "server_part w" using worker_reach_inv[OF assms(1,2)] by (simp add: winv_def)
  have d: "distinct (map fst (m_Serverlist w))" "distinct (map fst (m_server_info w))" "bev \<in> open_bevs w"
    using sp assms(3,8) by (force simp: server_part_def)+
  from assms(3) obtain i where i: "i < length (m_Serverlist w)" "m_Serverlist w ! i = (fd, bev)" by (auto simp: in_set_conv_nth)
  from assms(4) obtain j where j: "j < length (m_server_info w)" "m_server_info w ! j = (bev, ip_port ip port)"
    by (auto simp: in_set_conv_nth)
  have fi: "find_index (\<lambda>x. fst x = fd) (m_Serverlist w) = i" by (rule find_index_distinct[OF d(1) i(1)]) (simp add: i(2))
  have fj: "find_index (\<lambda>x. fst x = bev) (m_server_info w) = j" by (rule find_index_distinct[OF d(2) j(1)]) (simp add: j(2))
  define sl where "sl = butlast ((m_Serverlist w)[i := last (m_Serverlist w)])"
  define si where "si = butlast ((m_server_info w)[j := last (m_server_info w)])"
  have s: "swap_pop (m_Serverlist w) i = Inr sl" "swap_pop (m_server_info w) j = Inr si"
    using i(1) j(1) by (simp_all add: swap_pop_def sl_def si_def)
  have ms: "mset sl = mset (m_Serverlist w) - {#(fd, bev)#}" "mset si = mset (m_server_info w) - {#(bev, ip_port ip port)#}"
    using mset_swap_pop[OF s(1)] mset_swap_pop[OF s(2)] i(2) j(2) by (metis add_mset_remove_trivial)+
  have ip: "strcpy_at (replicate 20 NUL) 0 ip = Inr (ip @ NUL # replicate (19 - length ip) NUL)"
    using assms(7) by (simp add: strcpy_at_def)
  show ?thesis
    by (rule exI[of _ "emit (MsgSnd \<lparr>msg_type = 1, msg_port = port, msg_ip = ip, process_id = m_idx w\<rparr>)
        (emit (BevFree bev) (w\<lparr>m_Serverlist := sl, m_server_info := si, open_bevs := open_bevs w - {bev}\<rparr>))"])
      (simp add: work_server_event_cb_def fi fj s j Let_def bev_free_def d(3) split_ip_port[OF assms(5,7)] ip
        cstr_append_NUL[OF assms(6)] ms, simp add: emit_def)
qed

lemma lost_server_reported_witness:
  "\<exists>w'. work_server_event_cb 7 1 (worker2 False) = Inr w' \<and> m_Serverlist w' = [] \<and> m_server_info w' = [] \<and>
     calls w' = [Connect [] 8001, BevFree 1, MsgSnd \<lparr>msg_type = 1, msg_port = 8001, msg_ip = [], process_id = 0\<rparr>]"
proof -
  have a: "c_ip demo_address = []" by (simp add: c_ip_def demo_address_def new_address_def cstr_def)
  from lost_server_reported[OF demo_json_ok worker2_reach, of 7 1 "[]" 8001] show ?thesis
    by (auto simp: worker2_eval(2) worker1_eq worker0_eq a)
qed

end
