(* ===== verification/Worker_Faults.thy ===== *)
theory Worker_Faults
  imports Worker_Routing
begin

text \<open>
  Situations in which a worker fails: undefined behaviour or a trap that a client, a server or the
  registry can cause. Each is stated as the outcome of the callback of the code in a state that
  the worker reaches.
\<close>

section \<open>The periodic reset\<close>

lemma update_middle: "c \<notin> set (map fst ds) \<Longrightarrow> AList.update c v (ds @ (c, x) # cs) = ds @ (c, v) # cs"
  by (induction ds) auto

lemma map_of_middle: "c \<notin> set (map fst ds) \<Longrightarrow> map_of (ds @ (c, x) # cs) c = Some x"
  by (induction ds) auto

lemma empty_count_loop_exact:
  assumes "client_map w = ds @ cs" "distinct (map fst (ds @ cs))"
    and "\<forall>x\<in>set cs. close_flag (snd x) \<longrightarrow> cl_bev (snd x) \<in> open_bevs w"
  shows "empty_count_loop (map fst cs) w =
     (if \<exists>x\<in>set cs. close_flag (snd x) then Inl Bad_Iterator
      else Inr (w\<lparr>client_map := ds @ map (\<lambda>x. (fst x, (snd x)\<lparr>cl_count := 0\<rparr>)) cs\<rparr>))"
  using assms
proof (induction cs arbitrary: ds w)
  case (Cons x cs)
  obtain c ci where x: "x = (c, ci)" by (cases x)
  have c: "c \<notin> set (map fst ds)" using Cons.prems(2) x by auto
  have g: "get_client w c = Inr ci" using Cons.prems(1) x map_of_middle[OF c] by (simp add: get_client_def)
  show ?case
  proof (cases "close_flag ci")
    case True
    then show ?thesis using Cons.prems(3) x g by (simp add: bev_free_def)
  next
    case False
    define u where "u = w\<lparr>client_map := ds @ (c, ci\<lparr>cl_count := 0\<rparr>) # cs\<rparr>"
    have m: "mod_client c (\<lambda>ci. ci\<lparr>cl_count := 0\<rparr>) w = Inr u"
      using g Cons.prems(1) x update_middle[OF c] by (simp add: mod_client_def u_def)
    have "client_map u = (ds @ [(c, ci\<lparr>cl_count := 0\<rparr>)]) @ cs" by (simp add: u_def)
    moreover have "distinct (map fst ((ds @ [(c, ci\<lparr>cl_count := 0\<rparr>)]) @ cs))" using Cons.prems(2) x by simp
    moreover have "\<forall>x\<in>set cs. close_flag (snd x) \<longrightarrow> cl_bev (snd x) \<in> open_bevs u" using Cons.prems(3) by (simp add: u_def)
    ultimately have "empty_count_loop (map fst cs) u = (if \<exists>x\<in>set cs. close_flag (snd x) then Inl Bad_Iterator
      else Inr (u\<lparr>client_map := (ds @ [(c, ci\<lparr>cl_count := 0\<rparr>)]) @ map (\<lambda>x. (fst x, (snd x)\<lparr>cl_count := 0\<rparr>)) cs\<rparr>))"
      by (rule Cons.IH)
    then show ?thesis using False x g m by (simp add: u_def)
  qed
qed simp

lemma reach_clients:
  assumes "json_ok J" "worker_reach J w"
  shows "distinct (map fst (client_map w))" "\<forall>x\<in>set (client_map w). cl_bev (snd x) \<in> open_bevs w"
proof -
  have "client_part {} w" "bev_part w" using worker_reach_inv[OF assms] by (auto simp: winv_def)
  then show d: "distinct (map fst (client_map w))" by (simp add: client_part_def)
  show "\<forall>x\<in>set (client_map w). cl_bev (snd x) \<in> open_bevs w"
    using \<open>bev_part w\<close> d unfolding bev_part_def by (metis map_of_eq_Some_iff prod.collapse)
qed

text \<open>The periodic reset. When no client is marked for closing, \<open>empty_count_cb\<close> sets the count of
  every client to 0 and changes nothing else; as soon as one is, the loop erases the map entry that its
  iterator points to and then increments this iterator, which is undefined.\<close>

lemma count_reset:
  assumes "json_ok J" "worker_reach J w"
  shows "empty_count_cb w =
     (if \<exists>x\<in>set (client_map w). close_flag (snd x) then Inl Bad_Iterator
      else Inr (w\<lparr>client_map := map (\<lambda>x. (fst x, (snd x)\<lparr>cl_count := 0\<rparr>)) (client_map w)\<rparr>))"
  using empty_count_loop_exact[of w "[]" "client_map w"] reach_clients[OF assms] by (simp add: empty_count_cb_def)

lemma count_reset_witness:
  "empty_count_cb (worker3 False) = Inr ((worker3 False)\<lparr>client_map := [(0, demo_client\<lparr>cl_count := 0\<rparr>)]\<rparr>)"
  using count_reset[OF demo_json_ok worker3_reach]
  by (simp add: worker3_eval(2) demo_client_def new_client_information_def)

text \<open>A packet of a client over its limit: the client is marked and reported, nothing else happens.\<close>

definition marked_client :: "client_information \<Rightarrow> client_information" where
  "marked_client ci = ci\<lparr>cl_count := cl_count ci + 1, close_flag := True\<rparr>"

definition ban_message :: "client_information \<Rightarrow> worker \<Rightarrow> message" where
  "ban_message ci w = \<lparr>msg_type = 2, msg_port = 0, msg_ip = cl_ip ci, process_id = m_idx w\<rparr>"

definition over_limit :: "int \<Rightarrow> client_information \<Rightarrow> worker \<Rightarrow> worker" where
  "over_limit c ci w = w\<lparr>read_count := read_count w mod int (length (m_Serverlist w)),
     client_map := AList.update c (marked_client ci) (AList.update c (ci\<lparr>cl_count := cl_count ci + 1\<rparr>) (client_map w)),
     calls := calls w @ [MsgSnd (ban_message ci w)]\<rparr>"

lemma packet_over_limit:
  assumes "map_of (client_map w) c = Some ci" "10 \<le> cl_count ci" "j_parse J msg = Some v" "m_Serverlist w \<noteq> []"
    and "NUL \<notin> set (cl_ip ci)" "length (cl_ip ci) < 20"
  shows "client_packet J env c msg w = Inr (True, over_limit c ci w)"
proof -
  have "strcpy_at (replicate 20 NUL) 0 (cl_ip ci) = Inr (cl_ip ci @ NUL # replicate (19 - length (cl_ip ci)) NUL)"
    using assms(6) by (simp add: strcpy_at_def)
  then show ?thesis
    using assms by (simp add: client_packet_def Let_def current_limit_def get_client_def mod_client_def update_conv' emit_def
        over_limit_def marked_client_def ban_message_def cstr_append_NUL)
qed

text \<open>C38: The eleventh packet of a client between two resets takes the worker down: it is not
  forwarded, the client is marked and reported with its address, and the next periodic reset is
  undefined behaviour. (Distinct keys and open connections are what every worker has.)\<close>

theorem rate_limit_crash:
  assumes "distinct (map fst (client_map w))" "\<forall>x\<in>set (client_map w). cl_bev (snd x) \<in> open_bevs w"
    and "map_of (client_map w) c = Some ci" "10 \<le> cl_count ci"
    and "j_parse J msg = Some v" "m_Serverlist w \<noteq> []" "NUL \<notin> set (cl_ip ci)" "length (cl_ip ci) < 20"
  shows "\<exists>w'. client_packet J env c msg w = Inr (True, w') \<and>
     calls w' = calls w @ [MsgSnd \<lparr>msg_type = 2, msg_port = 0, msg_ip = cl_ip ci, process_id = m_idx w\<rparr>] \<and>
     empty_count_cb w' = Inl Bad_Iterator"
proof -
  define cm where "cm = client_map (over_limit c ci w)"
  note p = packet_over_limit[OF assms(3-8)]
  have d: "distinct (map fst cm)" using assms(1) by (simp add: cm_def over_limit_def distinct_update)
  have m: "map_of cm = (map_of (client_map w))(c \<mapsto> marked_client ci)" by (simp add: cm_def over_limit_def update_conv')
  have mem: "(c, marked_client ci) \<in> set cm" using m by (intro map_of_SomeD) simp
  have "cl_bev (snd x) \<in> open_bevs w" if "x \<in> set cm" for x
  proof -
    have "map_of cm (fst x) = Some (snd x)" using that d by (metis map_of_eq_Some_iff prod.collapse)
    show ?thesis
    proof (cases "fst x = c")
      case True
      then have "snd x = marked_client ci" using \<open>map_of cm (fst x) = Some (snd x)\<close> m by simp
      then show ?thesis using bspec[OF assms(2) map_of_SomeD[OF assms(3)]] by (simp add: marked_client_def)
    next
      case False
      then have "map_of (client_map w) (fst x) = Some (snd x)" using \<open>map_of cm (fst x) = Some (snd x)\<close> m by simp
      then show ?thesis using bspec[OF assms(2) map_of_SomeD] by fastforce
    qed
  qed
  then have "empty_count_cb (over_limit c ci w) = Inl Bad_Iterator"
    using empty_count_loop_exact[of "over_limit c ci w" "[]" cm] d mem
    by (force simp: empty_count_cb_def cm_def over_limit_def marked_client_def)
  then show ?thesis using p by (auto simp: over_limit_def ban_message_def)
qed

text \<open>The client of the concrete worker with ten packets counted.\<close>

definition busy_worker :: worker where
  "busy_worker = (worker3 False)\<lparr>client_map := [(0, demo_client\<lparr>cl_count := 10\<rparr>)]\<rparr>"

theorem rate_limit_crash_witness:
  "\<exists>w'. client_packet demo_json (demo_env 102 4 False) 0 ''A'' busy_worker = Inr (True, w') \<and>
     empty_count_cb w' = Inl Bad_Iterator"
  using rate_limit_crash[of busy_worker 0 "demo_client\<lparr>cl_count := 10\<rparr>" demo_json "''A''" "''A''" "demo_env 102 4 False"]
  by (auto simp: busy_worker_def worker3_eval(2) worker2_eval(2) worker1_eq worker0_eq demo_client_def
      new_client_information_def demo_json_simps)

section \<open>Input the worker does not check\<close>

text \<open>With no server left a request traps: \<open>count % m_Serverlist.size()\<close> divides by zero before
  the packet is counted or forwarded.\<close>

lemma no_server_traps:
  assumes "m_Serverlist w = []" "map_of (client_map w) (u32 arg) = Some ci" "\<not> close_flag ci"
    and "sendable s" "j_parse J s = Some v"
  shows "client_socket_read_cb J env arg (frame_of s @ rest) w = Inl Div_By_Zero"
  using assms
  by (simp add: client_socket_read_cb_def get_client_def client_read_loop.simps next_frame_of client_packet_def)

lemma no_server_traps_witness:
  "client_socket_read_cb demo_json (demo_env 101 3 False) 0 (frame_of ''A'' @ []) ((worker2 False)\<lparr>m_Serverlist := []\<rparr>) =
     Inl Div_By_Zero"
  using no_server_traps[of "(worker2 False)\<lparr>m_Serverlist := []\<rparr>" 0
      "(new_client_information 2 ''10.1.1.1'')\<lparr>cli_event_map := [(0, 4192)]\<rparr>" "''A''" demo_json "''A''" "demo_env 101 3 False" "[]"]
  by (simp add: worker2_eval(2) u32_0 new_client_information_def sendable_def BUF_LEN_def demo_json_simps)

text \<open>A frame that announces more than 1024 bytes, and brings them, is copied past the end of
  \<open>char buffer[1024]\<close>, by the reader of the clients and by the reader of the servers; the limit is
  never checked.\<close>

lemma oversize_frame_overruns:
  assumes "1024 < length bs" "length bs < 2147483648" "map_of (client_map w) (u32 arg) = Some ci" "\<not> close_flag ci"
  shows "client_socket_read_cb J env arg (enc_int (int (length bs)) @ bs @ rest) w = Inl Out_Of_Bounds \<and>
     work_server_socket_read_cb J (enc_int (int (length bs)) @ bs @ rest) w = Inl Out_Of_Bounds"
proof -
  let ?inp = "enc_int (int (length bs)) @ bs @ rest"
  have "dec_int ?inp = int (length bs)" using assms(1,2) by (intro dec_enc_int) auto
  then have "next_frame ?inp = Overrun"
    using assms(1,2) by (simp add: next_frame_def SIZEOF_HEAD_def BUF_LEN_def)
  then show ?thesis
    using assms(3,4)
    by (simp add: client_socket_read_cb_def get_client_def client_read_loop.simps work_server_socket_read_cb.simps)
qed

lemma oversize_frame_overruns_witness:
  "client_socket_read_cb demo_json (demo_env 101 3 False) 0
     (enc_int (int (length (replicate 1025 CHR ''x''))) @ replicate 1025 CHR ''x'' @ []) (worker2 False) = Inl Out_Of_Bounds"
  using oversize_frame_overruns[of "replicate 1025 CHR ''x''" "worker2 False" 0
      "(new_client_information 2 ''10.1.1.1'')\<lparr>cli_event_map := [(0, 4192)]\<rparr>" demo_json "demo_env 101 3 False" "[]"]
  by (simp add: worker2_eval(2) u32_0 new_client_information_def)

section \<open>Servers that leave and come back\<close>

lemma find_index_stays: "find_index p xs < length xs \<Longrightarrow> find_index p (xs @ ys) = find_index p xs"
  by (induction xs) auto

text \<open>Two servers that log out take a worker down. The first command 3 closes the gap in \<open>m_Serverlist\<close> but
  leaves \<open>m_server_info\<close> as it was, so that from then on the indices of the two vectors differ: when the
  first command named a server before the last, a second one for the last server reads and writes
  beyond the end of \<open>m_Serverlist\<close>.\<close>

lemma second_drop_overruns:
  assumes "map fst (m_server_info w) = map snd (m_Serverlist w)" "m_server_info w = xs @ [(bev, s)]" "s \<notin> snd ` set xs"
    and "ip_port (c_ip a) (addr_port a) \<in> snd ` set xs" "remove_server a w = Inr w1" "ip_port (c_ip b) (addr_port b) = s"
  shows "remove_server b w1 = Inl Out_Of_Bounds"
proof -
  define i where "i = find_index (\<lambda>x. snd x = ip_port (c_ip a) (addr_port a)) (m_server_info w)"
  have "find_index (\<lambda>x. snd x = ip_port (c_ip a) (addr_port a)) xs < length xs"
    unfolding find_index_less using assms(4) by force
  then have i: "i < length (m_server_info w)"
    using find_index_stays[of "\<lambda>x. snd x = ip_port (c_ip a) (addr_port a)" xs "[(bev, s)]"] by (simp add: i_def assms(2))
  from assms(5) i obtain l where l: "swap_pop (m_Serverlist w) i = Inr l"
    and f: "bev_free (fst (m_server_info w ! i)) (w\<lparr>m_Serverlist := l\<rparr>) = Inr w1"
    by (auto simp: remove_server_def Let_def i_def[symmetric] res_simps)
  have w1: "m_Serverlist w1 = l" "m_server_info w1 = xs @ [(bev, s)]"
    using f assms(2) by (auto simp: bev_free_def emit_def split: if_splits)
  have "length (m_Serverlist w) = Suc (length xs)"
    using arg_cong[OF assms(1), of length] by (simp add: assms(2))
  then have "length l = length xs" using length_swap_pop[OF l] by simp
  moreover have "find_index (\<lambda>x. snd x = s) (xs @ [(bev, s)]) = length xs"
    by (rule find_index_append) (use assms(3) in auto)
  ultimately show ?thesis
    by (simp add: remove_server_def Let_def w1 assms(6) swap_pop_def)
qed

lemma second_drop_overruns_witness:
  "\<exists>a b w1. remove_server a (add_server (demo_env 200 9 False) b (worker2 False)) = Inr w1 \<and> remove_server b w1 = Inl Out_Of_Bounds"
proof -
  define b where "b = (new_address 0)\<lparr>addr_port := 8002\<rparr>"
  define w where "w = add_server (demo_env 200 9 False) b (worker2 False)"
  define s where "s = ip_port (c_ip demo_address) (addr_port demo_address)"
  define t where "t = ip_port (c_ip b) (addr_port b)"
  have n: "t \<noteq> s"
    by (simp add: s_def t_def b_def demo_address_def new_address_def ip_port_def c_ip_def cstr_def to_string_def show_nat.simps)
      (simp add: digit_char_def)
  have w: "m_server_info w = [(1, s)] @ [(9, t)]" "m_Serverlist w = [(7, 1), (7, 9)]" "1 \<in> open_bevs w"
    by (simp_all add: w_def t_def s_def add_server_def Let_def demo_env_def emit_def open_bev_def worker2_eval(2) worker1_eq worker0_eq
        demo_address_def)
  obtain w1 where w1: "remove_server demo_address w = Inr w1"
    using w(3) by (simp add: remove_server_def w(1,2) s_def[symmetric] swap_pop_def bev_free_def)
  have "remove_server b w1 = Inl Out_Of_Bounds"
    by (rule second_drop_overruns[OF _ w(1) _ _ w1]) (use n w in \<open>auto simp: s_def t_def\<close>)
  then show ?thesis using w1 unfolding w_def by blast
qed

text \<open>A server that logs out, logs in again and logs out again takes every worker down: command 3
  leaves its entry in \<open>m_server_info\<close>, so that the second command 3 finds the old entry and frees
  the connection that was freed by the first.\<close>

lemma relogin_frees_twice:
  assumes "remove_server a w = Inr w1" "ip_port (c_ip a) (addr_port a) \<in> snd ` set (m_server_info w)"
    and "e_connect env (c_ip a) (addr_port a) = Some fd" "\<forall>b\<in>fst ` set (m_server_info w). b \<noteq> e_bev env"
  shows "remove_server a (add_server env a w1) = Inl Dangling"
proof -
  define s where "s = ip_port (c_ip a) (addr_port a)"
  define i where "i = find_index (\<lambda>x. snd x = s) (m_server_info w)"
  have i: "i < length (m_server_info w)"
    unfolding i_def find_index_less using assms(2) by (force simp: s_def)
  from assms(1) i obtain l where l: "swap_pop (m_Serverlist w) i = Inr l"
    and f: "bev_free (fst (m_server_info w ! i)) (w\<lparr>m_Serverlist := l\<rparr>) = Inr w1"
    by (auto simp: remove_server_def Let_def s_def[symmetric] i_def[symmetric] res_simps)
  have w1: "m_Serverlist w1 = l" "m_server_info w1 = m_server_info w" "fst (m_server_info w ! i) \<notin> open_bevs w1"
    using f by (auto simp: bev_free_def emit_def split: if_splits)
  define w2 where "w2 = add_server env a w1"
  have w2: "length (m_Serverlist w2) = length l + 1" "m_server_info w2 = m_server_info w @ [(e_bev env, s)]"
    "open_bevs w2 = insert (e_bev env) (open_bevs w1)"
    using assms(3) w1 by (simp_all add: w2_def add_server_def Let_def emit_def open_bev_def s_def)
  have fi: "find_index (\<lambda>x. snd x = s) (m_server_info w @ xs) = i" for xs
    using i unfolding i_def by (rule find_index_stays)
  have nth: "m_server_info w2 ! i = m_server_info w ! i" using i by (simp add: w2(2) nth_append)
  have "fst (m_server_info w ! i) \<noteq> e_bev env" using assms(4) nth_mem[OF i] by blast
  then have nb: "fst (m_server_info w2 ! i) \<notin> open_bevs w2" using w1(3) by (simp add: nth w2(3))
  have "length l = length (m_Serverlist w) - 1" "i < length (m_Serverlist w)"
    using l by (auto simp: swap_pop_def split: if_splits)
  then have "i < length (m_Serverlist w2)" using w2(1) by simp
  then show ?thesis
    using i nb unfolding w2_def[symmetric]
    by (simp add: remove_server_def Let_def s_def[symmetric] w2(2) fi swap_pop_def bev_free_def nth_append)
qed

lemma relogin_frees_twice_demo:
  "\<exists>w1. remove_server demo_address (worker2 False) = Inr w1 \<and>
     remove_server demo_address (add_server (demo_env 200 9 False) demo_address w1) = Inl Dangling"
proof -
  define s where "s = ip_port (c_ip demo_address) (addr_port demo_address)"
  have p: "addr_port demo_address = 8001" by (simp add: demo_address_def)
  have si: "m_server_info (worker2 False) = [(1, s)]" by (simp add: worker2_eval(2) worker1_eq worker0_eq s_def p)
  then obtain w1 where w1: "remove_server demo_address (worker2 False) = Inr w1"
    by (simp add: remove_server_def s_def[symmetric] swap_pop_def bev_free_def worker2_eval(2) worker1_eq worker0_eq)
  from relogin_frees_twice[OF w1, of "demo_env 200 9 False" 7] show ?thesis
    using w1 si by (auto simp: s_def demo_env_def)
qed

section \<open>Memory that is not initialised\<close>

text \<open>
  The members \<open>msg_flag\<close> and \<open>finish_flag\<close> of an event from the pool are what the memory held.
  Here it held ones: the concrete worker of the theory \<open>Worker_Demo\<close> with \<open>b\<close> set.
\<close>

lemma free_cached:
  "\<exists>m. free_ev 6400 (worker3 b) = Inr ((worker3 b)\<lparr>mp := m, owned := {4192, 5296}\<rparr>)"
proof -
  have "pool_part (worker3 False)" using worker_reach_inv[OF demo_json_ok worker3_reach] by (simp add: winv_def)
  then have "pool_part (worker3 b)" by (simp add: pool_part_def worker3_eval(2))
  moreover have "6400 \<in> owned (worker3 b)" "owned (worker3 b) - {6400} = {4192, 5296}"
    by (auto simp: worker3_eval(2))
  ultimately show ?thesis using free_ev_ok[of "worker3 b" 6400] by auto
qed

lemma worker3_fields:
  "msg_queue (worker3 b) = \<lparr>q_slots = (\<lambda>_. 0)(0 := 4192, 1 := 5296), q_front = 0, q_back = 2\<rparr>"
  "fin_queue (worker3 b) = \<lparr>q_slots = (\<lambda>_. 0)(0 := 6400), q_front = 0, q_back = 1\<rparr>"
  "owned (worker3 b) = {4192, 5296, 6400}" "2 \<in> open_bevs (worker3 b)"
  "usr_uuid (cells (worker3 b) 4192) = 0" "usr_uuid (cells (worker3 b) 6400) = 0"
  "arr_time (cells (worker3 b) 4192) = 100" "arr_time (cells (worker3 b) 6400) = 101"
  "finish_flag (cells (worker3 b) 6400) = b"
  by (simp_all add: worker3_eval(2) worker2_eval(2) blank_event_def)

lemma timer_drops_cached:
  "\<exists>w. check_time_out_cb 112 (worker3 True) = Some (Inr w) \<and> 6400 \<notin> owned w \<and>
     client_map w = client_map (worker3 True) \<and> open_bevs w = open_bevs (worker3 True)"
proof -
  obtain m where m: "free_ev 6400 (worker3 True) = Inr ((worker3 True)\<lparr>mp := m, owned := {4192, 5296}\<rparr>)"
    using free_cached by blast
  define w where "w = pop_fin ((worker3 True)\<lparr>mp := m, owned := {4192, 5296}\<rparr>)"
  note d = ring_front_def ring_empty_def deref_def worker3_fields u32_0 worker3_client MSG_TIMEOUT_def FIN_TIMEOUT_def
  have "idle_round 112 (worker3 True) = Inr (True, worker3 True)"
    by (simp add: idle_round_def d)
  then have i: "run_rounds (idle_round 112) (worker3 True) = Some (Inr (worker3 True))"
    by (subst run_rounds.simps) simp
  have f1: "fin_round 112 (worker3 True) = Inr (False, w)"
    by (simp add: fin_round_def d m w_def)
  have f2: "fin_round 112 w = Inr (True, w)"
    by (simp add: fin_round_def w_def pop_fin_def ring_pop_def ring_empty_def worker3_fields MSG_QUEUE_LEN_def)
  have "run_rounds (fin_round 112) w = Some (Inr w)" by (subst run_rounds.simps) (simp add: f2)
  then have "run_rounds (fin_round 112) (worker3 True) = Some (Inr w)" by (subst run_rounds.simps) (simp add: f1)
  then have "check_time_out_cb 112 (worker3 True) = Some (Inr w)" by (simp add: check_time_out_cb_def i)
  then show ?thesis by (auto simp: w_def pop_fin_def)
qed

text \<open>C39: The flags of a cached request are never initialised. On memory that held ones, a client is
  accepted, its request is forwarded and cached, and the first look of the timer after
  \<open>FIN_TIMEOUT\<close> takes the unanswered request for finished: it is given back to the pool while the
  client still refers to it, and the reply of the server then writes to the released memory. The
  default member initialisers that would prevent it do not run on memory from the pool.\<close>

theorem uninitialised_flags_dangle:
  "\<exists>w2 h w3 w4. accept_client (demo_env 100 2 True) (worker1, init_shm) = Inr (w2, h) \<and>
     client_socket_read_cb demo_json (demo_env 101 3 True) 0 (frame_of ''A'') w2 = Inr ([], w3) \<and>
     check_time_out_cb 112 w3 = Some (Inr w4) \<and> server_packet demo_json ''01'' w4 = Inl Dangling"
proof -
  obtain w where w: "check_time_out_cb 112 (worker3 True) = Some (Inr w)" "6400 \<notin> owned w"
    "client_map w = client_map (worker3 True)" "open_bevs w = open_bevs (worker3 True)"
    using timer_drops_cached by blast
  have "server_packet demo_json ''01'' w = Inl Dangling"
    using w(2-4) by (simp add: server_packet_def demo_json_simps small_digits u32_0 worker3_client bev_write_def
        worker3_fields put_ev_def deref_def emit_def)
  then show ?thesis using worker2_eval(1) worker3_eval(1) w(1) by blast
qed

end
