(* ===== verification/Main_Process.thy ===== *)
theory Main_Process
  imports Worker Server_Registry
begin

text \<open>
  The main process (\<open>run_parent\<close> and its callbacks in \<^verbatim>\<open>include/pool.h\<close>): it hands waiting
  clients to the workers in turn, accepts the registration connections of the servers, updates
  the server list and tells the workers, and on a signal shuts everything down. The number of
  workers is the number of pipes.
\<close>

section \<open>State\<close>

record 'f main_process =
  mon :: "'f monitor"
  shm :: Hhei_Ming_Dan
  accept_count :: int
  reg_conns :: "(int \<times> nat) list"
  main_calls :: "call list"
  main_bevs :: "nat set"

definition send_all :: "string \<Rightarrow> 'f main_process \<Rightarrow> 'f main_process" where
  "send_all bs m = m\<lparr>mon := (mon m)\<lparr>pipes := map (\<lambda>p. p @ bs) (pipes (mon m))\<rparr>\<rparr>"

definition main_write :: "nat \<Rightarrow> string \<Rightarrow> 'f main_process \<Rightarrow> 'f main_process res" where
  "main_write b s m =
     (if b \<in> main_bevs m then Inr (m\<lparr>main_calls := main_calls m @ [BevWrite b s]\<rparr>) else Inl Dangling)"

definition main_free :: "nat \<Rightarrow> 'f main_process \<Rightarrow> 'f main_process res" where
  "main_free b m =
     (if b \<in> main_bevs m
      then Inr (m\<lparr>main_calls := main_calls m @ [BevFree b], main_bevs := main_bevs m - {b}\<rparr>)
      else Inl Dangling)"

section \<open>Configuration\<close>

text \<open>
  The checks of \<open>main\<close> and \<open>run_parent\<close>: 0 stands for a missing or wrong entry;
  \<open>(bool)type.c_str()\<close> is always true.
\<close>

definition main_config_ok :: "int \<Rightarrow> int \<Rightarrow> int \<Rightarrow> bool" where
  "main_config_ok client_port server_port process_number \<longleftrightarrow>
     client_port \<noteq> 0 \<and> server_port \<noteq> 0 \<and> process_number \<noteq> 0"

definition parent_config_ok :: "int \<Rightarrow> int \<Rightarrow> string \<Rightarrow> bool" where
  "parent_config_ok interval maxfails type \<longleftrightarrow> interval \<noteq> 0 \<and> maxfails \<noteq> 0"

section \<open>Clients\<close>

text \<open>
  \<open>locked\<close> is whether \<open>pthread_mutex_trylock\<close> got the lock. The worker chosen is told, and no
  other until a worker has accepted (\<open>accept_flag\<close>).
\<close>

definition ListenerClientCallBack :: "bool \<Rightarrow> 'f main_process \<Rightarrow> 'f main_process res" where
  "ListenerClientCallBack locked m =
     (if \<not> locked then Inr m
      else if accept_flag (shm m) then
        if pipes (mon m) = [] then Inl Div_By_Zero
        else
          let k = accept_count m mod int (length (pipes (mon m)));
              p = pipes (mon m) in
          Inr (m\<lparr>mon := (mon m)\<lparr>pipes := p[nat k := p ! nat k @ enc_int 1]\<rparr>,
                 accept_count := k + 1,
                 shm := (shm m)\<lparr>accept_flag := False\<rparr>\<rparr>)
      else Inr m)"

section \<open>Servers\<close>

definition ListenerServerCallBack :: "int \<Rightarrow> nat \<Rightarrow> 'f main_process \<Rightarrow> 'f main_process" where
  "ListenerServerCallBack sockfd bev m =
     m\<lparr>reg_conns := reg_conns m @ [(sockfd, bev)], main_bevs := insert bev (main_bevs m)\<rparr>"

text \<open>The four replies, in UTF-8.\<close>

definition login_failed :: string where
  "login_failed = map char_of [0xE6, 0xB3, 0xA8, 0xE5, 0x86, 0x8C, 0xE5, 0xA4, 0xB1, 0xE8, 0xB4, 0xA5, 0xEF, 0xBC, 0x81 :: nat]"

definition login_done :: string where
  "login_done = map char_of [0xE6, 0xB3, 0xA8, 0xE5, 0x86, 0x8C, 0xE6, 0x88, 0x90, 0xE5, 0x8A, 0x9F, 0xEF, 0xBC, 0x81 :: nat]"

definition logout_failed :: string where
  "logout_failed = map char_of [0xE6, 0xB3, 0xA8, 0xE9, 0x94, 0x80, 0xE5, 0xA4, 0xB1, 0xE8, 0xB4, 0xA5, 0xEF, 0xBC, 0x81 :: nat]"

definition logout_done :: string where
  "logout_done = map char_of [0xE6, 0xB3, 0xA8, 0xE9, 0x94, 0x80, 0xE6, 0x88, 0x90, 0xE5, 0x8A, 0x9F, 0xEF, 0xBC, 0x81 :: nat]"

text \<open>
  \<open>strcpy(msg, text)\<close> into an uninitialised array of 1024 bytes, which is sent whole, after its
  length; \<open>junk\<close> is what the array held.
\<close>

definition send_reply :: "nat \<Rightarrow> string \<Rightarrow> string \<Rightarrow> 'f main_process \<Rightarrow> 'f main_process res" where
  "send_reply bev junk text m =
     bindE (strcpy_at junk 0 text) (\<lambda>msg.
     bindE (main_write bev (enc_int (int (length msg))) m) (\<lambda>m. main_write bev msg m))"

text \<open>The command, the length and \<open>length\<close> bytes of the address, to every worker.\<close>

definition forward_address :: "int \<Rightarrow> int \<Rightarrow> address \<Rightarrow> 'f main_process \<Rightarrow> 'f main_process res" where
  "forward_address message n a m =
     (if u64 n \<le> int SIZEOF_ADDRESS
      then Inr (send_all (enc_int message @ enc_int n @ take (nat n) (enc_address a)) m)
      else Inl Out_Of_Bounds)"

definition c_token :: "address \<Rightarrow> string" where
  "c_token a = cstr (addr_token a)"

definition server_socket_read_cb ::
    "'f codec \<Rightarrow> string \<Rightarrow> nat \<Rightarrow> string \<Rightarrow> 'f main_process \<Rightarrow> (string \<times> 'f main_process) res" where
  "server_socket_read_cb cd junk bev inp m =
     (if length inp < 4 then Inl Assert_Failed
      else
        let n = dec_int inp; rest = drop 4 inp; bs = take (nat (u64 n)) rest; left = drop (length bs) rest in
        bindE (fill_address (new_address 0) bs) (\<lambda>a.
        if c_token a = ''login'' then
          let (ret, s) = LoginServer cd (c_ip a) (addr_port a) (mon m); m = m\<lparr>mon := s\<rparr> in
          if ret \<noteq> 0 then bindE (send_reply bev junk login_failed m) (\<lambda>m. Inr (left, m))
          else
            bindE (send_reply bev junk login_done m) (\<lambda>m.
            bindE (forward_address 2 n a m) (\<lambda>m. Inr (left, m)))
        else if c_token a = ''logout'' then
          let (ret, s) = LogoutServer cd (c_ip a) (addr_port a) (mon m); m = m\<lparr>mon := s\<rparr> in
          if ret \<noteq> 0 then bindE (send_reply bev junk logout_failed m) (\<lambda>m. Inr (left, m))
          else
            bindE (send_reply bev junk logout_done m) (\<lambda>m.
            bindE (forward_address 3 n a m) (\<lambda>m. Inr (left, m)))
        else Inr (left, m)))"

text \<open>A registration connection closes; \<open>fd\<close> is \<open>bufferevent_getfd(bev)\<close>.\<close>

definition server_event_cb :: "int \<Rightarrow> nat \<Rightarrow> 'f main_process \<Rightarrow> 'f main_process res" where
  "server_event_cb fd bev m =
     bindE (swap_pop (reg_conns m) (find_index (\<lambda>x. fst x = fd) (reg_conns m))) (\<lambda>l.
     main_free bev (m\<lparr>reg_conns := l\<rparr>))"

section \<open>Termination\<close>

definition signal_cb :: "int \<Rightarrow> int \<Rightarrow> 'f main_process \<Rightarrow> 'f main_process res" where
  "signal_cb slistenfd clistenfd m =
     bindE (foldE (\<lambda>x. main_free (snd x)) (reg_conns m) (send_all (enc_int 4) m)) (\<lambda>m.
     Inr (m\<lparr>main_calls := main_calls m @ [CloseFd slistenfd, CloseFd clistenfd, LoopBreak]\<rparr>))"

end
