(* ===== verification/Login_Client.thy ===== *)
theory Login_Client
  imports Structures
begin

text \<open>
  The registration tool of a server (\<^verbatim>\<open>src/server_loginout/server_loginout.cc\<close>): what it writes
  to the gateway for a registration or a cancellation, and how it reads the answer. Terminal input
  (the choice, the address and the port) is an argument; the connection is set up by the library.
\<close>

section \<open>Requests\<close>

text \<open>
  \<open>(bool)proxy_ip.c_str()\<close> and \<open>(bool)local_ip.c_str()\<close> are tests of pointers that are never NULL.
\<close>

definition login_config_ok :: "string \<Rightarrow> string \<Rightarrow> int \<Rightarrow> bool" where
  "login_config_ok proxy_ip local_ip proxy_port \<longleftrightarrow> proxy_port \<noteq> 0"

text \<open>\<open>strncpy(server_add.ip, s, strlen(s))\<close>: the characters of \<open>s\<close> without a NUL after them.\<close>

definition strncpy_ip :: "string \<Rightarrow> address \<Rightarrow> address res" where
  "strncpy_ip s a =
     (if length s \<le> length (addr_ip a) then Inr (a\<lparr>addr_ip := s @ drop (length s) (addr_ip a)\<rparr>)
      else Inl Out_Of_Bounds)"

definition address_frame :: "address \<Rightarrow> string" where
  "address_frame a = enc_int (int SIZEOF_ADDRESS) @ enc_address a"

definition login_request :: "string \<Rightarrow> int \<Rightarrow> string res" where
  "login_request local_ip port =
     bindE (set_token ''login'' (new_address 0)) (\<lambda>a.
     bindE (strncpy_ip local_ip (a\<lparr>addr_port := port\<rparr>)) (\<lambda>a.
     Inr (address_frame a)))"

definition logout_request :: "string \<Rightarrow> int \<Rightarrow> string res" where
  "logout_request local_ip port =
     bindE (set_token ''logout'' (new_address 0)) (\<lambda>a.
     bindE (set_ip local_ip (a\<lparr>addr_port := port\<rparr>)) (\<lambda>a.
     Inr (address_frame a)))"

text \<open>What the choice makes the tool write.\<close>

definition select_request :: "int \<Rightarrow> string \<Rightarrow> int \<Rightarrow> string res" where
  "select_request select local_ip port =
     (if select = 1 then login_request local_ip port
      else if select = 2 then logout_request local_ip port
      else Inr [])"

section \<open>The answer\<close>

text \<open>
  \<open>load_socket_read_cb\<close>: the text logged and the bytes left; the connection is freed after it.
  \<open>length\<close> is not set when fewer than four bytes are there; \<open>char msg[length]\<close> needs a positive
  length, is not initialised, and is read up to a NUL.
\<close>

definition load_socket_read_cb :: "string \<Rightarrow> (string \<times> string) res" where
  "load_socket_read_cb inp =
     (if length inp < 4 then Inl Uninit
      else let n = dec_int inp; rest = drop 4 inp in
        if n \<le> 0 then Inl Out_Of_Bounds
        else let msg = take (nat n) rest in
          if NUL \<in> set msg then Inr (cstr msg, drop (length msg) rest)
          else if length msg < nat n then Inl Uninit
          else Inl Out_Of_Bounds)"

section \<open>What is written is well formed\<close>

lemma tokens:
  "set_token ''login'' (new_address j) = Inr ((new_address j)\<lparr>addr_token := ''login'' @ replicate 5 NUL\<rparr>)"
  "set_token ''logout'' (new_address j) = Inr ((new_address j)\<lparr>addr_token := ''logout'' @ replicate 4 NUL\<rparr>)"
  by (simp_all add: set_token_def strcpy_at_def new_address_def numeral_nat)

lemma token_text: "cstr (''login'' @ replicate 5 NUL) = ''login''" "cstr (''logout'' @ replicate 4 NUL) = ''logout''"
  by (simp_all add: cstr_def numeral_nat)

lemma login_request_bytes:
  assumes "length ip < 20" "NUL \<notin> set ip" "- 2147483648 \<le> port" "port < 2147483648"
  shows "\<exists>a. login_request ip port = Inr (address_frame a) \<and> address_wf a \<and> addr_port a = port \<and>
     cstr (addr_ip a @ addr_token a) = ip \<and> cstr (addr_token a) = ''login''"
proof -
  define a where "a = \<lparr>addr_port = port, addr_ip = ip @ replicate (20 - length ip) NUL,
      addr_token = ''login'' @ replicate 5 NUL\<rparr>"
  have "20 - length ip = Suc (19 - length ip)" using assms(1) by simp
  then have c: "cstr (ip @ replicate (20 - length ip) NUL @ t) = ip" for t
    using assms(2) by simp
  have "login_request ip port = Inr (address_frame a)"
    using assms(1) unfolding login_request_def tokens by (simp add: new_address_def strncpy_ip_def a_def)
  moreover have "address_wf a" using assms(1,3,4) by (simp add: a_def address_wf_def)
  moreover have "cstr (addr_ip a @ addr_token a) = ip" using c by (simp add: a_def)
  moreover have "cstr (addr_token a) = ''login''" unfolding a_def using token_text(1) by simp
  ultimately show ?thesis by (intro exI[of _ a]) (simp add: a_def)
qed

lemma logout_request_bytes:
  assumes "length ip < 20" "NUL \<notin> set ip" "- 2147483648 \<le> port" "port < 2147483648"
  shows "\<exists>a. logout_request ip port = Inr (address_frame a) \<and> address_wf a \<and> addr_port a = port \<and>
     cstr (addr_ip a @ addr_token a) = ip \<and> cstr (addr_token a) = ''logout''"
proof -
  define a where "a = \<lparr>addr_port = port, addr_ip = ip @ NUL # replicate (19 - length ip) NUL,
      addr_token = ''logout'' @ replicate 4 NUL\<rparr>"
  have "logout_request ip port = Inr (address_frame a)"
    using assms(1) unfolding logout_request_def tokens by (simp add: new_address_def set_ip_def strcpy_at_def a_def)
  moreover have "address_wf a" using assms(1,3,4) by (simp add: a_def address_wf_def)
  moreover have "cstr (addr_ip a @ addr_token a) = ip" using assms(2) by (simp add: a_def)
  moreover have "cstr (addr_token a) = ''logout''" unfolding a_def using token_text(2) by simp
  ultimately show ?thesis by (intro exI[of _ a]) (simp add: a_def)
qed

text \<open>An answer of the gateway: a text, a NUL and whatever the array held.\<close>

lemma load_answer:
  assumes "NUL \<notin> set text" "length text < 1024" "length junk = 1024" "strcpy_at junk 0 text = Inr msg"
  shows "length msg = 1024" "load_socket_read_cb (enc_int 1024 @ msg) = Inr (text, [])"
proof -
  show l: "length msg = 1024" using length_strcpy_at[OF assms(4)] assms(3) by simp
  have m: "msg = text @ NUL # drop (length text + 1) junk" using assms by (simp add: strcpy_at_def split: if_splits)
  have "cstr msg = text" unfolding m using assms(1) by simp
  moreover have "NUL \<in> set msg" by (simp add: m)
  ultimately show "load_socket_read_cb (enc_int 1024 @ msg) = Inr (text, [])"
    using l by (simp add: load_socket_read_cb_def Let_def)
qed

end
