(* ===== verification/Gateway.thy ===== *)
theory Gateway
  imports Main_Process Login_Client Registry_Theorems Worker_Routing
begin

text \<open>
  The processes together: what the registration tool writes is read by the main process, which
  updates the server list and writes to the pipes of the workers, which connect to the server or
  drop it; the hand-over of clients; and the shutdown.
\<close>

section \<open>Commands on a pipe\<close>

lemma recv_command_address:
  assumes "address_wf a"
  shows "recv_address (enc_int (int SIZEOF_ADDRESS) @ enc_address a @ rest) = Inr (a, rest)"
proof -
  have l: "length (enc_address a) = 36" using length_enc_address[OF assms] by (simp add: SIZEOF_ADDRESS_def)
  then have "enc_address a \<noteq> []" by auto
  moreover have "dec_int (enc_int 36 @ enc_address a @ rest) = 36" by (rule dec_enc_int) simp_all
  ultimately show ?thesis
    using l fill_enc_address[OF assms] by (simp add: recv_address_def SIZEOF_ADDRESS_def Let_def)
qed

lemma pipe_commands:
  assumes "address_wf a"
  shows "pipe_event_CallBack env (command_bytes 2 a @ rest) (w, h) = Inr (rest, add_server env a w, h)"
    "pipe_event_CallBack env (command_bytes 3 a @ rest) (w, h) = bindE (remove_server a w) (\<lambda>w. Inr (rest, w, h))"
proof -
  have d: "dec_int (enc_int 2 @ t) = 2" "dec_int (enc_int 3 @ t) = 3" "enc_int n \<noteq> []" for t n
    by (simp_all add: enc_int_def[of n])
  show "pipe_event_CallBack env (command_bytes 2 a @ rest) (w, h) = Inr (rest, add_server env a w, h)"
    "pipe_event_CallBack env (command_bytes 3 a @ rest) (w, h) = bindE (remove_server a w) (\<lambda>w. Inr (rest, w, h))"
    using recv_command_address[OF assms, of rest]
    by (simp_all add: pipe_event_CallBack_def command_bytes_def d)
qed

lemma pipe_simple_commands:
  "pipe_event_CallBack env (enc_int 1 @ rest) wh = bindE (accept_client env wh) (\<lambda>wh. Inr (rest, wh))"
  "pipe_event_CallBack env (enc_int 4 @ rest) wh = bindE (shut_down (fst wh)) (\<lambda>w. Inr (rest, w, snd wh))"
proof -
  have d: "dec_int (enc_int 1 @ t) = 1" "dec_int (enc_int 4 @ t) = 4" "enc_int n \<noteq> []" for t n
    by (simp_all add: enc_int_def[of n])
  show "pipe_event_CallBack env (enc_int 1 @ rest) wh = bindE (accept_client env wh) (\<lambda>wh. Inr (rest, wh))"
    "pipe_event_CallBack env (enc_int 4 @ rest) wh = bindE (shut_down (fst wh)) (\<lambda>w. Inr (rest, w, snd wh))"
    by (cases wh; simp add: pipe_event_CallBack_def d)+
qed

section \<open>Types on the wire\<close>

lemma uint_of_bytes_range: "0 \<le> uint_of_bytes bs \<and> uint_of_bytes bs < 256 ^ length bs"
proof (induction bs)
  case (Cons b bs)
  have "0 \<le> (of_char b :: int)" "(of_char b :: int) < 256"
    using of_char_mod_256[of b, where ?'a = int] pos_mod_bound[of 256 "of_char b :: int"] pos_mod_sign[of 256 "of_char b :: int"] by simp_all
  then show ?case using Cons by simp
qed simp

lemma dec_int_range: "- 2147483648 \<le> dec_int bs \<and> dec_int bs < 2147483648"
proof -
  have "uint_of_bytes (take 4 bs) < 256 ^ length (take 4 bs)" using uint_of_bytes_range by blast
  also have "\<dots> \<le> (256 :: int) ^ 4" by (rule power_increasing) simp_all
  finally show ?thesis using uint_of_bytes_range[of "take 4 bs"] by (auto simp: dec_int_def Let_def)
qed


section \<open>Registration\<close>

lemma reply_texts: "NUL \<notin> set login_done" "length login_done = 15" "NUL \<notin> set logout_done" "length logout_done = 15"
  by (simp_all add: login_done_def logout_done_def char_of_def bit_iff_odd)

lemma send_reply_effect:
  assumes "bev \<in> main_bevs m" "length junk = 1024" "length text < 1024"
  shows "\<exists>msg. strcpy_at junk 0 text = Inr msg \<and>
    send_reply bev junk text m = Inr (m\<lparr>main_calls := main_calls m @ [BevWrite bev (enc_int 1024), BevWrite bev msg]\<rparr>)"
  using assms by (auto simp: send_reply_def strcpy_at_def main_write_def)

lemma registration_read:
  assumes "address_wf a"
  shows "\<not> length (address_frame a) < 4" "dec_int (address_frame a) = 36"
    "take 36 (drop 4 (address_frame a)) = enc_address a" "fill_address (new_address 0) (enc_address a) = Inr a"
    "length (address_frame a) \<le> length (enc_address a) + 4"
proof -
  have l: "length (enc_address a) = 36" using length_enc_address[OF assms] by (simp add: SIZEOF_ADDRESS_def)
  show "\<not> length (address_frame a) < 4" "dec_int (address_frame a) = 36"
    "take 36 (drop 4 (address_frame a)) = enc_address a" "fill_address (new_address 0) (enc_address a) = Inr a"
    "length (address_frame a) \<le> length (enc_address a) + 4"
    using l fill_enc_address[OF assms] by (simp_all add: address_frame_def SIZEOF_ADDRESS_def)
qed

lemma forward_command:
  assumes "address_wf a"
  shows "forward_address c 36 a m = Inr (m\<lparr>mon := (mon m)\<lparr>pipes := map (\<lambda>p. p @ command_bytes c a) (pipes (mon m))\<rparr>\<rparr>)"
  using length_enc_address[OF assms]
  by (simp add: forward_address_def SIZEOF_ADDRESS_def send_all_def command_bytes_def)

text \<open>C17: Registration end to end. What the registration tool writes for an unknown server is a
  request that the main process accepts: the server becomes Up in the list, the tool reads the text
  of success, and every worker finds one command on its pipe, which it reads back as the same
  address and port, so that it connects there and enters \<open>ip:port\<close> in its table.\<close>

theorem login_end_to_end:
  assumes ok: "registry_ok cd (mon m)" and new: "registry cd (mon m) (ip, port) = None" and b: "bev \<in> main_bevs m"
    and ip: "length ip < 20" "NUL \<notin> set ip" "- 2147483648 \<le> port" "port < 2147483648" and junk: "length junk = 1024"
  shows "\<exists>bs m' msg cmd. login_request ip port = Inr bs \<and> server_socket_read_cb cd junk bev bs m = Inr ([], m') \<and>
     registry cd (mon m') = (registry cd (mon m))((ip, port) \<mapsto> Up) \<and> registry_ok cd (mon m') \<and>
     main_calls m' = main_calls m @ [BevWrite bev (enc_int 1024), BevWrite bev msg] \<and>
     load_socket_read_cb (enc_int 1024 @ msg) = Inr (login_done, []) \<and>
     pipes (mon m') = map (\<lambda>p. p @ cmd) (pipes (mon m)) \<and>
     (\<forall>env w h rest. e_connect env ip port \<noteq> None \<longrightarrow>
        (\<exists>w'. pipe_event_CallBack env (cmd @ rest) (w, h) = Inr (rest, w', h) \<and>
           calls w' = calls w @ [Connect ip port] \<and>
           m_server_info w' = m_server_info w @ [(e_bev env, ip_port ip port)]))"
proof -
  obtain a where a: "login_request ip port = Inr (address_frame a)" "address_wf a" "addr_port a = port"
    "c_ip a = ip" "c_token a = ''login''"
    using login_request_bytes[OF ip] by (auto simp: c_ip_def c_token_def)
  note r = registration_read[OF a(2)]
  obtain s' where s': "LoginServer cd ip port (mon m) = (0, s')" "registry_ok cd s'"
    "registry cd s' = (registry cd (mon m))((ip, port) \<mapsto> Up)" "pipes s' = pipes (mon m)"
    using LoginServer_ok[OF ok, of ip port] new by auto
  define m1 where "m1 = m\<lparr>mon := s'\<rparr>"
  obtain msg where msg: "strcpy_at junk 0 login_done = Inr msg"
    "send_reply bev junk login_done m1 = Inr (m1\<lparr>main_calls := main_calls m1 @ [BevWrite bev (enc_int 1024), BevWrite bev msg]\<rparr>)"
    using send_reply_effect[of bev m1 junk login_done] b junk reply_texts(2) by (auto simp: m1_def)
  define m2 where "m2 = m1\<lparr>main_calls := main_calls m1 @ [BevWrite bev (enc_int 1024), BevWrite bev msg]\<rparr>"
  define m3 where "m3 = m2\<lparr>mon := (mon m2)\<lparr>pipes := map (\<lambda>p. p @ command_bytes 2 a) (pipes (mon m2))\<rparr>\<rparr>"
  have read: "server_socket_read_cb cd junk bev (address_frame a) m = Inr ([], m3)"
    by (simp add: server_socket_read_cb_def Let_def r a(3-5) s'(1) m1_def[symmetric] msg(2) m2_def[symmetric]
        forward_command[OF a(2)] m3_def)
  have reg: "registry cd (mon m3) = (registry cd (mon m))((ip, port) \<mapsto> Up)" "registry_ok cd (mon m3)"
    using s'(2,3) by (simp_all add: m3_def m2_def m1_def registry_def registry_ok_def)
  have load: "load_socket_read_cb (enc_int 1024 @ msg) = Inr (login_done, [])"
    using load_answer(2)[OF reply_texts(1) _ junk msg(1)] reply_texts(2) by simp
  have w: "\<exists>w'. pipe_event_CallBack env (command_bytes 2 a @ rest) (w, h) = Inr (rest, w', h) \<and>
           calls w' = calls w @ [Connect ip port] \<and> m_server_info w' = m_server_info w @ [(e_bev env, ip_port ip port)]"
    if "e_connect env ip port \<noteq> None" for env w h rest
    using that by (auto simp: pipe_commands(1)[OF a(2)] add_server_def a(3,4) Let_def emit_def open_bev_def)
  show ?thesis
    using a(1) read reg load w
    by (intro exI[of _ "address_frame a"] exI[of _ m3] exI[of _ msg] exI[of _ "command_bytes 2 a"])
      (simp add: m3_def m2_def m1_def s'(4))
qed

section \<open>A concrete main process\<close>

definition demo_main :: "(server list \<times> server list) option main_process" where
  "demo_main = \<lparr>mon = demo_registry, shm = init_shm, accept_count = 0, reg_conns = [(20, 5)], main_calls = [], main_bevs = {5}\<rparr>"

theorem login_end_to_end_witness:
  "\<exists>bs m'. login_request ''10.0.0.9'' 9000 = Inr bs \<and>
     server_socket_read_cb plain_codec (replicate 1024 CHR ''x'') 5 bs demo_main = Inr ([], m') \<and>
     registry plain_codec (mon m') (''10.0.0.9'', 9000) = Some Up"
proof -
  have "registry plain_codec (mon demo_main) (''10.0.0.9'', 9000) = None"
    by (simp add: demo_main_def registry_def demo_registry_lists status_of_def)
  from login_end_to_end[OF _ this, of 5 "replicate 1024 CHR ''x''"] show ?thesis
    using demo_registry_ok by (force simp: demo_main_def)
qed

text \<open>C18: Cancellation end to end: a known server disappears from the list whether it is up or down,
  and every worker gets the command 3 with its address, on which it looks up \<open>ip:port\<close> in its table.\<close>

theorem logout_end_to_end:
  assumes ok: "registry_ok cd (mon m)" and old: "registry cd (mon m) (ip, port) \<noteq> None" and b: "bev \<in> main_bevs m"
    and ip: "length ip < 20" "NUL \<notin> set ip" "- 2147483648 \<le> port" "port < 2147483648" and junk: "length junk = 1024"
  shows "\<exists>bs m' msg a. logout_request ip port = Inr bs \<and> server_socket_read_cb cd junk bev bs m = Inr ([], m') \<and>
     registry cd (mon m') = (registry cd (mon m))((ip, port) := None) \<and> registry_ok cd (mon m') \<and>
     main_calls m' = main_calls m @ [BevWrite bev (enc_int 1024), BevWrite bev msg] \<and>
     load_socket_read_cb (enc_int 1024 @ msg) = Inr (logout_done, []) \<and>
     pipes (mon m') = map (\<lambda>p. p @ command_bytes 3 a) (pipes (mon m)) \<and> ip_port (c_ip a) (addr_port a) = ip_port ip port \<and>
     (\<forall>env w h rest. pipe_event_CallBack env (command_bytes 3 a @ rest) (w, h) =
        bindE (remove_server a w) (\<lambda>w. Inr (rest, w, h)))"
proof -
  obtain a where a: "logout_request ip port = Inr (address_frame a)" "address_wf a" "addr_port a = port"
    "c_ip a = ip" "c_token a = ''logout''"
    using logout_request_bytes[OF ip] by (auto simp: c_ip_def c_token_def)
  note r = registration_read[OF a(2)]
  obtain s' where s': "LogoutServer cd ip port (mon m) = (0, s')" "registry_ok cd s'"
    "registry cd s' = (registry cd (mon m))((ip, port) := None)" "pipes s' = pipes (mon m)"
    using LogoutServer_ok[OF ok, of ip port] old by auto
  define m1 where "m1 = m\<lparr>mon := s'\<rparr>"
  obtain msg where msg: "strcpy_at junk 0 logout_done = Inr msg"
    "send_reply bev junk logout_done m1 = Inr (m1\<lparr>main_calls := main_calls m1 @ [BevWrite bev (enc_int 1024), BevWrite bev msg]\<rparr>)"
    using send_reply_effect[of bev m1 junk logout_done] b junk reply_texts(4) by (auto simp: m1_def)
  define m2 where "m2 = m1\<lparr>main_calls := main_calls m1 @ [BevWrite bev (enc_int 1024), BevWrite bev msg]\<rparr>"
  define m3 where "m3 = m2\<lparr>mon := (mon m2)\<lparr>pipes := map (\<lambda>p. p @ command_bytes 3 a) (pipes (mon m2))\<rparr>\<rparr>"
  have read: "server_socket_read_cb cd junk bev (address_frame a) m = Inr ([], m3)"
    by (simp add: server_socket_read_cb_def Let_def r a(3-5) s'(1) m1_def[symmetric] msg(2) m2_def[symmetric]
        forward_command[OF a(2)] m3_def)
  have reg: "registry cd (mon m3) = (registry cd (mon m))((ip, port) := None)" "registry_ok cd (mon m3)"
    using s'(2,3) by (simp_all add: m3_def m2_def m1_def registry_def registry_ok_def)
  have load: "load_socket_read_cb (enc_int 1024 @ msg) = Inr (logout_done, [])"
    using load_answer(2)[OF reply_texts(3) _ junk msg(1)] reply_texts(4) by simp
  show ?thesis
    using a(1) read reg load pipe_commands(2)[OF a(2)]
    by (intro exI[of _ "address_frame a"] exI[of _ m3] exI[of _ msg] exI[of _ a])
      (simp add: m3_def m2_def m1_def s'(4) a(3,4))
qed

theorem logout_end_to_end_witness:
  "\<exists>bs m'. logout_request ''10.0.0.3'' 8003 = Inr bs \<and>
     server_socket_read_cb plain_codec (replicate 1024 CHR ''x'') 5 bs demo_main = Inr ([], m') \<and>
     registry plain_codec (mon m') (''10.0.0.3'', 8003) = None"
proof -
  have "registry plain_codec (mon demo_main) (''10.0.0.3'', 8003) \<noteq> None"
    by (simp add: demo_main_def registry_def demo_registry_lists status_of_def)
  from logout_end_to_end[OF _ this, of 5 "replicate 1024 CHR ''x''"] show ?thesis
    using demo_registry_ok by (force simp: demo_main_def)
qed

end
