(* ===== verification/Turns.thy ===== *)
theory Turns
  imports Prelude
begin

text \<open>
  Work that is dealt out in turn. The main process of the gateway hands clients to its workers and
  the main thread of the ticket server hands connections to its threads with the same counter modulo
  the number of receivers; \<open>round_robin\<close> is what both rely on.
\<close>

text \<open>What receiver \<open>i\<close> of \<open>n\<close> gets of a sequence that starts at turn \<open>t\<close>.\<close>

fun dealt :: "nat \<Rightarrow> nat \<Rightarrow> nat \<Rightarrow> 'a list \<Rightarrow> 'a list" where
  "dealt n i t [] = []"
| "dealt n i t (x # xs) = (if t mod n = i then x # dealt n i (Suc t) xs else dealt n i (Suc t) xs)"

lemma dealt_mod: "t mod n = u mod n \<Longrightarrow> dealt n i t xs = dealt n i u xs"
proof (induction xs arbitrary: t u)
  case (Cons x xs)
  have "Suc t mod n = Suc u mod n" using Cons.prems by (metis mod_Suc_eq)
  from Cons.IH[OF this] show ?case using Cons.prems by simp
qed simp

lemma dealt_append: "dealt n i t (xs @ ys) = dealt n i t xs @ dealt n i (t + length xs) ys"
  by (induction xs arbitrary: t) simp_all

lemma set_dealt: "set (dealt n i t xs) \<subseteq> set xs"
  by (induction xs arbitrary: t) auto

lemma length_dealt_le: "length (dealt n i t xs) \<le> length xs"
  by (induction xs arbitrary: t) (auto intro: le_SucI)

lemma dealt_const: "dealt n i t (replicate k x) = replicate (length (dealt n i t (replicate k x))) x"
  by (induction k arbitrary: t) auto

lemma dealt_count: "length (dealt n i t xs) = card {j. j < length xs \<and> (t + j) mod n = i}"
proof (induction xs arbitrary: t)
  case (Cons x xs)
  have s: "{j. j < Suc (length xs) \<and> (t + j) mod n = i} =
      (if t mod n = i then {0} else {}) \<union> Suc ` {j. j < length xs \<and> (Suc t + j) mod n = i}"
    by (auto simp: image_iff less_Suc_eq_0_disj)
  show ?case by (simp add: s Cons card_insert_if card_image)
qed simp

lemma same_turn:
  fixes n :: nat
  assumes "(t + j) mod n = (t + k) mod n" "j < n" "k < n"
  shows "j = k"
proof -
  have "a = b" if "a \<le> b" "b < n" "(t + a) mod n = (t + b) mod n" for a b
  proof -
    have "n dvd b - a" using mod_eq_dvd_iff_nat[of "t + a" "t + b" n] that by simp
    then show "a = b" using that(1,2) by (auto dest!: dvd_imp_le)
  qed
  then show ?thesis using assms by (metis nle_le)
qed

lemma one_turn:
  fixes n :: nat
  assumes "i < n"
  shows "card {j. j < n \<and> (t + j) mod n = i} = 1"
proof -
  define j where "j = (i + n - t mod n) mod n"
  have n: "0 < n" using assms by simp
  have "(t + j) mod n = (t mod n + (i + n - t mod n)) mod n" by (simp add: j_def mod_add_right_eq mod_add_left_eq)
  also have "t mod n + (i + n - t mod n) = i + n" using mod_less_divisor[OF n, of t] by simp
  also have "(i + n) mod n = i" using assms by simp
  finally have j: "(t + j) mod n = i" "j < n" using n by (simp_all add: j_def)
  have k: "k = j" if "k < n" "(t + k) mod n = i" for k
    by (rule same_turn[of t k n j]) (use that j in simp_all)
  then have "{j. j < n \<and> (t + j) mod n = i} = {j}" using j k by blast
  then show ?thesis by simp
qed

text \<open>After whole rounds everyone has got the same number.\<close>

lemma dealt_rounds: "i < n \<Longrightarrow> length (dealt n i t (replicate (k * n) x)) = k"
proof (induction k arbitrary: t)
  case (Suc k)
  have "replicate (Suc k * n) x = replicate n x @ replicate (k * n) x" by (simp add: replicate_add)
  then show ?case using Suc one_turn[OF Suc.prems, of t] by (simp add: dealt_append dealt_count[of n i t])
qed simp

text \<open>
  \<open>deal x\<close> puts the image of \<open>x\<close> behind what the receiver whose turn it is has in its inbox;
  \<open>ready k\<close> says that \<open>k\<close> more can be dealt.
\<close>

locale round_robin =
  fixes n :: nat
    and deal :: "'a \<Rightarrow> 's \<Rightarrow> 's res"
    and turn :: "'s \<Rightarrow> nat"
    and inbox :: "'s \<Rightarrow> string list"
    and image :: "'a \<Rightarrow> string"
    and accepts :: "'a \<Rightarrow> bool"
    and ready :: "nat \<Rightarrow> 's \<Rightarrow> bool"
  assumes receivers: "ready k s \<Longrightarrow> 0 < n \<and> length (inbox s) = n"
    and deal_ok: "ready (Suc k) s \<Longrightarrow> accepts x \<Longrightarrow>
      \<exists>s'. deal x s = Inr s' \<and> ready k s' \<and> turn s' mod n = Suc (turn s) mod n \<and>
        inbox s' = (inbox s)[turn s mod n := inbox s ! (turn s mod n) @ image x]"
begin

lemma deal_all:
  assumes "ready (length xs + k) s" "\<forall>x\<in>set xs. accepts x"
  shows "\<exists>s'. foldE deal xs s = Inr s' \<and> ready k s' \<and> turn s' mod n = (turn s + length xs) mod n \<and>
     (\<forall>i<n. inbox s' ! i = inbox s ! i @ concat (map image (dealt n i (turn s) xs)))"
  using assms
proof (induction xs arbitrary: s)
  case (Cons x xs)
  have "ready (Suc (length xs + k)) s" "accepts x" using Cons.prems by simp_all
  from deal_ok[OF this] obtain s1 where s1: "deal x s = Inr s1" "ready (length xs + k) s1"
    "turn s1 mod n = Suc (turn s) mod n" "inbox s1 = (inbox s)[turn s mod n := inbox s ! (turn s mod n) @ image x]" by blast
  from Cons.IH[OF s1(2)] Cons.prems(2) obtain s' where s': "foldE deal xs s1 = Inr s'" "ready k s'"
    "turn s' mod n = (turn s1 + length xs) mod n"
    "\<forall>i<n. inbox s' ! i = inbox s1 ! i @ concat (map image (dealt n i (turn s1) xs))" by auto
  have t: "(turn s1 + length xs) mod n = (turn s + length (x # xs)) mod n"
    using s1(3) mod_add_left_eq[of "turn s1" n "length xs"] mod_add_left_eq[of "Suc (turn s)" n "length xs"] by simp
  have "inbox s' ! i = inbox s ! i @ concat (map image (dealt n i (turn s) (x # xs)))" if "i < n" for i
    using s'(4) that receivers[OF Cons.prems(1)] dealt_mod[OF s1(3), of i xs]
    by (auto simp: s1(4) nth_list_update)
  then show ?case using s1(1) s'(1-3) t by simp
qed simp

lemma deal_rounds:
  assumes "ready (k * n) s" "accepts x"
  shows "\<exists>s'. foldE deal (replicate (k * n) x) s = Inr s' \<and> inbox s' = map (\<lambda>b. b @ concat (replicate k (image x))) (inbox s)"
proof -
  from deal_all[of "replicate (k * n) x" 0 s] assms obtain s' where s': "foldE deal (replicate (k * n) x) s = Inr s'" "ready 0 s'"
    "\<forall>i<n. inbox s' ! i = inbox s ! i @ concat (map image (dealt n i (turn s) (replicate (k * n) x)))" by auto
  have "map image (dealt n i (turn s) (replicate (k * n) x)) = replicate k (image x)" if "i < n" for i
    using dealt_const[of n i "turn s" "k * n" x] dealt_rounds[OF that, of "turn s" k x] by simp
  then have "inbox s' = map (\<lambda>b. b @ concat (replicate k (image x))) (inbox s)"
    using s'(3) receivers[OF s'(2)] receivers[OF assms(1)] by (intro nth_equalityI) auto
  then show ?thesis using s'(1) by blast
qed

end

end
