(* ===== verification/Gateway_Theorems.thy ===== *)
theory Gateway_Theorems
  imports Gateway Turns
begin

text \<open>
  The hand-over of clients, the safety and the shutdown of the processes, and the reconnection that
  blocks a worker.
\<close>

section \<open>Hand-over of clients\<close>

text \<open>
  One hand-over: the listener's callback writes the command 1 to a pipe, and the worker that reads
  it sets the flag whether or not it could accept.
\<close>

lemma accept_sets_flag: "accept_client env (w, h) = Inr (w', h') \<Longrightarrow> accept_flag h'"
  by (auto simp: accept_client_def Let_def res_simps split: option.splits if_splits)

definition hand_over :: "'f main_process \<Rightarrow> 'f main_process res" where
  "hand_over m = bindE (ListenerClientCallBack True m) (\<lambda>m. Inr (m\<lparr>shm := (shm m)\<lparr>accept_flag := True\<rparr>\<rparr>))"

definition handed :: "nat \<Rightarrow> 'f main_process \<Rightarrow> 'f main_process res" where
  "handed j m = foldE (\<lambda>_. hand_over) (replicate j ()) m"

lemma hand_over_step:
  assumes "accept_flag (shm m)" "length (pipes (mon m)) = n" "0 < n" "0 \<le> accept_count m"
  shows "let k = nat (accept_count m) mod n; p = pipes (mon m) in
    hand_over m = Inr (m\<lparr>mon := (mon m)\<lparr>pipes := p[k := p ! k @ enc_int 1]\<rparr>, accept_count := int k + 1,
      shm := (shm m)\<lparr>accept_flag := True\<rparr>\<rparr>)"
proof -
  have "accept_count m mod int n = int (nat (accept_count m) mod n)" using assms(4) by (simp add: zmod_int)
  then show ?thesis using assms by (auto simp: hand_over_def ListenerClientCallBack_def Let_def)
qed

interpretation clients: round_robin n "\<lambda>_. hand_over" "\<lambda>m. nat (accept_count m)" "\<lambda>m. pipes (mon m)" "\<lambda>_::unit. enc_int 1"
  "\<lambda>_. True" "\<lambda>_ m. accept_flag (shm m) \<and> length (pipes (mon m)) = n \<and> 0 < n \<and> 0 \<le> accept_count m" for n
proof (unfold_locales, goal_cases)
  case (2 k m x)
  then show ?case using hand_over_step[of m n] by (simp add: Let_def mod_Suc_eq nat_add_distrib)
qed simp

text \<open>C23: Clients are handed to the workers in turn: after \<open>k\<close> rounds, of as many hand-overs as there are
  workers, every worker has found the command 1 exactly \<open>k\<close> times more on its pipe. While a
  hand-over is pending (the flag is down, or another process holds the lock) the listener tells
  nobody, and the worker raises the flag when it has accepted, refused or missed the client.\<close>

theorem clients_in_turn:
  assumes "accept_flag (shm m)" "pipes (mon m) \<noteq> []" "0 \<le> accept_count m"
  shows "(\<exists>m'. handed (k * length (pipes (mon m))) m = Inr m' \<and>
      pipes (mon m') = map (\<lambda>p. p @ concat (replicate k (enc_int 1))) (pipes (mon m))) \<and>
    ListenerClientCallBack False m = Inr m \<and>
    ListenerClientCallBack True (m\<lparr>shm := (shm m)\<lparr>accept_flag := False\<rparr>\<rparr>) = Inr (m\<lparr>shm := (shm m)\<lparr>accept_flag := False\<rparr>\<rparr>) \<and>
    (\<forall>env w w' h h' rest. pipe_event_CallBack env (enc_int 1 @ rest) (w, h) = Inr (rest, w', h') \<longrightarrow> accept_flag h')"
proof -
  obtain m' where m': "handed (k * length (pipes (mon m))) m = Inr m'"
      "pipes (mon m') = map (\<lambda>p. p @ concat (replicate k (enc_int 1))) (pipes (mon m))"
    using clients.deal_rounds[of m "length (pipes (mon m))" k "()"] assms by (auto simp: handed_def)
  then show ?thesis
    using m' by (auto simp: ListenerClientCallBack_def pipe_simple_commands res_simps dest: accept_sets_flag)
qed

theorem clients_in_turn_witness:
  "\<exists>m'. handed (3 * 2) demo_main = Inr m' \<and>
     pipes (mon m') = [concat (replicate 3 (enc_int 1)), concat (replicate 3 (enc_int 1))]"
  using clients_in_turn[of demo_main 3] by (simp add: demo_main_def demo_registry_def init_shm_def)

section \<open>Safety and shutdown\<close>

text \<open>The registration connections: every handle listed once, and exactly the open ones.\<close>

definition main_ok :: "'f main_process \<Rightarrow> bool" where
  "main_ok m \<longleftrightarrow> distinct (map fst (reg_conns m)) \<and> distinct (map snd (reg_conns m)) \<and>
     set (map snd (reg_conns m)) = main_bevs m"

inductive main_step :: "'f codec \<Rightarrow> 'f main_process \<Rightarrow> 'f main_process res \<Rightarrow> bool" for cd where
  listen_server: "sockfd \<notin> fst ` set (reg_conns m) \<Longrightarrow> bev \<notin> main_bevs m \<Longrightarrow>
    main_step cd m (Inr (ListenerServerCallBack sockfd bev m))"
| listen_client: "main_step cd m (ListenerClientCallBack locked m)"
| registration: "(fd, bev) \<in> set (reg_conns m) \<Longrightarrow> main_step cd m (bindE (server_socket_read_cb cd junk bev inp m) (\<lambda>x. Inr (snd x)))"
| closed: "(fd, bev) \<in> set (reg_conns m) \<Longrightarrow> main_step cd m (server_event_cb fd bev m)"

inductive main_reach :: "'f codec \<Rightarrow> 'f main_process \<Rightarrow> bool" for cd where
  start: "reg_conns m = [] \<Longrightarrow> main_bevs m = {} \<Longrightarrow> main_reach cd m"
| step: "main_reach cd m \<Longrightarrow> main_step cd m (Inr m') \<Longrightarrow> main_reach cd m'"

text \<open>No freed connection is used, and \<open>P\<close> holds of a normal result.\<close>

definition safe :: "('a \<Rightarrow> bool) \<Rightarrow> 'a res \<Rightarrow> bool" where
  "safe P r \<longleftrightarrow> (case r of Inl e \<Rightarrow> e \<noteq> Dangling | Inr x \<Rightarrow> P x)"

lemma safe_simps [simp]: "safe P (Inr x) = P x" "safe P (Inl e) = (e \<noteq> Dangling)"
  by (simp_all add: safe_def)

lemma safe_bind: "safe P r \<Longrightarrow> (\<And>x. P x \<Longrightarrow> safe Q (f x)) \<Longrightarrow> safe Q (bindE r f)"
  by (cases r) auto

lemma safe_if: "(c \<Longrightarrow> safe P x) \<Longrightarrow> (\<not> c \<Longrightarrow> safe P y) \<Longrightarrow> safe P (if c then x else y)"
  by simp

lemma safe_prod: "(\<And>a b. p = (a, b) \<Longrightarrow> safe P (f a b)) \<Longrightarrow> safe P (case p of (a, b) \<Rightarrow> f a b)"
  by (cases p) simp

definition same_conns :: "'f main_process \<Rightarrow> 'f main_process \<Rightarrow> bool" where
  "same_conns m m' \<longleftrightarrow> reg_conns m' = reg_conns m \<and> main_bevs m' = main_bevs m"

lemma send_reply_safe: "b \<in> main_bevs m \<Longrightarrow> safe (same_conns m) (send_reply b j t m)"
  by (auto simp: send_reply_def strcpy_at_def main_write_def same_conns_def)

lemma forward_safe: "safe (same_conns m) (forward_address c n a m)"
  by (simp add: forward_address_def same_conns_def send_all_def)

lemma answer_safe:
  assumes "b \<in> main_bevs m"
  shows "safe (\<lambda>x. same_conns m (snd x)) (bindE (send_reply b j t m) (\<lambda>m. bindE (forward_address c n a m) (\<lambda>m. Inr (l, m))))"
    "safe (\<lambda>x. same_conns m (snd x)) (bindE (send_reply b j t m) (\<lambda>m. Inr (l, m)))"
  by (rule safe_bind[OF send_reply_safe[OF assms]], rule safe_bind[OF forward_safe], simp add: same_conns_def)
    (rule safe_bind[OF send_reply_safe[OF assms]], simp)

lemma answer_safe':
  assumes "b \<in> main_bevs m"
  shows "safe (\<lambda>x. same_conns m (snd x))
      (bindE (send_reply b j t (m\<lparr>mon := s\<rparr>)) (\<lambda>m. bindE (forward_address c n a m) (\<lambda>m. Inr (l, m))))"
    "safe (\<lambda>x. same_conns m (snd x)) (bindE (send_reply b j t (m\<lparr>mon := s\<rparr>)) (\<lambda>m. Inr (l, m)))"
  using answer_safe[of b "m\<lparr>mon := s\<rparr>"] assms by (simp_all add: same_conns_def)

lemma registration_safe:
  assumes "bev \<in> main_bevs m"
  shows "safe (\<lambda>x. same_conns m (snd x)) (server_socket_read_cb cd junk bev inp m)"
proof -
  have f: "safe (\<lambda>_. True) (fill_address x bs)" for x bs by (simp add: fill_address_def)
  show ?thesis
    unfolding server_socket_read_cb_def Let_def
    by (intro safe_if safe_prod answer_safe'[OF assms] safe_bind[OF f]) (simp_all add: same_conns_def)
qed

lemma server_event_effect:
  assumes "main_ok m" "(fd, bev) \<in> set (reg_conns m)"
  shows "\<exists>m'. server_event_cb fd bev m = Inr m' \<and> main_ok m' \<and> set (reg_conns m') = set (reg_conns m) - {(fd, bev)}"
proof -
  note d = assms(1)[unfolded main_ok_def]
  from assms(2) obtain i where i: "i < length (reg_conns m)" "reg_conns m ! i = (fd, bev)" by (auto simp: in_set_conv_nth)
  have fi: "find_index (\<lambda>x. fst x = fd) (reg_conns m) = i" by (rule find_index_distinct) (use d i in auto)
  define l where "l = butlast ((reg_conns m)[i := last (reg_conns m)])"
  have s: "swap_pop (reg_conns m) i = Inr l" using i(1) by (simp add: swap_pop_def l_def)
  have b: "bev \<in> main_bevs m" using assms(2) d by force
  have "distinct (reg_conns m)" using d by (simp add: distinct_map)
  then have l1: "set l = set (reg_conns m) - {(fd, bev)}" using distinct_swap_pop[OF s] i(2) by simp
  have l2: "distinct (map fst l)" "distinct (map snd l) \<and> set (map snd l) = main_bevs m - {bev}"
    using set_swap_pop_distinct[of "map fst (reg_conns m)" i] set_swap_pop_distinct[of "map snd (reg_conns m)" i] d i
    by (simp_all add: l_def map_swap_pop_list)
  show ?thesis
    using s b l1 l2 by (simp add: server_event_cb_def fi main_free_def main_ok_def)
qed

lemma main_step_ok:
  assumes "main_ok m" "main_step cd m r"
  shows "r \<noteq> Inl Dangling \<and> (\<forall>m'. r = Inr m' \<longrightarrow> main_ok m')"
  using assms(2)
proof cases
  case (listen_server sockfd bev)
  then show ?thesis using assms(1) by (auto simp: main_ok_def ListenerServerCallBack_def)
next
  case (listen_client locked)
  then show ?thesis using assms(1) by (auto simp: main_ok_def ListenerClientCallBack_def Let_def split: if_splits)
next
  case (registration fd bev junk inp)
  have "bev \<in> main_bevs m" using registration(2) assms(1) by (force simp: main_ok_def)
  then have "safe (same_conns m) r"
    unfolding registration(1) by (rule safe_bind[OF registration_safe]) simp
  then show ?thesis using assms(1) by (auto simp: safe_def same_conns_def main_ok_def split: sum.splits)
next
  case (closed fd bev)
  from server_event_effect[OF assms(1) closed(2)] obtain m' where "server_event_cb fd bev m = Inr m'" "main_ok m'" by blast
  then show ?thesis by (simp add: closed(1))
qed

lemma main_reach_ok: "main_reach cd m \<Longrightarrow> main_ok m"
proof (induction rule: main_reach.induct)
  case (start m)
  then show ?case by (simp add: main_ok_def)
next
  case (step m m')
  then show ?case using main_step_ok[OF step.IH step.hyps(2)] by simp
qed

lemma main_free_all:
  "distinct (map snd xs) \<Longrightarrow> set (map snd xs) \<subseteq> main_bevs m \<Longrightarrow>
    \<exists>m'. foldE (\<lambda>x. main_free (snd x)) xs m = Inr m' \<and> main_bevs m' = main_bevs m - set (map snd xs) \<and> mon m' = mon m"
proof (induction xs arbitrary: m)
  case (Cons x xs)
  define u where "u = m\<lparr>main_calls := main_calls m @ [BevFree (snd x)], main_bevs := main_bevs m - {snd x}\<rparr>"
  have "main_free (snd x) m = Inr u" using Cons.prems(2) by (simp add: main_free_def u_def)
  moreover have "distinct (map snd xs)" "set (map snd xs) \<subseteq> main_bevs u"
    using Cons.prems by (simp_all add: u_def subset_Diff_insert)
  moreover from Cons.IH[OF this] obtain m' where "foldE (\<lambda>x. main_free (snd x)) xs u = Inr m'"
    "main_bevs m' = main_bevs u - set (map snd xs)" "mon m' = mon u" by blast
  ultimately show ?case by (intro exI[of _ m']) (auto simp: u_def)
qed simp


lemma demo_main_reach: "main_reach plain_codec demo_main"
proof -
  define m0 where "m0 = demo_main\<lparr>reg_conns := [], main_bevs := {}\<rparr>"
  have "main_reach plain_codec m0" by (rule main_reach.start) (simp_all add: m0_def)
  moreover have "main_step plain_codec m0 (Inr (ListenerServerCallBack 20 5 m0))"
    by (rule main_step.listen_server) (simp_all add: m0_def)
  moreover have "ListenerServerCallBack 20 5 m0 = demo_main"
    by (simp add: ListenerServerCallBack_def m0_def demo_main_def)
  ultimately show ?thesis using main_reach.step by metis
qed




section \<open>The reconnection of a server\<close>

text \<open>The reconnection of a server blocks the worker that asked for it. When the passive check finds
  a reported server alive, it writes the command 2 without an address to the pipe of this worker,
  which then waits in \<open>recv\<close> inside its callback; the next command of the main process, a
  waiting client or the shutdown, is taken for the length of the address and is lost.\<close>

lemma reconnect_blocks_worker:
  assumes "msg_type msg = 1" "reach (msg_ip msg, msg_port msg)" "length (msg_ip msg) < 20"
    and "process_id msg = int i" "i < length (pipes s)" "pipes s ! i = []"
  shows "\<exists>s'. passive_message cd reach msg (s, h) = Inr (s', h) \<and> registry cd s' = registry cd s \<and>
     pipes s' ! i = enc_int 2 \<and> pipe_event_CallBack env (pipes s' ! i) (w, h) = Inl Blocked \<and>
     (\<forall>c. 0 < c \<longrightarrow> c < 2147483648 \<longrightarrow> pipe_event_CallBack env (pipes s' ! i @ enc_int c) (w, h) = Inl Blocked)"
proof -
  obtain a where a: "server_address (msg_ip msg) (msg_port msg) = Inr a"
    using notify_workers_ok[OF assms(3)] by blast
  define s' where "s' = s\<lparr>pipes := (pipes s)[i := enc_int 2]\<rparr>"
  have p: "passive_message cd reach msg (s, h) = Inr (s', h)"
    using assms(1,2,4-6) by (simp add: passive_message_def a s'_def)
  have d: "dec_int (enc_int 2 @ t) = 2" "enc_int n \<noteq> []" for t n
    by (simp_all add: enc_int_def[of n])
  have e: "dec_int (enc_int 2) = 2" using d(1)[of "[]"] by simp
  have "pipe_event_CallBack env (enc_int 2) (w, h) = Inl Blocked"
    by (simp add: pipe_event_CallBack_def d e recv_address_def)
  moreover have "pipe_event_CallBack env (enc_int 2 @ enc_int c) (w, h) = Inl Blocked" if c: "0 < c" "c < 2147483648" for c
  proof -
    have "dec_int (enc_int c) = c" using dec_enc_int[of c "[]"] c by simp
    then show ?thesis using c by (simp add: pipe_event_CallBack_def d recv_address_def Let_def)
  qed
  ultimately show ?thesis
    using p assms(5) by (intro exI[of _ s']) (simp add: s'_def registry_def)
qed

lemma reconnect_blocks_worker_witness:
  "\<exists>s'. passive_message plain_codec (\<lambda>_. True) \<lparr>msg_type = 1, msg_port = 8001, msg_ip = ''10.0.0.1'', process_id = 1\<rparr>
       (demo_registry, init_shm) = Inr (s', init_shm) \<and>
     pipe_event_CallBack (demo_env 300 9 False) (pipes s' ! 1 @ enc_int 4) (worker3 False, init_shm) = Inl Blocked"
  using reconnect_blocks_worker[of "\<lparr>msg_type = 1, msg_port = 8001, msg_ip = ''10.0.0.1'', process_id = 1\<rparr>" "\<lambda>_. True" 1
      demo_registry plain_codec init_shm "demo_env 300 9 False" "worker3 False"]
  by (force simp: demo_registry_def)

end
