(* ===== verification/Http_Theorems.thy ===== *)
theory Http_Theorems
  imports Http_Helper
begin

text \<open>The content length that the response builder writes is the one that the header parser reads.\<close>

lemma search_crlf_line: "CHR 0x0D \<notin> set l \<Longrightarrow> search_crlf (l @ CRLF @ r) = length l"
proof (induction l)
  case (Cons c l)
  then show ?case by (cases "l @ CRLF @ r") (auto simp: CRLF_def)
qed (simp add: CRLF_def)

text \<open>One line of a header that another line follows.\<close>

definition key_of :: "string \<Rightarrow> string" where
  "key_of l = takeWhile (\<lambda>c. c \<noteq> CHR '':'') l"

lemma parse_line:
  assumes "CHR 0x0D \<notin> set l" "length l < 1000" "r \<noteq> []"
  shows "parse_length_loop (pre @ l @ CRLF @ r) (length pre) =
    (if key_of l = ''Content-Length'' \<or> key_of l = ''content-length''
     then bindE (substr l (u64 (str_find l (CHR '':'') 0 + 1)) npos) stoi
     else parse_length_loop (pre @ l @ CRLF @ r) (length (pre @ l @ CRLF)))"
proof -
  have e: "search_crlf (l @ CRLF @ r) = length l" by (rule search_crlf_line[OF assms(1)])
  have pos: "0 < int (length l) + int (length r)" using assms(3) by (cases r) simp_all
  have two: "length CRLF = 2" by (simp add: CRLF_def)
  have key: "substr l 0 (str_find l (CHR '':'') 0) = Inr (key_of l)"
  proof (cases "CHR '':'' \<in> set l")
    case True
    then obtain a b where l: "l = a @ CHR '':'' # b" "CHR '':'' \<notin> set a" by (meson split_list_first)
    have "find_index (\<lambda>x. x = CHR '':'') (a @ CHR '':'' # b) = length a"
      using l(2) find_index_append[of a "\<lambda>x. x = CHR '':''" "CHR '':''" b] by fastforce
    then have "str_find l (CHR '':'') 0 = int (length a)" by (simp add: l(1) str_find_def)
    moreover have "substr l 0 (int (length a)) = Inr a" by (simp add: l(1) substr_def)
    moreover have "key_of l = a" using l by (auto simp: key_of_def takeWhile_append)
    ultimately show ?thesis by simp
  next
    case False
    then have "\<not> find_index (\<lambda>x. x = CHR '':'') l < length l" by (auto simp: find_index_less)
    moreover have "key_of l = l" using False by (auto simp: key_of_def takeWhile_eq_all_conv)
    ultimately show ?thesis using assms(2) by (simp add: str_find_def substr_def npos_def)
  qed
  show ?thesis
    using pos by (subst parse_length_loop.simps) (simp add: e key two Let_def add.commute)
qed

lemma code_status_chars: "CHR 0x0D \<notin> set (code_status 0)" "CHR 0x0D \<notin> set (code_status 1)" "CHR 0x0D \<notin> set (code_status 2)"
  "CHR '':'' \<notin> set (code_status 0)" "CHR '':'' \<notin> set (code_status 1)" "CHR '':'' \<notin> set (code_status 2)"
  by (simp_all add: code_status_def)

text \<open>The content length round trips. Of any response that the builder makes, with any status, content
  and length, the parser of the header finds exactly the length that was written, past the status line,
  which has no colon, and the two other header lines.\<close>

lemma content_length_round_trip:
  assumes "0 \<le> len" "len \<le> 2147483647" "0 \<le> code" "code < 1000"
  shows "ParseContentLength (AddContent (AddHeader (AddState [] code)) content len) = Inr len"
proof -
  define st where "st = ''HTTP/1.1 '' @ to_string code @ '' '' @
     (if code = 200 then code_status 0 else if code = 400 then code_status 1 else code_status 2)"
  define h1 where "h1 = ''Connection: close''"
  define h2 where "h2 = ''Content-type: text/plain; charset=UTF-8''"
  define h3 where "h3 = ''Content-Length: '' @ to_string len"
  have msg: "AddContent (AddHeader (AddState [] code)) content len = [] @ st @ CRLF @ h1 @ CRLF @ h2 @ CRLF @ h3 @ CRLF @ CRLF @ content"
    by (simp add: AddContent_def AddHeader_def AddState_def st_def h1_def h2_def h3_def)
  have digits: "CHR 0x0D \<notin> set (to_string n)" for n
  proof -
    have "\<not> is_digit (CHR 0x0D)" by (simp add: is_digit_def)
    then show ?thesis using show_nat_digits by (auto simp: to_string_def)
  qed
  have lens: "length st < 1000" "length h1 < 1000" "length h2 < 1000" "length h3 < 1000"
    using length_show_nat[of 3 "nat code"] length_show_nat[of 10 "nat len"] assms nat_less_iff[of code 1000] nat_less_iff[of len 10000000000]
    by (auto simp: st_def h1_def h2_def h3_def to_string_def code_status_def)
  have cr: "CHR 0x0D \<notin> set st" "CHR 0x0D \<notin> set h1" "CHR 0x0D \<notin> set h2" "CHR 0x0D \<notin> set h3"
    using code_status_chars digits by (auto simp: st_def h1_def h2_def h3_def)
  have keys: "key_of st \<noteq> ''Content-Length''" "key_of st \<noteq> ''content-length''" "key_of h1 = ''Connection''" "key_of h2 = ''Content-type''"
    "key_of h3 = ''Content-Length''"
    by (simp_all add: key_of_def st_def h1_def h2_def h3_def)
  have val: "str_find h3 (CHR '':'') 0 = 14" "substr h3 15 npos = Inr (CHR '' '' # to_string len)"
    using lens(4) by (simp_all add: h3_def str_find_def substr_def npos_def)
  have num: "stoi (CHR '' '' # to_string len) = Inr len"
    using stoi_to_string[of len] assms(1,2) by (simp add: stoi_def is_space_def)
  have ne: "r @ CRLF @ q \<noteq> []" for r q by (simp add: CRLF_def)
  have "ParseContentLength ([] @ st @ CRLF @ h1 @ CRLF @ h2 @ CRLF @ h3 @ CRLF @ CRLF @ content) =
      parse_length_loop ((st @ CRLF @ h1 @ CRLF) @ h2 @ CRLF @ h3 @ CRLF @ CRLF @ content) (length (st @ CRLF @ h1 @ CRLF))"
    using parse_line[OF cr(1) lens(1) ne, of "[]" h1 "h2 @ CRLF @ h3 @ CRLF @ CRLF @ content"]
      parse_line[OF cr(2) lens(2) ne, of "st @ CRLF" h2 "h3 @ CRLF @ CRLF @ content"] keys(1-3)
    by (simp add: ParseContentLength_def)
  also have "\<dots> = parse_length_loop ((st @ CRLF @ h1 @ CRLF @ h2 @ CRLF) @ h3 @ CRLF @ CRLF @ content) (length (st @ CRLF @ h1 @ CRLF @ h2 @ CRLF))"
    using parse_line[OF cr(3) lens(3) ne, of "st @ CRLF @ h1 @ CRLF" h3 "CRLF @ content"] keys(4) by simp
  also have "\<dots> = Inr len"
    using parse_line[OF cr(4) lens(4) ne, of "st @ CRLF @ h1 @ CRLF @ h2 @ CRLF" "[]" content] keys(5) val num by simp
  finally show ?thesis using msg by simp
qed

lemma content_length_round_trip_hello:
  "ParseContentLength (AddContent (AddHeader (AddState [] 200)) ''hello'' 5) = Inr 5"
  by (rule content_length_round_trip) simp_all

end
