(* ===== verification/Log_Buffer.thy ===== *)
theory Log_Buffer
  imports Prelude
begin

text \<open>
  The byte buffer of the logger (\<^verbatim>\<open>src/log/mini_buffer.cc\<close>): a vector of characters with a read
  and a write index. Sizes are \<open>size_t\<close>: differences wrap, which matters because \<open>HasWritten\<close> is
  not checked. Copies outside the vector are a fault.
\<close>

section \<open>The buffer\<close>

record Buffer =
  m_buffer :: string
  m_read_idx :: int
  m_write_idx :: int

definition kBufSize :: int where "kBufSize = 1024"
definition kCheapPrependable :: int where "kCheapPrependable = 8"

definition new_Buffer :: Buffer where
  "new_Buffer = \<lparr>m_buffer = replicate (nat (kBufSize + kCheapPrependable)) NUL,
     m_read_idx = kCheapPrependable, m_write_idx = kCheapPrependable\<rparr>"

abbreviation buf_size :: "Buffer \<Rightarrow> int" where "buf_size b \<equiv> int (length (m_buffer b))"

definition PrependableBytes :: "Buffer \<Rightarrow> int" where
  "PrependableBytes b = m_read_idx b"

definition ReadableBytes :: "Buffer \<Rightarrow> int" where
  "ReadableBytes b = u64 (m_write_idx b - m_read_idx b)"

definition WritableBytes :: "Buffer \<Rightarrow> int" where
  "WritableBytes b = u64 (buf_size b - m_write_idx b)"

text \<open>The bytes from \<open>Peek()\<close> on, \<open>n\<close> of them.\<close>

definition peek :: "int \<Rightarrow> Buffer \<Rightarrow> string res" where
  "peek n b =
     (if m_read_idx b + n \<le> buf_size b
      then Inr (take (nat n) (drop (nat (m_read_idx b)) (m_buffer b)))
      else Inl Out_Of_Bounds)"

text \<open>\<open>std::copy(s, s + len, BeginWrite())\<close>\<close>

definition store :: "string \<Rightarrow> Buffer \<Rightarrow> Buffer res" where
  "store s b =
     (if m_write_idx b + int (length s) \<le> buf_size b
      then Inr (b\<lparr>m_buffer := take (nat (m_write_idx b)) (m_buffer b) @ s @
                    drop (nat (m_write_idx b) + length s) (m_buffer b)\<rparr>)
      else Inl Out_Of_Bounds)"

text \<open>\<open>m_buffer.resize(n)\<close>: cut, or extended with NUL.\<close>

definition resize :: "int \<Rightarrow> Buffer \<Rightarrow> Buffer" where
  "resize n b = b\<lparr>m_buffer := take (nat n) (m_buffer b) @ replicate (nat n - length (m_buffer b)) NUL\<rparr>"

definition MakeSpace :: "int \<Rightarrow> Buffer \<Rightarrow> Buffer res" where
  "MakeSpace len b =
     bindE (guardE Assert_Failed (kCheapPrependable < m_read_idx b)) (\<lambda>_.
     let readable = ReadableBytes b in
     bindE (peek readable b) (\<lambda>s.
     let b = b\<lparr>m_buffer := take (nat kCheapPrependable) (m_buffer b) @ s @
                 drop (nat kCheapPrependable + length s) (m_buffer b),
               m_read_idx := kCheapPrependable, m_write_idx := kCheapPrependable + readable\<rparr> in
     bindE (guardE Assert_Failed (readable = ReadableBytes b)) (\<lambda>_.
     if u64 (WritableBytes b + PrependableBytes b) < u64 (len + kCheapPrependable)
     then Inr (resize (u64 (m_write_idx b + len)) b) else Inr b)))"

definition EnsureWritable :: "int \<Rightarrow> Buffer \<Rightarrow> Buffer res" where
  "EnsureWritable len b =
     bindE (if WritableBytes b < len then MakeSpace len b else Inr b) (\<lambda>b.
     bindE (guardE Assert_Failed (len \<le> WritableBytes b)) (\<lambda>_. Inr b))"

definition HasWritten :: "int \<Rightarrow> Buffer \<Rightarrow> Buffer" where
  "HasWritten len b = b\<lparr>m_write_idx := u64 (m_write_idx b + len)\<rparr>"

definition RetrieveAll :: "Buffer \<Rightarrow> Buffer" where
  "RetrieveAll b = b\<lparr>m_read_idx := kCheapPrependable, m_write_idx := kCheapPrependable\<rparr>"

definition Retrieve :: "int \<Rightarrow> Buffer \<Rightarrow> Buffer res" where
  "Retrieve len b =
     bindE (guardE Assert_Failed (len \<le> ReadableBytes b)) (\<lambda>_.
     Inr (if len < ReadableBytes b then b\<lparr>m_read_idx := m_read_idx b + len\<rparr> else RetrieveAll b))"

text \<open>The argument of \<open>RetrieveUntil\<close> is a pointer into the vector, here its offset.\<close>

definition RetrieveUntil :: "int \<Rightarrow> Buffer \<Rightarrow> Buffer res" where
  "RetrieveUntil stop b =
     bindE (guardE Assert_Failed (m_read_idx b \<le> stop \<and> stop \<le> m_write_idx b)) (\<lambda>_.
     Retrieve (stop - m_read_idx b) b)"

definition RetrieveAsString :: "int \<Rightarrow> Buffer \<Rightarrow> (string \<times> Buffer) res" where
  "RetrieveAsString len b =
     bindE (guardE Assert_Failed (len \<le> ReadableBytes b)) (\<lambda>_.
     let len = (if len = 0 then ReadableBytes b else len) in
     bindE (peek len b) (\<lambda>s. bindE (Retrieve len b) (\<lambda>b. Inr (s, b))))"

definition Append :: "string \<Rightarrow> Buffer \<Rightarrow> Buffer res" where
  "Append s b =
     bindE (EnsureWritable (int (length s)) b) (\<lambda>b.
     bindE (store s b) (\<lambda>b. Inr (HasWritten (int (length s)) b)))"

definition AppendBuffer :: "Buffer \<Rightarrow> Buffer \<Rightarrow> Buffer res" where
  "AppendBuffer c b = bindE (peek (ReadableBytes c) c) (\<lambda>s. Append s b)"

text \<open>
  \<open>ReadFd\<close>: \<open>got\<close> is what \<open>readv\<close> delivers, \<^term>\<open>None\<close> for an error; it is at most the writable
  bytes, and 65536 more when those are fewer. The first part lands behind the write index.
\<close>

definition readv_limit :: "Buffer \<Rightarrow> int" where
  "readv_limit b = (if WritableBytes b < 65536 then WritableBytes b + 65536 else WritableBytes b)"

definition ReadFd :: "string option \<Rightarrow> Buffer \<Rightarrow> (int \<times> Buffer) res" where
  "ReadFd got b =
     (case got of
        None \<Rightarrow> Inr (-1, b)
      | Some data \<Rightarrow>
          let writable = WritableBytes b; len = int (length data) in
          bindE (store (take (nat writable) data) b) (\<lambda>b.
          if len \<le> writable then Inr (len, b\<lparr>m_write_idx := m_write_idx b + len\<rparr>)
          else bindE (Append (drop (nat writable) data) (b\<lparr>m_write_idx := buf_size b\<rparr>)) (\<lambda>b. Inr (len, b))))"

text \<open>\<open>WriteFd\<close>: \<open>n\<close> is what \<open>write\<close> returns.\<close>

definition WriteFd :: "int \<Rightarrow> Buffer \<Rightarrow> (int \<times> string \<times> Buffer) res" where
  "WriteFd n b =
     bindE (peek (ReadableBytes b) b) (\<lambda>s.
     Inr (if n < 0 then (n, [], b) else (n, take (nat n) s, b\<lparr>m_read_idx := m_read_idx b + n\<rparr>)))"

section \<open>Invariant and contents\<close>

text \<open>The vector is far smaller than \<open>size_t\<close>.\<close>

definition buf_ok :: "Buffer \<Rightarrow> bool" where
  "buf_ok b \<longleftrightarrow> 8 \<le> m_read_idx b \<and> m_read_idx b \<le> m_write_idx b \<and> m_write_idx b \<le> buf_size b \<and>
     buf_size b < 9223372036854775808"

definition contents :: "Buffer \<Rightarrow> string" where
  "contents b = take (nat (m_write_idx b - m_read_idx b)) (drop (nat (m_read_idx b)) (m_buffer b))"

lemma buf_ok_sizes:
  assumes "buf_ok b"
  shows "ReadableBytes b = m_write_idx b - m_read_idx b" "WritableBytes b = buf_size b - m_write_idx b"
    "int (length (contents b)) = m_write_idx b - m_read_idx b"
  using assms by (auto simp: buf_ok_def ReadableBytes_def WritableBytes_def contents_def)

lemma peek_contents: "buf_ok b \<Longrightarrow> 0 \<le> n \<Longrightarrow> n \<le> ReadableBytes b \<Longrightarrow> peek n b = Inr (take (nat n) (contents b))"
  by (auto simp: buf_ok_sizes) (auto simp: buf_ok_def peek_def contents_def min_def)

lemma peek_all: "buf_ok b \<Longrightarrow> peek (ReadableBytes b) b = Inr (contents b)"
  by (auto simp: buf_ok_sizes) (auto simp: buf_ok_def peek_def contents_def)

lemma store_contents:
  assumes "buf_ok b" "int (length s) \<le> WritableBytes b"
  shows "\<exists>b'. store s b = Inr b' \<and> HasWritten (int (length s)) b' = b'\<lparr>m_write_idx := m_write_idx b + int (length s)\<rparr> \<and>
     buf_ok (HasWritten (int (length s)) b') \<and> contents (HasWritten (int (length s)) b') = contents b @ s \<and>
     buf_size b' = buf_size b \<and> m_read_idx b' = m_read_idx b"
proof -
  note sz = buf_ok_sizes[OF assms(1)]
  define r where "r = nat (m_read_idx b)"
  define w where "w = nat (m_write_idx b)"
  have idx: "m_read_idx b = int r" "m_write_idx b = int w" "r \<le> w" "8 \<le> r" "w + length s \<le> length (m_buffer b)"
    "int (length (m_buffer b)) < 9223372036854775808"
    using assms sz by (auto simp: buf_ok_def r_def w_def)
  define b' where "b' = b\<lparr>m_buffer := take w (m_buffer b) @ s @ drop (w + length s) (m_buffer b)\<rparr>"
  have st: "store s b = Inr b'" using idx by (simp add: store_def b'_def)
  have len: "length (m_buffer b') = length (m_buffer b)" using idx by (simp add: b'_def)
  have h: "HasWritten (int (length s)) b' = b'\<lparr>m_write_idx := int (w + length s)\<rparr>"
    using idx by (simp add: HasWritten_def b'_def)
  have "contents (HasWritten (int (length s)) b') = contents b @ s"
    unfolding h contents_def using idx by (simp add: b'_def nat_diff_distrib drop_take)
  moreover have "buf_ok (HasWritten (int (length s)) b')"
    unfolding h using idx len by (simp add: buf_ok_def b'_def)
  ultimately show ?thesis using st h len idx by (intro exI[of _ b']) (simp add: b'_def)
qed

lemma MakeSpace_ok:
  assumes b: "buf_ok b" and r: "8 < m_read_idx b" and n: "0 \<le> n" "buf_size b + n < 9223372036854775808"
  shows "\<exists>b'. MakeSpace n b = Inr b' \<and> buf_ok b' \<and> contents b' = contents b \<and> n \<le> WritableBytes b' \<and> m_read_idx b' = 8"
proof -
  note sz = buf_ok_sizes[OF b]
  define c where "c = contents b"
  have rc: "ReadableBytes b = int (length c)" using sz by (simp add: c_def)
  define u where "u = b\<lparr>m_buffer := take 8 (m_buffer b) @ c @ drop (8 + length c) (m_buffer b),
       m_read_idx := 8, m_write_idx := 8 + int (length c)\<rparr>"
  have fit: "8 + length c \<le> length (m_buffer b)" "8 \<le> length (m_buffer b)"
    using b sz r unfolding buf_ok_def c_def by auto
  then have lu: "length (m_buffer u) = length (m_buffer b)" by (simp add: u_def)
  have ok: "buf_ok u" using b fit lu by (simp add: buf_ok_def u_def)
  have cu: "contents u = c" using fit by (simp add: contents_def u_def)
  note su = buf_ok_sizes[OF ok]
  have wr: "WritableBytes u = buf_size b - (8 + int (length c))" using su(2) lu by (simp add: u_def)
  have ru: "ReadableBytes u = int (length c)" using su(1) by (simp add: u_def)
  have m: "MakeSpace n b = (if u64 (WritableBytes u + PrependableBytes u) < u64 (n + 8)
      then Inr (resize (u64 (m_write_idx u + n)) u) else Inr u)"
    unfolding MakeSpace_def kCheapPrependable_def
    using r peek_all[OF b] ru by (simp add: rc c_def[symmetric] Let_def u_def[symmetric])
  have e: "u64 (WritableBytes u + PrependableBytes u) = buf_size b - int (length c)"
    "u64 (n + 8) = n + 8" "u64 (m_write_idx u + n) = 8 + int (length c) + n"
    using wr fit n b by (simp_all add: u_def PrependableBytes_def buf_ok_def)
  show ?thesis
  proof (cases "buf_size b - int (length c) < n + 8")
    case True
    define k where "k = nat (8 + int (length c) + n)"
    have k: "length (m_buffer b) \<le> k" "int k = 8 + int (length c) + n" using True n(1) by (auto simp: k_def)
    define v where "v = resize (8 + int (length c) + n) u"
    have lv: "length (m_buffer v) = k" using k(1) lu by (simp add: v_def resize_def k_def[symmetric])
    have fv: "m_read_idx v = 8" "m_write_idx v = 8 + int (length c)" by (simp_all add: v_def resize_def u_def)
    have okv: "buf_ok v" using lv k fv n fit by (simp add: buf_ok_def)
    have "contents v = c"
      using cu k fit lu unfolding contents_def fv by (simp add: v_def resize_def k_def[symmetric] u_def)
    moreover have "n \<le> WritableBytes v" using buf_ok_sizes(2)[OF okv] lv k fv by simp
    ultimately show ?thesis using m e True okv fv by (simp add: v_def c_def)
  next
    case False
    then show ?thesis using m e ok cu wr by (simp add: c_def u_def)
  qed
qed

lemma Append_cases:
  assumes b: "buf_ok b" and s: "buf_size b + int (length s) < 9223372036854775808"
  shows "if int (length s) \<le> WritableBytes b \<or> 8 < m_read_idx b
     then \<exists>b'. Append s b = Inr b' \<and> buf_ok b' \<and> contents b' = contents b @ s
     else Append s b = Inl Assert_Failed"
proof (cases "int (length s) \<le> WritableBytes b")
  case True
  then have "EnsureWritable (int (length s)) b = Inr b" by (simp add: EnsureWritable_def)
  then show ?thesis using store_contents[OF b True] True by (auto simp: Append_def)
next
  case False
  show ?thesis
  proof (cases "8 < m_read_idx b")
    case True
    from MakeSpace_ok[OF b True _ s] obtain u where u: "MakeSpace (int (length s)) b = Inr u" "buf_ok u"
      "contents u = contents b" "int (length s) \<le> WritableBytes u" by auto
    then have "EnsureWritable (int (length s)) b = Inr u" using False by (simp add: EnsureWritable_def)
    then show ?thesis using store_contents[OF u(2,4)] True u(3) by (auto simp: Append_def)
  next
    case no: False
    then show ?thesis using False by (simp add: Append_def EnsureWritable_def MakeSpace_def kCheapPrependable_def)
  qed
qed

lemma Retrieve_ok:
  assumes b: "buf_ok b" and n: "0 \<le> n" "n \<le> int (length (contents b))"
  shows "\<exists>b'. Retrieve n b = Inr b' \<and> buf_ok b' \<and> contents b' = drop (nat n) (contents b)"
proof -
  note sz = buf_ok_sizes[OF b]
  have rb: "ReadableBytes b = int (length (contents b))" using sz by simp
  show ?thesis
  proof (cases "n < ReadableBytes b")
    case True
    define u where "u = b\<lparr>m_read_idx := m_read_idx b + n\<rparr>"
    have "contents u = drop (nat n) (contents b)"
      using b n True sz by (simp add: u_def contents_def buf_ok_def drop_take nat_diff_distrib nat_add_distrib add.commute algebra_simps)
    moreover have "buf_ok u" using b n True sz by (simp add: u_def buf_ok_def)
    ultimately show ?thesis using True rb n by (simp add: Retrieve_def u_def)
  next
    case False
    then have "nat n = length (contents b)" using n rb by simp
    moreover have "buf_ok (RetrieveAll b)" "contents (RetrieveAll b) = []"
      using b by (auto simp: RetrieveAll_def kCheapPrependable_def buf_ok_def contents_def)
    ultimately show ?thesis using False n rb by (simp add: Retrieve_def)
  qed
qed

lemma new_Buffer_ok: "buf_ok new_Buffer" "contents new_Buffer = []" "WritableBytes new_Buffer = 1024" "m_read_idx new_Buffer = 8"
  by (simp_all add: buf_ok_def new_Buffer_def kBufSize_def kCheapPrependable_def contents_def WritableBytes_def)

end
