(* ===== verification/Blocking_Queue.thy ===== *)
theory Blocking_Queue
  imports Ring_Queue
begin

text \<open>
  The queue between the writers of the log and its thread (\<^verbatim>\<open>src/log/blocking_queue.cc\<close>). Every
  method holds the mutex from its first to its last statement, except while it waits; a method is
  therefore one step, and a method that waits is the fault \<open>Blocked\<close> at the point where it starts
  to wait. What \<open>Pop\<close> does when it is woken is a second function.
\<close>

section \<open>Operations\<close>

record BlockingQueue =
  m_deq :: "string list"
  m_capacity :: nat
  m_is_close :: bool

definition new_BlockingQueue :: "nat \<Rightarrow> BlockingQueue" where
  "new_BlockingQueue max_capacity = \<lparr>m_deq = [], m_capacity = max_capacity, m_is_close = False\<rparr>"

definition Size :: "BlockingQueue \<Rightarrow> nat" where
  "Size q = length (m_deq q)"

definition Clear :: "bool \<Rightarrow> BlockingQueue \<Rightarrow> BlockingQueue" where
  "Clear is_close q = q\<lparr>m_deq := [], m_is_close := is_close\<rparr>"

definition IsEmpty :: "BlockingQueue \<Rightarrow> bool" where
  "IsEmpty q \<longleftrightarrow> m_deq q = []"

definition IsFull :: "BlockingQueue \<Rightarrow> bool" where
  "IsFull q \<longleftrightarrow> m_capacity q \<le> length (m_deq q)"

text \<open>\<open>front()\<close> of an empty \<open>std::deque\<close> is undefined.\<close>

definition Front :: "BlockingQueue \<Rightarrow> string res" where
  "Front q = (case m_deq q of [] \<Rightarrow> Inl Out_Of_Bounds | x # _ \<Rightarrow> Inr x)"

definition Emplace :: "string \<Rightarrow> BlockingQueue \<Rightarrow> BlockingQueue res" where
  "Emplace item q = (if length (m_deq q) < m_capacity q then Inr (q\<lparr>m_deq := m_deq q @ [item]\<rparr>) else Inl Blocked)"

text \<open>
  \<open>Pop\<close> from its start: it waits on an empty queue, without a look at \<open>m_is_close_\<close>. \<open>Pop_woken\<close> is
  the code after \<open>wait\<close> returns. The result is \<^term>\<open>None\<close> for \<open>false\<close>.
\<close>

definition Pop :: "BlockingQueue \<Rightarrow> (string option \<times> BlockingQueue) res" where
  "Pop q = (case m_deq q of [] \<Rightarrow> Inl Blocked | x # xs \<Rightarrow> Inr (Some x, q\<lparr>m_deq := xs\<rparr>))"

definition Pop_woken :: "BlockingQueue \<Rightarrow> (string option \<times> BlockingQueue) res" where
  "Pop_woken q = (if m_is_close q then Inr (None, q) else Pop q)"

section \<open>The queue as a bounded list\<close>

definition first_item :: "BlockingQueue \<Rightarrow> string" where
  "first_item q = hd (m_deq q)"

definition rest_items :: "BlockingQueue \<Rightarrow> BlockingQueue" where
  "rest_items q = q\<lparr>m_deq := tl (m_deq q)\<rparr>"

lemma Pop_items: "Pop q = (if IsEmpty q then Inl Blocked else Inr (Some (first_item q), rest_items q))"
  by (cases "m_deq q") (simp_all add: Pop_def IsEmpty_def first_item_def rest_items_def)

interpretation bq: event_fifo "\<lambda>q. m_capacity q = cap \<and> length (m_deq q) \<le> cap" m_deq Emplace rest_items first_item
  IsEmpty cap Blocked for cap
  by unfold_locales (auto simp: Emplace_def rest_items_def first_item_def IsEmpty_def)

text \<open>The blocking queue delivers what was put in, in order, and never holds more than its
  capacity: through any sequence of \<open>Emplace\<close> and \<open>Pop\<close> that did not have to wait, what \<open>Pop\<close>
  returned followed by what the queue holds is what was put in. \<open>Emplace\<close> waits exactly on a full
  queue, \<open>Pop\<close> exactly on an empty one.\<close>

lemma blocking_queue_fifo:
  assumes "foldE (fifo_op Emplace rest_items first_item IsEmpty) es (new_BlockingQueue cap, []) = Inr (q, out)"
  shows "out @ m_deq q = List.map_filter (\<lambda>e. e) es \<and> Size q \<le> cap \<and>
     (Emplace x q = Inl Blocked \<longleftrightarrow> IsFull q) \<and> (Pop q = Inl Blocked \<longleftrightarrow> IsEmpty q) \<and>
     (\<not> IsEmpty q \<longrightarrow> Pop q = Inr (Some (first_item q), rest_items q))"
proof -
  have "out @ m_deq q = List.map_filter (\<lambda>e. e) es" "length (m_deq q) \<le> cap"
    using bq.fifo_history[OF _ assms, of cap] by (simp_all add: new_BlockingQueue_def)
  then show ?thesis by (auto simp: Size_def Emplace_def IsFull_def Pop_items)
qed

lemma blocking_queue_fifo_witness:
  "\<exists>q. foldE (fifo_op Emplace rest_items first_item IsEmpty) [Some ''a'', Some ''b'', None] (new_BlockingQueue 2, []) = Inr (q, [''a'']) \<and>
     Pop q = Inr (Some ''b'', rest_items q)"
proof -
  have q: "foldE (fifo_op Emplace rest_items first_item IsEmpty) [Some ''a'', Some ''b'', None] (new_BlockingQueue 2, []) =
      Inr (\<lparr>m_deq = [''b''], m_capacity = 2, m_is_close = False\<rparr>, [''a''])"
    by (simp add: fifo_op_cases Emplace_def rest_items_def first_item_def IsEmpty_def new_BlockingQueue_def)
  from blocking_queue_fifo[OF q] q show ?thesis by (simp add: first_item_def IsEmpty_def)
qed

text \<open>Closing wakes only a reader that already waits: the reader that waits returns \<open>false\<close>, but one
  that calls \<open>Pop\<close> after the queue was closed waits, and nobody notifies it again.\<close>

lemma close_needs_a_waiting_reader:
  "Pop_woken (Clear True q) = Inr (None, Clear True q) \<and> Pop (Clear True q) = Inl Blocked"
  by (simp add: Pop_woken_def Clear_def Pop_def)

end
