(* ===== verification/Mini_Log.thy ===== *)
theory Mini_Log
  imports Log_Buffer Blocking_Queue Http_Helper
begin

text \<open>
  The logger (\<^verbatim>\<open>src/log/mini_log.cc\<close>). Files are a map from names to contents; opening a file for
  appending is tried with \<open>can_open\<close>. Local time is a record. The text that \<open>vsnprintf\<close> makes of
  the format and its arguments is an argument: of the library it is used that \<open>vsnprintf(p, n, ...)\<close>
  stores the first \<open>n - 1\<close> characters and a NUL and returns the whole length.
\<close>

section \<open>State\<close>

record tm =
  tm_year :: nat
  tm_mon :: nat
  tm_mday :: nat
  tm_hour :: nat
  tm_min :: nat
  tm_sec :: nat
  tm_usec :: nat

record log =
  m_path :: string
  m_suffix :: string
  m_line_count :: int
  m_today :: nat
  m_is_async :: bool
  log_buffer :: Buffer
  m_fp :: "string option"
  m_log_queue :: "BlockingQueue option"
  files :: "string \<Rightarrow> string"

definition kLogNameLen :: nat where "kLogNameLen = 256"
definition kMaxLines :: int where "kMaxLines = 50000"
definition kMaxCharsInOneLine :: int where "kMaxCharsInOneLine = 256"

text \<open>The object before its constructor's body: static storage is zero.\<close>

definition blank_log :: log where
  "blank_log = \<lparr>m_path = [], m_suffix = [], m_line_count = 0, m_today = 0, m_is_async = False, log_buffer = new_Buffer,
     m_fp = None, m_log_queue = None, files = (\<lambda>_. [])\<rparr>"

section \<open>Names and headers\<close>

text \<open>\<open>%0wd\<close> of a number that is not negative.\<close>

definition pad :: "nat \<Rightarrow> nat \<Rightarrow> string" where
  "pad w n = (let s = show_nat n in replicate (w - length s) CHR ''0'' @ s)"

definition date_of :: "tm \<Rightarrow> string" where
  "date_of t = pad 4 (tm_year t + 1900) @ ''-'' @ pad 2 (tm_mon t + 1) @ ''-'' @ pad 2 (tm_mday t)"

definition snprintf_name :: "string \<Rightarrow> string" where
  "snprintf_name s = take (kLogNameLen - 2) s"

definition log_name :: "string \<Rightarrow> string \<Rightarrow> tm \<Rightarrow> string" where
  "log_name path suffix t = snprintf_name (path @ ''/'' @ date_of t @ suffix)"

definition log_head :: "int \<Rightarrow> string" where
  "log_head level = (if level = 0 then ''[Debug] '' else if level = 1 then ''[ Info] '' else if level = 2 then ''[ Warn] ''
     else if level = 3 then ''[Error] '' else [])"

definition line_head :: "tm \<Rightarrow> int \<Rightarrow> string" where
  "line_head t level = ''['' @ date_of t @ '' '' @ pad 2 (tm_hour t) @ '':'' @ pad 2 (tm_min t) @ '':'' @ pad 2 (tm_sec t) @
     ''.'' @ pad 6 (tm_usec t) @ '']'' @ log_head level"

section \<open>Files\<close>

definition fputs :: "string \<Rightarrow> log \<Rightarrow> log res" where
  "fputs s l = (case m_fp l of None \<Rightarrow> Inl Null_Deref | Some f \<Rightarrow> Inr (l\<lparr>files := (files l)(f := files l f @ cstr s)\<rparr>))"

definition fopen_append :: "(string \<Rightarrow> bool) \<Rightarrow> string \<Rightarrow> log \<Rightarrow> log" where
  "fopen_append can_open name l = l\<lparr>m_fp := if can_open name then Some name else None\<rparr>"

section \<open>Init\<close>

text \<open>
  \<open>can_open2\<close> is for the second attempt, after \<open>mkdir\<close>. The thread that empties the queue is
  started with the queue.
\<close>

definition Init :: "(string \<Rightarrow> bool) \<Rightarrow> (string \<Rightarrow> bool) \<Rightarrow> tm \<Rightarrow> string \<Rightarrow> string \<Rightarrow> int \<Rightarrow> log \<Rightarrow> log res" where
  "Init can_open can_open2 t log_path suffix max_queue_capacity l =
     (let l = (if 0 < max_queue_capacity
               then l\<lparr>m_is_async := True,
                      m_log_queue := (case m_log_queue l of None \<Rightarrow> Some (new_BlockingQueue (nat max_queue_capacity)) | Some q \<Rightarrow> Some q)\<rparr>
               else l\<lparr>m_is_async := False\<rparr>);
          name = log_name log_path suffix t;
          l = l\<lparr>m_line_count := 0, m_path := log_path, m_suffix := suffix, m_today := tm_mday t,
                log_buffer := RetrieveAll (log_buffer l)\<rparr>;
          l = fopen_append can_open name l;
          l = (if m_fp l = None then fopen_append can_open2 name l else l)
      in bindE (guardE Assert_Failed (m_fp l \<noteq> None)) (\<lambda>_. Inr l))"

section \<open>Write\<close>

definition rotated_name :: "tm \<Rightarrow> log \<Rightarrow> string" where
  "rotated_name t l =
     (if tm_mday t \<noteq> m_today l then log_name (m_path l) (m_suffix l) t
      else snprintf_name (m_path l @ ''/'' @ take 31 (date_of t) @ ''-'' @ to_string (m_line_count l div kMaxLines) @ m_suffix l))"

definition rotate :: "(string \<Rightarrow> bool) \<Rightarrow> tm \<Rightarrow> log \<Rightarrow> log res" where
  "rotate can_open t l =
     (if m_today l \<noteq> tm_mday t \<or> m_line_count l \<noteq> 0 \<and> m_line_count l mod kMaxLines = 0 then
        let l = fopen_append can_open (rotated_name t l) l in
        bindE (guardE Assert_Failed (m_fp l \<noteq> None)) (\<lambda>_. Inr l)
      else Inr l)"

text \<open>\<open>HasWritten(snprintf(BeginWrite(), n, ...))\<close>\<close>

definition print_at :: "int \<Rightarrow> string \<Rightarrow> Buffer \<Rightarrow> Buffer res" where
  "print_at n text b =
     bindE (store (take (nat (n - 1)) text @ [NUL]) b) (\<lambda>b. Inr (HasWritten (int (length text)) b))"

definition format_line :: "tm \<Rightarrow> int \<Rightarrow> string \<Rightarrow> Buffer \<Rightarrow> Buffer res" where
  "format_line t level text b =
     bindE (EnsureWritable 40 b) (\<lambda>b.
     bindE (print_at 40 (line_head t level) b) (\<lambda>b.
     bindE (EnsureWritable kMaxCharsInOneLine b) (\<lambda>b.
     bindE (print_at (WritableBytes b - 2) text b) (\<lambda>b.
     Append [CHR 0x0A, NUL] b))))"

text \<open>
  \<open>fputs(Peek(), m_fp_)\<close> writes the C string at the read index; the vector is read to its end at most.
\<close>

definition Write :: "(string \<Rightarrow> bool) \<Rightarrow> tm \<Rightarrow> int \<Rightarrow> string \<Rightarrow> log \<Rightarrow> log res" where
  "Write can_open t level text l =
     (let l = l\<lparr>m_line_count := m_line_count l + 1\<rparr> in
      bindE (rotate can_open t l) (\<lambda>l.
      bindE (format_line t level text (log_buffer l)) (\<lambda>b.
      bindE (case m_log_queue l of
               Some q \<Rightarrow>
                 if m_is_async l \<and> \<not> IsFull q then
                   bindE (RetrieveAsString 0 b) (\<lambda>(s, b).
                   bindE (Emplace s q) (\<lambda>q. Inr (l\<lparr>m_log_queue := Some q, log_buffer := b\<rparr>)))
                 else fputs (drop (nat (m_read_idx b)) (m_buffer b)) (l\<lparr>log_buffer := b\<rparr>)
             | None \<Rightarrow> fputs (drop (nat (m_read_idx b)) (m_buffer b)) (l\<lparr>log_buffer := b\<rparr>)) (\<lambda>l.
      Inr (l\<lparr>log_buffer := RetrieveAll (log_buffer l)\<rparr>)))))"

text \<open>\<open>LogBase\<close>: nothing is written while no file is open. \<open>Flush\<close> only notifies and flushes the stream.\<close>

definition IsOpen :: "log \<Rightarrow> bool" where
  "IsOpen l \<longleftrightarrow> m_fp l \<noteq> None"

definition LogBase :: "(string \<Rightarrow> bool) \<Rightarrow> tm \<Rightarrow> int \<Rightarrow> string \<Rightarrow> log \<Rightarrow> log res" where
  "LogBase can_open t level text l = (if IsOpen l then Write can_open t level text l else Inr l)"

text \<open>One round of \<open>AsyncWrite\<close>; it waits on an empty queue.\<close>

definition async_round :: "log \<Rightarrow> log res" where
  "async_round l =
     (case m_log_queue l of
        None \<Rightarrow> Inl Null_Deref
      | Some q \<Rightarrow> bindE (Pop q) (\<lambda>(s, q).
          case s of None \<Rightarrow> Inr (l\<lparr>m_log_queue := Some q\<rparr>) | Some s \<Rightarrow> fputs s (l\<lparr>m_log_queue := Some q\<rparr>)))"

text \<open>
  The destructor. \<open>m_log_queue_.reset()\<close> clears the pointer, then destroys the queue, which empties and
  closes it and notifies; \<open>join\<close> waits for the thread. It matters where the thread is when it is notified:
  waiting in \<open>Pop\<close>, at the start of \<open>Pop\<close>, or still writing a line, after which it uses the null pointer.
\<close>

datatype position = In_Wait | At_Entry | Writing

definition Log_end :: "position \<Rightarrow> log \<Rightarrow> log res" where
  "Log_end pos l =
     bindE (case m_log_queue l of
              None \<Rightarrow> Inr l
            | Some q \<Rightarrow>
                let l = l\<lparr>m_log_queue := None\<rparr>; q = Clear True q in
                bindE (case pos of In_Wait \<Rightarrow> Pop_woken q | At_Entry \<Rightarrow> Pop q | Writing \<Rightarrow> Inl Null_Deref) (\<lambda>_. Inr l)) (\<lambda>l.
     Inr (l\<lparr>m_fp := None\<rparr>))"

section \<open>One line\<close>

text \<open>The buffer between two lines, and times that print in their widths.\<close>

definition reset_buf :: "Buffer \<Rightarrow> bool" where
  "reset_buf b \<longleftrightarrow> m_read_idx b = 8 \<and> m_write_idx b = 8 \<and> length (m_buffer b) = 1032"

definition tm_ok :: "tm \<Rightarrow> bool" where
  "tm_ok t \<longleftrightarrow> tm_year t < 8100 \<and> tm_mon t < 99 \<and> tm_mday t < 100 \<and> tm_hour t < 100 \<and> tm_min t < 100 \<and>
     tm_sec t < 100 \<and> tm_usec t < 1000000"

lemma length_pad: "0 < w \<Longrightarrow> n < 10 ^ w \<Longrightarrow> length (pad w n) = w"
  using length_show_nat[of w n] by (simp add: pad_def Let_def)

lemma NUL_pad: "NUL \<notin> set (pad w n)"
proof -
  have "\<not> is_digit NUL" by (simp add: is_digit_def)
  then show ?thesis using show_nat_digits[of n] by (auto simp: pad_def Let_def)
qed

lemma log_head_cases: "length (log_head level) \<le> 8 \<and> NUL \<notin> set (log_head level)"
  by (simp add: log_head_def)

lemma line_head_length: "tm_ok t \<Longrightarrow> length (line_head t level) = 28 + length (log_head level)"
  by (simp add: line_head_def date_of_def length_pad tm_ok_def)

lemma line_head_NUL: "NUL \<notin> set (line_head t level)"
  using log_head_cases[of level] NUL_pad by (simp add: line_head_def date_of_def)

lemma print_at_effect:
  assumes b: "buf_ok b" and n: "1 \<le> n" "n \<le> WritableBytes b" and t: "int (length text) < n"
  shows "\<exists>b'. print_at n text b = Inr b' \<and> buf_ok b' \<and> contents b' = contents b @ text \<and>
     m_read_idx b' = m_read_idx b \<and> length (m_buffer b') = length (m_buffer b) \<and>
     m_write_idx b' = m_write_idx b + int (length text)"
proof -
  have tk: "take (nat (n - 1)) text = text" using t by simp
  have fit: "int (length (text @ [NUL])) \<le> WritableBytes b" using n t by simp
  from store_contents[OF b fit] obtain u where u: "store (text @ [NUL]) b = Inr u"
    "HasWritten (int (length (text @ [NUL]))) u = u\<lparr>m_write_idx := m_write_idx b + int (length (text @ [NUL]))\<rparr>"
    "buf_ok (HasWritten (int (length (text @ [NUL]))) u)"
    "contents (HasWritten (int (length (text @ [NUL]))) u) = contents b @ (text @ [NUL])"
    "buf_size u = buf_size b" "m_read_idx u = m_read_idx b" by blast
  have w: "m_write_idx u = m_write_idx b" using u(1) by (auto simp: store_def split: if_splits)
  define v where "v = u\<lparr>m_write_idx := m_write_idx b + int (length text)\<rparr>"
  have hv: "HasWritten (int (length text)) u = v"
    using fit b buf_ok_sizes(2)[OF b] by (simp add: HasWritten_def v_def w buf_ok_def)
  have okv: "buf_ok v" using u(2,3) b u(5,6) by (simp add: buf_ok_def v_def)
  have "contents v = contents b @ text"
  proof -
    define k where "k = length (contents b)"
    have k: "int k = m_write_idx b - m_read_idx b" using buf_ok_sizes(3)[OF b] by (simp add: k_def)
    have e: "nat (m_write_idx b + int (length text) - m_read_idx b) = k + length text"
      "nat (m_write_idx b + int (length (text @ [NUL])) - m_read_idx b) = k + length text + 1" using k by auto
    have "contents v = take (k + length text) (contents (u\<lparr>m_write_idx := m_write_idx b + int (length (text @ [NUL]))\<rparr>))"
      using e unfolding contents_def v_def by (simp add: u(6))
    also have "\<dots> = contents b @ text" using u(2,4) by (simp add: k_def)
    finally show ?thesis .
  qed
  then show ?thesis using u(1,5,6) hv okv tk by (intro exI[of _ v]) (simp add: print_at_def v_def)
qed

lemma reset_buf_ok: "reset_buf b \<Longrightarrow> buf_ok b \<and> contents b = []"
  by (simp add: reset_buf_def buf_ok_def contents_def)

text \<open>The line lies at the read index, closed by a newline and a NUL.\<close>

lemma format_line_effect:
  assumes b: "reset_buf b" and t: "tm_ok t" and n: "length text \<le> 985"
  shows "\<exists>b'. format_line t level text b = Inr b' \<and> buf_ok b' \<and> m_read_idx b' = 8 \<and> length (m_buffer b') = 1032 \<and>
     contents b' = line_head t level @ text @ [CHR 0x0A, NUL]"
proof -
  note b0 = reset_buf_ok[OF b]
  have sz: "buf_size b = 1032" "m_read_idx b = 8" "m_write_idx b = 8" using b by (simp_all add: reset_buf_def)
  have w0: "WritableBytes b = 1024" using buf_ok_sizes(2) b0 sz by simp
  define h where "h = line_head t level"
  have h: "length h \<le> 36" using line_head_length[OF t, of level] log_head_cases[of level] by (simp add: h_def)
  from print_at_effect[of b 40 h] b0 w0 h obtain b1 where b1: "print_at 40 h b = Inr b1" "buf_ok b1" "contents b1 = h"
     "m_read_idx b1 = 8" "length (m_buffer b1) = 1032" "m_write_idx b1 = 8 + int (length h)"
    using sz by auto
  have w1: "WritableBytes b1 = 1024 - int (length h)" using buf_ok_sizes(2)[OF b1(2)] b1(5,6) by simp
  from print_at_effect[of b1 "WritableBytes b1 - 2" "text"] b1 w1 h n obtain b2 where
    b2: "print_at (WritableBytes b1 - 2) text b1 = Inr b2" "buf_ok b2" "contents b2 = h @ text" "m_read_idx b2 = 8"
      "length (m_buffer b2) = 1032" "m_write_idx b2 = 8 + int (length h) + int (length text)"
    by auto
  have w2: "WritableBytes b2 = 1024 - int (length h) - int (length text)" using buf_ok_sizes(2)[OF b2(2)] b2(5,6) by simp
  have fit: "int (length [CHR 0x0A, NUL]) \<le> WritableBytes b2" using w2 h n by simp
  from store_contents[OF b2(2) fit] obtain b3 where b3: "store [CHR 0x0A, NUL] b2 = Inr b3"
    "buf_ok (HasWritten 2 b3)" "contents (HasWritten 2 b3) = h @ text @ [CHR 0x0A, NUL]" "buf_size b3 = 1032" "m_read_idx b3 = 8"
    using b2(3-5) by auto
  have e: "EnsureWritable 40 b = Inr b" "EnsureWritable 256 b1 = Inr b1" "EnsureWritable 2 b2 = Inr b2"
    using w0 w1 w2 h n by (simp_all add: EnsureWritable_def)
  show ?thesis
    using b1(1) b2(1) b3 e by (simp add: format_line_def kMaxCharsInOneLine_def Append_def h_def[symmetric]) (simp add: HasWritten_def h_def)
qed

text \<open>A text too long for the buffer.\<close>

lemma format_line_overflow:
  assumes b: "reset_buf b" and t: "tm_ok t" and lv: "length (log_head level) = 8" and n: "987 \<le> length text" "length text < 2147483648"
  shows "format_line t level text b = Inl Assert_Failed \<or> format_line t level text b = Inl Out_Of_Bounds"
proof -
  note b0 = reset_buf_ok[OF b]
  have sz: "buf_size b = 1032" "m_read_idx b = 8" "m_write_idx b = 8" using b by (simp_all add: reset_buf_def)
  have w0: "WritableBytes b = 1024" using buf_ok_sizes(2) b0 sz by simp
  define h where "h = line_head t level"
  have h: "length h = 36" using line_head_length[OF t, of level] lv by (simp add: h_def)
  from print_at_effect[of b 40 h] b0 w0 h obtain b1 where b1: "print_at 40 h b = Inr b1" "buf_ok b1"
     "m_read_idx b1 = 8" "length (m_buffer b1) = 1032" "m_write_idx b1 = 44"
    using sz by auto
  have w1: "WritableBytes b1 = 988" using buf_ok_sizes(2)[OF b1(2)] b1(4,5) by simp
  have len: "length (take (nat (986 - 1)) text @ [NUL]) = 986" using n by simp
  define b2 where "b2 = b1\<lparr>m_buffer := take 44 (m_buffer b1) @ (take (nat (986 - 1)) text @ [NUL]) @ drop (44 + 986) (m_buffer b1)\<rparr>"
  have st: "store (take (nat (986 - 1)) text @ [NUL]) b1 = Inr b2"
    unfolding store_def len b1(5) using b1(4) by (simp add: b2_def)
  define b3 where "b3 = HasWritten (int (length text)) b2"
  have b3: "m_read_idx b3 = 8" "m_write_idx b3 = 44 + int (length text)" "length (m_buffer b3) = 1032"
    using n b1(3-5) len by (simp_all add: b3_def b2_def HasWritten_def)
  have pr: "print_at (WritableBytes b1 - 2) text b1 = Inr b3"
    unfolding print_at_def w1 using st by (simp add: b3_def)
  have e: "EnsureWritable 40 b = Inr b" "EnsureWritable 256 b1 = Inr b1" using w0 w1 by (simp_all add: EnsureWritable_def)
  have f: "format_line t level text b = Append [CHR 0x0A, NUL] b3"
    using b1(1) pr e by (simp add: format_line_def kMaxCharsInOneLine_def h_def[symmetric])
  show ?thesis
  proof (cases "length text \<le> 988")
    case True
    then have "WritableBytes b3 < 2" using b3 n by (simp add: WritableBytes_def)
    then show ?thesis using f b3 by (simp add: Append_def EnsureWritable_def MakeSpace_def kCheapPrependable_def)
  next
    case False
    have "WritableBytes b3 = 18446744073709551616 + (988 - int (length text))"
      using b3 False n(2) u64_wraps[of "988 - int (length text)"] by (simp add: WritableBytes_def)
    then have "2 \<le> WritableBytes b3" using n(2) by simp
    then have "EnsureWritable 2 b3 = Inr b3" by (simp add: EnsureWritable_def)
    then show ?thesis using f b3 False by (simp add: Append_def store_def)
  qed
qed

end
