(* ===== verification/Log_Theorems.thy ===== *)
theory Log_Theorems
  imports Mini_Log
begin

text \<open>
  The properties of the logger: its buffer as a queue of bytes, one line per call, the lines that
  break it, and the two ways of writing.
\<close>

section \<open>The buffer\<close>

text \<open>C36: The buffer of the logger is a queue of bytes: \<open>Append\<close> adds the bytes at the end and
  \<open>RetrieveAsString\<close> gives the first ones back and removes them, whether the vector had room, was
  compacted or was extended. \<open>Append\<close> fails only by the assertion of \<open>MakeSpace\<close>, exactly when the
  bytes do not fit and nothing has been read since the indices were reset.\<close>

theorem buffer_is_a_queue:
  assumes "buf_ok b" "buf_size b + int (length s) < 9223372036854775808"
  shows "(if int (length s) \<le> WritableBytes b \<or> kCheapPrependable < m_read_idx b
      then \<exists>b'. Append s b = Inr b' \<and> buf_ok b' \<and> contents b' = contents b @ s
      else Append s b = Inl Assert_Failed) \<and>
    (\<forall>n. 0 < n \<and> n \<le> int (length (contents b)) \<longrightarrow>
      (\<exists>b'. RetrieveAsString n b = Inr (take (nat n) (contents b), b') \<and> buf_ok b' \<and> contents b' = drop (nat n) (contents b)))"
proof -
  have "\<exists>b'. RetrieveAsString n b = Inr (take (nat n) (contents b), b') \<and> buf_ok b' \<and> contents b' = drop (nat n) (contents b)"
    if n: "0 < n" "n \<le> int (length (contents b))" for n
  proof -
    have "n \<le> ReadableBytes b" using n buf_ok_sizes[OF assms(1)] by simp
    then show ?thesis
      using Retrieve_ok[OF assms(1), of n] n peek_contents[OF assms(1), of n] by (auto simp: RetrieveAsString_def Let_def)
  qed
  then show ?thesis using Append_cases[OF assms] by (simp add: kCheapPrependable_def)
qed

theorem buffer_is_a_queue_witness:
  "\<exists>b b'. Append ''abc'' new_Buffer = Inr b \<and> RetrieveAsString 2 b = Inr (''ab'', b') \<and> contents b' = ''c''"
proof -
  obtain b where b: "Append ''abc'' new_Buffer = Inr b" "buf_ok b" "contents b = ''abc''"
    using buffer_is_a_queue[of new_Buffer "''abc''"] new_Buffer_ok by (auto simp: new_Buffer_def kBufSize_def kCheapPrependable_def)
  have "buf_size b = 1032"
    using b(1) by (simp add: Append_def EnsureWritable_def new_Buffer_ok store_def HasWritten_def bindE_def)
      (auto simp: new_Buffer_def kBufSize_def kCheapPrependable_def split: if_splits)
  then show ?thesis using buffer_is_a_queue[OF b(2), of "[]"] b by (auto simp: nat_numeral dest: spec[of _ 2])
qed

text \<open>The first growth of a buffer aborts the program: appending more than 1024 bytes to a new buffer,
  or to one whose indices were just reset, fails in \<open>MakeSpace\<close>, whose assertion demands that
  something has been read, although the code behind it would make the room.\<close>

lemma fresh_buffer_cannot_grow:
  assumes "1024 < length s" "length s < 4611686018427387904"
  shows "Append s new_Buffer = Inl Assert_Failed \<and>
     ReadFd (Some (replicate 1024 NUL @ s)) new_Buffer = Inl Assert_Failed"
proof -
  have "Append s new_Buffer = Inl Assert_Failed"
    using assms by (simp add: Append_def EnsureWritable_def MakeSpace_def new_Buffer_ok kCheapPrependable_def)
  moreover have "ReadFd (Some (replicate 1024 NUL @ s)) new_Buffer = Inl Assert_Failed"
  proof -
    obtain b where b: "store (replicate 1024 NUL) new_Buffer = Inr b" "m_read_idx b = 8" "length (m_buffer b) = 1032"
      by (simp add: store_def new_Buffer_def kBufSize_def kCheapPrependable_def)
    then have "WritableBytes (b\<lparr>m_write_idx := 1032\<rparr>) = 0" by (simp add: WritableBytes_def)
    moreover have "s \<noteq> []" using assms(1) by auto
    ultimately show ?thesis
      using b assms by (simp add: ReadFd_def new_Buffer_ok Let_def Append_def EnsureWritable_def MakeSpace_def kCheapPrependable_def)
  qed
  ultimately show ?thesis by simp
qed

lemma fresh_buffer_cannot_grow_witness: "Append (replicate 1025 CHR ''x'') new_Buffer = Inl Assert_Failed"
  using fresh_buffer_cannot_grow[of "replicate 1025 CHR ''x''"] by simp

section \<open>Lines\<close>

text \<open>The line a call adds to the log.\<close>

definition log_line :: "tm \<Rightarrow> int \<Rightarrow> string \<Rightarrow> string" where
  "log_line t level text = line_head t level @ text @ [CHR 0x0A]"

lemma cstr_line: "NUL \<notin> set text \<Longrightarrow> cstr (line_head t level @ text @ CHR 0x0A # NUL # rest) = log_line t level text"
  using line_head_NUL[of t level] cstr_append_NUL[of "log_line t level text" rest] by (simp add: log_line_def)

lemma drop_contents: "buf_ok b \<Longrightarrow> drop (nat (m_read_idx b)) (m_buffer b) = contents b @ drop (nat (m_write_idx b)) (m_buffer b)"
proof -
  assume "buf_ok b"
  then have "nat (m_write_idx b) = nat (m_write_idx b - m_read_idx b) + nat (m_read_idx b)" by (auto simp: buf_ok_def)
  then show ?thesis unfolding contents_def by (metis append_take_drop_id drop_drop)
qed

text \<open>The calls that do not have to change the file.\<close>

definition same_file :: "tm \<Rightarrow> log \<Rightarrow> bool" where
  "same_file t l \<longleftrightarrow> m_today l = tm_mday t \<and> (m_line_count l + 1 = 0 \<or> (m_line_count l + 1) mod kMaxLines \<noteq> 0)"

lemma Write_parts:
  assumes "reset_buf (log_buffer l)" "tm_ok t" "length text \<le> 985" "same_file t l"
  obtains b where "format_line t level text (log_buffer l) = Inr b" "buf_ok b"
    "contents b = line_head t level @ text @ [CHR 0x0A, NUL]" "reset_buf (RetrieveAll b)" "m_read_idx b = 8"
    "rotate can_open t (l\<lparr>m_line_count := m_line_count l + 1\<rparr>) = Inr (l\<lparr>m_line_count := m_line_count l + 1\<rparr>)"
proof -
  obtain b where b: "format_line t level text (log_buffer l) = Inr b" "buf_ok b" "m_read_idx b = 8" "length (m_buffer b) = 1032"
    "contents b = line_head t level @ text @ [CHR 0x0A, NUL]"
    using format_line_effect[OF assms(1-3)] by blast
  have "reset_buf (RetrieveAll b)" using b(4) by (simp add: reset_buf_def RetrieveAll_def kCheapPrependable_def)
  then show thesis
    using that[OF b(1,2,5)] b(3) assms(4) by (auto simp: rotate_def same_file_def)
qed

text \<open>
  A log between two calls: \<open>f\<close> is the open file, and there is a queue only in the asynchronous mode.
  \<open>waiting\<close> are the lines in the queue.
\<close>

definition log_ok :: "string \<Rightarrow> log \<Rightarrow> bool" where
  "log_ok f l \<longleftrightarrow> reset_buf (log_buffer l) \<and> m_fp l = Some f \<and> (m_log_queue l \<noteq> None \<longrightarrow> m_is_async l)"

definition waiting :: "log \<Rightarrow> string list" where
  "waiting l = (case m_log_queue l of None \<Rightarrow> [] | Some q \<Rightarrow> map cstr (m_deq q))"

text \<open>A call puts its line into the queue, if there is one with room, and into the file otherwise.\<close>

lemma LogBase_effect:
  assumes "log_ok f l" "tm_ok t" "length text \<le> 985" "NUL \<notin> set text" "same_file t l"
  shows "\<exists>l'. LogBase can_open t level text l = Inr l' \<and> log_ok f l' \<and> m_line_count l' = m_line_count l + 1 \<and> m_today l' = m_today l \<and>
    (case m_log_queue l of
       Some q \<Rightarrow> if IsFull q
         then files l' = (files l)(f := files l f @ log_line t level text) \<and> m_log_queue l' = Some q
         else files l' = files l \<and> (\<exists>s. cstr s = log_line t level text \<and> m_log_queue l' = Some (q\<lparr>m_deq := m_deq q @ [s]\<rparr>))
     | None \<Rightarrow> files l' = (files l)(f := files l f @ log_line t level text) \<and> m_log_queue l' = None)"
proof -
  have l: "reset_buf (log_buffer l)" "m_fp l = Some f" "m_log_queue l \<noteq> None \<longrightarrow> m_is_async l"
    using assms(1) by (auto simp: log_ok_def)
  obtain b where b: "format_line t level text (log_buffer l) = Inr b" "buf_ok b"
    "contents b = line_head t level @ text @ [CHR 0x0A, NUL]" "reset_buf (RetrieveAll b)" "m_read_idx b = 8"
    "rotate can_open t (l\<lparr>m_line_count := m_line_count l + 1\<rparr>) = Inr (l\<lparr>m_line_count := m_line_count l + 1\<rparr>)"
    by (rule Write_parts[OF l(1) assms(2,3,5)])
  note c = cstr_line[OF assms(4), of t level]
  have direct: "cstr (drop (nat (m_read_idx b)) (m_buffer b)) = log_line t level text"
    unfolding drop_contents[OF b(2)] b(3) using c by simp
  define s where "s = contents b"
  have cs: "cstr s = log_line t level text" using c[of "[]"] by (simp add: s_def b(3))
  have rd: "ReadableBytes b = int (length s)" using buf_ok_sizes[OF b(2)] by (simp add: s_def)
  obtain b' where b': "Retrieve (ReadableBytes b) b = Inr b'" "RetrieveAll b' = RetrieveAll b"
    by (simp add: Retrieve_def RetrieveAll_def)
  have rs: "RetrieveAsString 0 b = Inr (s, b')"
    using b'(1) peek_all[OF b(2)] rd by (simp add: RetrieveAsString_def Let_def s_def)
  have put: "\<not> IsFull q \<Longrightarrow> Emplace s q = Inr (q\<lparr>m_deq := m_deq q @ [s]\<rparr>)" for q
    by (simp add: Emplace_def IsFull_def)
  show ?thesis
    using b l direct cs rs put b'(2)
    by (cases "m_log_queue l") (auto simp: LogBase_def IsOpen_def Write_def Let_def fputs_def log_ok_def)
qed

text \<open>Without a queue a call appends its line to the open file and touches no other.\<close>

lemma log_call_writes_line:
  assumes "reset_buf (log_buffer l)" "tm_ok t" "length text \<le> 985" "NUL \<notin> set text" "same_file t l"
    and "m_log_queue l = None" "m_fp l = Some f"
  shows "\<exists>l'. LogBase can_open t level text l = Inr l' \<and> files l' = (files l)(f := files l f @ log_line t level text) \<and>
     reset_buf (log_buffer l') \<and> m_line_count l' = m_line_count l + 1 \<and> m_fp l' = Some f \<and> m_log_queue l' = None"
  using LogBase_effect[of f l t "text" can_open level] assms by (auto simp: log_ok_def)

text \<open>A log opened for the first time, on the 2nd of January.\<close>

definition demo_time :: tm where
  "demo_time = \<lparr>tm_year = 124, tm_mon = 0, tm_mday = 2, tm_hour = 3, tm_min = 4, tm_sec = 5, tm_usec = 6\<rparr>"

definition demo_log :: log where
  "demo_log = blank_log\<lparr>m_path := ''log'', m_suffix := ''.log'', m_today := 2, m_fp := Some ''log/a.log''\<rparr>"

lemma demo_log_ok: "reset_buf (log_buffer demo_log)" "tm_ok demo_time" "same_file demo_time demo_log"
  "m_log_queue demo_log = None" "m_fp demo_log = Some ''log/a.log''"
  by (simp_all add: demo_log_def demo_time_def blank_log_def reset_buf_def new_Buffer_def kBufSize_def
      kCheapPrependable_def tm_ok_def same_file_def kMaxLines_def)

lemma log_call_writes_line_witness:
  "\<exists>l'. LogBase (\<lambda>_. True) demo_time 1 ''hello'' demo_log = Inr l' \<and>
     files l' ''log/a.log'' = files demo_log ''log/a.log'' @ log_line demo_time 1 ''hello''"
  using log_call_writes_line[OF demo_log_ok(1,2) _ _ demo_log_ok(3-5), of "''hello''" "\<lambda>_. True" 1] by auto

text \<open>A long message takes the process down: with a text of 987 characters or more the call runs into
  the failing assertion of the buffer, or, from 989 on, past its end, because the length that
  \<open>vsnprintf\<close> would have needed is added to the write index. The gateway logs the packets of its
  clients, which may have up to 1023 characters.\<close>

lemma long_message_fails:
  assumes "reset_buf (log_buffer l)" "tm_ok t" "0 \<le> level" "level \<le> 3" "987 \<le> length text" "length text < 2147483648"
    and "same_file t l" "IsOpen l"
  shows "LogBase can_open t level text l = Inl Assert_Failed \<or> LogBase can_open t level text l = Inl Out_Of_Bounds"
proof -
  have "length (log_head level) = 8" using assms(3,4) by (auto simp: log_head_def)
  from format_line_overflow[OF assms(1,2) this assms(5,6)] assms(7,8) show ?thesis
    by (auto simp: LogBase_def Write_def Let_def rotate_def same_file_def)
qed

lemma long_message_fails_witness:
  "LogBase (\<lambda>_. True) demo_time 1 (replicate 987 CHR ''x'') demo_log = Inl Assert_Failed \<or>
   LogBase (\<lambda>_. True) demo_time 1 (replicate 987 CHR ''x'') demo_log = Inl Out_Of_Bounds"
  using long_message_fails[OF demo_log_ok(1,2) _ _ _ _ demo_log_ok(3), of 1 "replicate 987 CHR ''x''" "\<lambda>_. True"]
  by (simp add: IsOpen_def demo_log_ok(5))

section \<open>The asynchronous log\<close>

text \<open>What the file will hold when the queue is empty: its contents and the lines that wait.\<close>

definition log_view :: "log \<Rightarrow> string" where
  "log_view l = files l (the (m_fp l)) @
     (case m_log_queue l of None \<Rightarrow> [] | Some q \<Rightarrow> concat (map cstr (m_deq q)))"

text \<open>As long as the queue has room a call adds its line at the end of what the file will hold, and a
  round of the thread changes nothing of that. On a full queue the line comes before the lines that wait.\<close>

lemma async_log_refines:
  assumes "reset_buf (log_buffer l)" "tm_ok t" "length text \<le> 985" "NUL \<notin> set text" "same_file t l"
    and "m_log_queue l = Some q" "m_is_async l" "m_fp l = Some f"
  shows "(if IsFull q
      then \<exists>l'. LogBase can_open t level text l = Inr l' \<and>
         log_view l' = files l f @ log_line t level text @ concat (map cstr (m_deq q))
      else \<exists>l'. LogBase can_open t level text l = Inr l' \<and> log_view l' = log_view l @ log_line t level text \<and>
         reset_buf (log_buffer l')) \<and>
    (\<not> IsEmpty q \<longrightarrow> (\<exists>l'. async_round l = Inr l' \<and> log_view l' = log_view l))"
proof -
  have "\<exists>l'. async_round l = Inr l' \<and> log_view l' = log_view l" if ne: "\<not> IsEmpty q"
  proof -
    obtain x xs where x: "m_deq q = x # xs" using ne by (cases "m_deq q") (auto simp: IsEmpty_def)
    then show ?thesis using assms(6,8) by (simp add: async_round_def Pop_def fputs_def log_view_def)
  qed
  moreover have "\<exists>l'. LogBase can_open t level text l = Inr l' \<and> log_ok f l' \<and> (if IsFull q
      then files l' = (files l)(f := files l f @ log_line t level text) \<and> m_log_queue l' = Some q
      else files l' = files l \<and> (\<exists>s. cstr s = log_line t level text \<and> m_log_queue l' = Some (q\<lparr>m_deq := m_deq q @ [s]\<rparr>)))"
    using LogBase_effect[of f l t "text" can_open level] assms by (cases "IsFull q") (auto simp: log_ok_def)
  ultimately show ?thesis using assms(6,8) by (cases "IsFull q") (auto simp: log_ok_def log_view_def)
qed

definition demo_async :: log where
  "demo_async = demo_log\<lparr>m_is_async := True, m_log_queue := Some \<lparr>m_deq = [''x''], m_capacity = 1, m_is_close = False\<rparr>\<rparr>"

lemma async_log_refines_witness:
  "\<exists>l'. LogBase (\<lambda>_. True) demo_time 1 ''hello'' demo_async = Inr l' \<and> log_view l' = log_line demo_time 1 ''hello'' @ ''x''"
  using async_log_refines[of demo_async demo_time "''hello''" "\<lparr>m_deq = [''x''], m_capacity = 1, m_is_close = False\<rparr>" "''log/a.log''" "\<lambda>_. True" 1]
    demo_log_ok
  by (auto simp: demo_async_def same_file_def IsFull_def demo_log_def blank_log_def cstr_def)

section \<open>Whole runs\<close>

text \<open>
  What happens to a log: calls, and rounds of the thread that empties the queue, in any order. The thread
  waits on an empty queue, and without a queue there is no thread.
\<close>

datatype log_event = Call tm int string | Round

definition log_step :: "(string \<Rightarrow> bool) \<Rightarrow> log_event \<Rightarrow> log \<Rightarrow> log res" where
  "log_step can_open ev l =
     (case ev of Call t level text \<Rightarrow> LogBase can_open t level text l
      | Round \<Rightarrow> if waiting l = [] then Inr l else async_round l)"

lemma log_step_simps [simp]:
  "log_step can_open (Call t level s) l = LogBase can_open t level s l"
  "log_step can_open Round l = (if waiting l = [] then Inr l else async_round l)"
  by (simp_all add: log_step_def)

fun log_lines :: "log_event list \<Rightarrow> string list" where
  "log_lines [] = []"
| "log_lines (Call t level s # evs) = log_line t level s # log_lines evs"
| "log_lines (Round # evs) = log_lines evs"

text \<open>Calls of one day whose texts fit, and fewer of them than lines go into a file.\<close>

fun fitting_call :: "log \<Rightarrow> log_event \<Rightarrow> bool" where
  "fitting_call l (Call t level s) \<longleftrightarrow> tm_ok t \<and> length s \<le> 985 \<and> NUL \<notin> set s \<and> tm_mday t = m_today l"
| "fitting_call l Round \<longleftrightarrow> True"

definition fits_file :: "log_event list \<Rightarrow> log \<Rightarrow> bool" where
  "fits_file evs l \<longleftrightarrow> (\<forall>ev\<in>set evs. fitting_call l ev) \<and> 0 \<le> m_line_count l \<and>
     m_line_count l + int (length (log_lines evs)) < kMaxLines"

text \<open>The queue has room for all the lines.\<close>

definition never_full :: "log_event list \<Rightarrow> log \<Rightarrow> bool" where
  "never_full evs l \<longleftrightarrow>
     (case m_log_queue l of None \<Rightarrow> True | Some q \<Rightarrow> length (m_deq q) + length (log_lines evs) \<le> m_capacity q)"

lemma fitting_same_day: "m_today l' = m_today l \<Longrightarrow> fitting_call l' ev = fitting_call l ev"
  by (cases ev) simp_all

lemma fits_same_file:
  assumes "fits_file (Call t level s # evs) l"
  shows "same_file t l \<and> tm_ok t \<and> length s \<le> 985 \<and> NUL \<notin> set s"
proof -
  have "(m_line_count l + 1) mod kMaxLines = m_line_count l + 1"
    using assms by (intro mod_pos_pos_trivial) (simp_all add: fits_file_def)
  then show ?thesis using assms by (auto simp: fits_file_def same_file_def)
qed

text \<open>A round moves the first line that waits to the file.\<close>

lemma round_effect:
  assumes "log_ok f l" "waiting l = x # xs"
  shows "\<exists>l'. async_round l = Inr l' \<and> log_ok f l' \<and> files l' = (files l)(f := files l f @ x) \<and> waiting l' = xs \<and>
     m_today l' = m_today l \<and> m_line_count l' = m_line_count l \<and> (never_full evs l \<longrightarrow> never_full evs l')"
proof -
  obtain q where q: "m_log_queue l = Some q" using assms(2) by (cases "m_log_queue l") (auto simp: waiting_def)
  then obtain s ss where s: "m_deq q = s # ss" "cstr s = x" "map cstr ss = xs" using assms(2) by (auto simp: waiting_def)
  then show ?thesis using assms(1) q
    by (auto simp: async_round_def Pop_def fputs_def log_ok_def waiting_def never_full_def)
qed

text \<open>A call puts its line behind those that wait, or into the file.\<close>

lemma call_effect:
  assumes "log_ok f l" "fits_file (Call t level s # evs) l"
  shows "\<exists>l'. LogBase can_open t level s l = Inr l' \<and> log_ok f l' \<and> fits_file evs l' \<and>
    (files l' = files l \<and> waiting l' = waiting l @ [log_line t level s] \<or>
     files l' = (files l)(f := files l f @ log_line t level s) \<and> waiting l' = waiting l) \<and>
    (never_full (Call t level s # evs) l \<longrightarrow> never_full evs l' \<and> (waiting l' = waiting l @ [log_line t level s] \<or> waiting l = []))"
proof -
  note c = fits_same_file[OF assms(2)]
  obtain l' where l': "LogBase can_open t level s l = Inr l'" "log_ok f l'" "m_line_count l' = m_line_count l + 1" "m_today l' = m_today l"
    "case m_log_queue l of
       Some q \<Rightarrow> if IsFull q
         then files l' = (files l)(f := files l f @ log_line t level s) \<and> m_log_queue l' = Some q
         else files l' = files l \<and> (\<exists>x. cstr x = log_line t level s \<and> m_log_queue l' = Some (q\<lparr>m_deq := m_deq q @ [x]\<rparr>))
     | None \<Rightarrow> files l' = (files l)(f := files l f @ log_line t level s) \<and> m_log_queue l' = None"
    using LogBase_effect[OF assms(1), of t s can_open level] c by blast
  have "fits_file evs l'"
    using assms(2) l'(3) fitting_same_day[OF l'(4)] by (auto simp: fits_file_def)
  moreover have "never_full (Call t level s # evs) l \<longrightarrow> m_log_queue l = Some q \<longrightarrow> \<not> IsFull q" for q
    by (auto simp: never_full_def IsFull_def)
  ultimately show ?thesis using l'
    by (cases "m_log_queue l") (auto simp: waiting_def never_full_def split: if_splits)
qed

text \<open>What a run of the logger has done: \<open>ls\<close> are the lines of its calls.\<close>

definition log_done :: "string \<Rightarrow> string list \<Rightarrow> bool \<Rightarrow> log \<Rightarrow> log \<Rightarrow> bool" where
  "log_done f ls ordered l l' \<longleftrightarrow> log_ok f l' \<and> (\<exists>out. files l' = (files l)(f := files l f @ concat out) \<and>
     mset (out @ waiting l') = mset (waiting l @ ls) \<and> (ordered \<longrightarrow> out @ waiting l' = waiting l @ ls))"

lemma log_done_queued:
  "log_done f ls b l1 l' \<Longrightarrow> files l1 = files l \<Longrightarrow> waiting l1 = waiting l @ [x] \<Longrightarrow> (b' \<Longrightarrow> b) \<Longrightarrow> log_done f (x # ls) b' l l'"
  by (auto simp: log_done_def)

lemma log_done_written:
  assumes "log_done f ls b l1 l'" "files l1 = (files l)(f := files l f @ x)" "waiting l1 = waiting l" "b' \<Longrightarrow> b \<and> waiting l = []"
  shows "log_done f (x # ls) b' l l'"
proof -
  from assms(1) obtain out where "log_ok f l'" "files l' = (files l1)(f := files l1 f @ concat out)"
    "mset (out @ waiting l') = mset (waiting l1 @ ls)" "b \<longrightarrow> out @ waiting l' = waiting l1 @ ls" by (auto simp: log_done_def)
  then show ?thesis unfolding log_done_def using assms(2-4) by (intro conjI exI[of _ "x # out"]) auto
qed

lemma log_done_taken:
  assumes "log_done f ls b l1 l'" "files l1 = (files l)(f := files l f @ x)" "waiting l = x # waiting l1" "b' \<Longrightarrow> b"
  shows "log_done f ls b' l l'"
proof -
  from assms(1) obtain out where "log_ok f l'" "files l' = (files l1)(f := files l1 f @ concat out)"
    "mset (out @ waiting l') = mset (waiting l1 @ ls)" "b \<longrightarrow> out @ waiting l' = waiting l1 @ ls" by (auto simp: log_done_def)
  then show ?thesis unfolding log_done_def using assms(2-4) by (intro conjI exI[of _ "x # out"]) auto
qed

text \<open>One step of a schedule, and what it adds to a run that follows it.\<close>

lemma log_step_effect:
  assumes "log_ok f l" "fits_file (ev # evs) l"
  obtains l1 where "log_step can_open ev l = Inr l1" "log_ok f l1" "fits_file evs l1"
    "\<And>l'. log_done f (log_lines evs) (never_full evs l1) l1 l' \<Longrightarrow>
       log_done f (log_lines (ev # evs)) (never_full (ev # evs) l) l l'"
proof (cases ev)
  case (Call t level s)
  obtain l1 where l1: "LogBase can_open t level s l = Inr l1" "log_ok f l1" "fits_file evs l1"
    "files l1 = files l \<and> waiting l1 = waiting l @ [log_line t level s] \<or>
     files l1 = (files l)(f := files l f @ log_line t level s) \<and> waiting l1 = waiting l"
    "never_full (ev # evs) l \<longrightarrow> never_full evs l1 \<and> (waiting l1 = waiting l @ [log_line t level s] \<or> waiting l = [])"
    using call_effect[OF assms[unfolded Call], of can_open] Call by auto
  show ?thesis
  proof (rule that)
    fix l' assume done': "log_done f (log_lines evs) (never_full evs l1) l1 l'"
    from l1(4) show "log_done f (log_lines (ev # evs)) (never_full (ev # evs) l) l l'"
      using log_done_queued[OF done'] log_done_written[OF done'] l1(5) by (auto simp: Call)
  qed (use l1 Call in simp_all)
next
  case Round
  have fits: "fits_file evs l" using assms(2) by (simp add: Round fits_file_def)
  have nf: "never_full (ev # evs) l \<longleftrightarrow> never_full evs l" by (simp add: Round never_full_def split: option.splits)
  show ?thesis
  proof (cases "waiting l")
    case Nil
    then show ?thesis using that[of l] assms(1) fits nf by (simp add: Round)
  next
    case (Cons x xs)
    obtain l1 where l1: "async_round l = Inr l1" "log_ok f l1" "files l1 = (files l)(f := files l f @ x)" "waiting l1 = xs"
      "m_today l1 = m_today l" "m_line_count l1 = m_line_count l" "never_full evs l \<longrightarrow> never_full evs l1"
      using round_effect[OF assms(1) Cons, of evs] by blast
    have "fits_file evs l1" using fits l1(6) fitting_same_day[OF l1(5)] by (auto simp: fits_file_def)
    then show ?thesis using that[of l1] log_done_taken[OF _ l1(3)] l1(1,2,4,7) nf Cons by (simp add: Round)
  qed
qed

lemma log_runs:
  assumes "log_ok f l" "fits_file evs l"
  shows "\<exists>l'. foldE (log_step can_open) evs l = Inr l' \<and> log_done f (log_lines evs) (never_full evs l) l l'"
  using assms
proof (induction evs arbitrary: l)
  case Nil
  then show ?case by (auto simp: log_done_def intro!: exI[of _ "[]"])
next
  case (Cons ev evs)
  obtain l1 where l1: "log_step can_open ev l = Inr l1" "log_ok f l1" "fits_file evs l1"
    "\<And>l'. log_done f (log_lines evs) (never_full evs l1) l1 l' \<Longrightarrow>
       log_done f (log_lines (ev # evs)) (never_full (ev # evs) l) l l'"
    using log_step_effect[OF Cons.prems] by blast
  then show ?case using Cons.IH[OF l1(2,3)] by auto
qed



text \<open>The end of the program loses what waits: the destructor never writes the lines in the queue, and it
  returns only when the thread was waiting at that moment.\<close>

lemma log_end_drops:
  assumes "m_log_queue l = Some q"
  shows "Log_end In_Wait l = Inr (l\<lparr>m_log_queue := None, m_fp := None\<rparr>) \<and>
     Log_end At_Entry l = Inl Blocked \<and> Log_end Writing l = Inl Null_Deref"
  using assms by (simp add: Log_end_def Pop_woken_def Pop_def Clear_def)

lemma log_end_drops_witness:
  "\<exists>l'. Log_end In_Wait demo_async = Inr l' \<and> files l' ''log/a.log'' = [] \<and> waiting demo_async = [''x'']"
  using log_end_drops[of demo_async] by (simp add: demo_async_def demo_log_def blank_log_def waiting_def cstr_def)

section \<open>Change of file\<close>

text \<open>After the first midnight the logger reopens the file of the day for every single line, and never
  starts another file however many lines are written: the day it compares with is never updated.\<close>

lemma midnight_disables_rotation:
  assumes "m_today l \<noteq> tm_mday t" "rotate can_open t l = Inr l'"
  shows "m_fp l' = Some (log_name (m_path l) (m_suffix l) t) \<and> m_today l' = m_today l \<and>
     (\<forall>n. rotate can_open t (l'\<lparr>m_line_count := n\<rparr>) = Inr (l'\<lparr>m_line_count := n\<rparr>))"
  using assms by (auto simp: rotate_def rotated_name_def fopen_append_def Let_def res_simps split: if_splits)

lemma midnight_disables_rotation_witness:
  "\<exists>l'. rotate (\<lambda>_. True) (demo_time\<lparr>tm_mday := 3\<rparr>) demo_log = Inr l' \<and> m_today l' = 2 \<and>
     rotate (\<lambda>_. True) (demo_time\<lparr>tm_mday := 3\<rparr>) (l'\<lparr>m_line_count := 50000\<rparr>) = Inr (l'\<lparr>m_line_count := 50000\<rparr>)"
proof -
  obtain l' where l': "rotate (\<lambda>_. True) (demo_time\<lparr>tm_mday := 3\<rparr>) demo_log = Inr l'"
    by (simp add: rotate_def fopen_append_def Let_def demo_log_def blank_log_def)
  from midnight_disables_rotation[OF _ l'] l' show ?thesis by (auto simp: demo_log_def demo_time_def)
qed

end
