(* ===== verification/Pool_Config.thy ===== *)
theory Pool_Config
  imports Structures Http_Helper
begin

text \<open>
  The configuration file of the database pool (\<open>ConnectionPool::loadConfigFile\<close> in
  \<^verbatim>\<open>src/server_service/dbConnectionPool.cpp\<close>): lines \<open>key=value\<close>, read with \<open>fgets\<close> into 1024
  bytes. The pool is a function-local static object, so every field is zero or empty before.
\<close>

section \<open>Reading lines\<close>

text \<open>
  \<open>fgets\<close> takes up to \<open>n\<close> characters, a newline at most at their end; the flag is \<open>feof\<close> after it,
  set when the end of the file was met while reading.
\<close>

fun fgets :: "nat \<Rightarrow> string \<Rightarrow> string \<times> string \<times> bool" where
  "fgets 0 s = ([], s, False)"
| "fgets (Suc n) [] = ([], [], True)"
| "fgets (Suc n) (c # s) =
     (if c = CHR 0x0A then ([c], s, False) else let (l, r, eof) = fgets n s in (c # l, r, eof))"

lemma fgets_le: "fgets n s = (l, r, eof) \<Longrightarrow> length r \<le> length s"
proof (induction n arbitrary: s l r)
  case (Suc n)
  then show ?case by (cases s) (auto split: if_splits prod.splits intro: le_SucI)
qed auto

lemma fgets_shorter: "fgets n s = (l, r, False) \<Longrightarrow> 0 < n \<Longrightarrow> length r < length s"
  by (cases n; cases s) (auto split: if_splits prod.splits dest: fgets_le)

lemma fgets_line:
  assumes "CHR 0x0A \<notin> set l" "length l < n"
  shows "fgets n (l @ CHR 0x0A # r) = (l @ [CHR 0x0A], r, False)"
  using assms
proof (induction l arbitrary: n)
  case Nil
  then show ?case by (cases n) auto
next
  case (Cons c l)
  then show ?case by (cases n) auto
qed

section \<open>One line\<close>

record pool_config =
  m_ip :: string
  m_port :: int
  m_dbName :: string
  m_password :: string
  m_userName :: string
  m_initSize :: int
  m_maxIdleTime :: int
  m_maxSize :: int
  m_connectionTimeOut :: int

definition blank_config :: pool_config where
  "blank_config = \<lparr>m_ip = [], m_port = 0, m_dbName = [], m_password = [], m_userName = [], m_initSize = 0,
     m_maxIdleTime = 0, m_maxSize = 0, m_connectionTimeOut = 0\<rparr>"

definition set_key :: "string \<Rightarrow> string \<Rightarrow> pool_config \<Rightarrow> pool_config" where
  "set_key key val c =
     (if key = ''ip'' then c\<lparr>m_ip := val\<rparr>
      else if key = ''port'' then c\<lparr>m_port := atoi val mod 65536\<rparr>
      else if key = ''dbName'' then c\<lparr>m_dbName := val\<rparr>
      else if key = ''password'' then c\<lparr>m_password := val\<rparr>
      else if key = ''userName'' then c\<lparr>m_userName := val\<rparr>
      else if key = ''initSize'' then c\<lparr>m_initSize := atoi val\<rparr>
      else if key = ''maxIdleTime'' then c\<lparr>m_maxIdleTime := atoi val\<rparr>
      else if key = ''maxSize'' then c\<lparr>m_maxSize := atoi val\<rparr>
      else if key = ''connectionTimeOut'' then c\<lparr>m_connectionTimeOut := atoi val\<rparr>
      else c)"

text \<open>A position as an \<open>int\<close>: the buffer has 1024 bytes, and \<open>npos\<close> becomes -1.\<close>

definition int_pos :: "int \<Rightarrow> int" where
  "int_pos p = (if p = npos then -1 else p)"

definition config_line :: "string \<Rightarrow> pool_config \<Rightarrow> pool_config res" where
  "config_line str c =
     (let idx = int_pos (str_find str (CHR ''='') 0) in
      if idx = -1 then Inr c
      else let endIdx = int_pos (str_find str (CHR 0x0A) (nat idx)) in
        bindE (substr str 0 idx) (\<lambda>key.
        bindE (substr str (idx + 1) (u64 (endIdx - idx - 1))) (\<lambda>val.
        Inr (set_key key val c))))"

section \<open>The file\<close>

function config_lines :: "string \<Rightarrow> pool_config \<Rightarrow> pool_config res" where
  "config_lines s c =
     (let (l, r, eof) = fgets (BUF_LEN - 1) s in
      bindE (config_line (cstr l) c) (\<lambda>c. if eof then Inr c else config_lines r c))"
  by pat_completeness auto
termination by (relation "measure (\<lambda>(s, c). length s)") (auto simp: BUF_LEN_def dest!: fgets_shorter[OF sym])

declare config_lines.simps [simp del]

definition loadConfigFile :: "string option \<Rightarrow> pool_config \<Rightarrow> (bool \<times> pool_config) res" where
  "loadConfigFile pf c =
     (case pf of None \<Rightarrow> Inr (False, c) | Some s \<Rightarrow> bindE (config_lines s c) (\<lambda>c. Inr (True, c)))"

section \<open>What a file of entries loads\<close>

definition entry :: "string \<times> string \<Rightarrow> string" where
  "entry kv = fst kv @ CHR ''='' # snd kv @ [CHR 0x0A]"

definition entry_ok :: "string \<times> string \<Rightarrow> bool" where
  "entry_ok kv \<longleftrightarrow> CHR ''='' \<notin> set (fst kv) \<and> CHR 0x0A \<notin> set (fst kv) \<and> CHR 0x0A \<notin> set (snd kv) \<and>
     NUL \<notin> set (fst kv) \<and> NUL \<notin> set (snd kv) \<and> length (fst kv) + length (snd kv) < 1022"

lemma str_find_first: "c \<notin> set a \<Longrightarrow> str_find (a @ c # b) c 0 = int (length a)"
  using find_index_append[of a "\<lambda>x. x = c" c b] by (force simp: str_find_def)

lemma config_line_entry:
  assumes "entry_ok kv"
  shows "config_line (entry kv) c = Inr (set_key (fst kv) (snd kv) c)"
proof -
  obtain k v where kv: "kv = (k, v)" by (cases kv)
  have k: "CHR ''='' \<notin> set k" "CHR 0x0A \<notin> set v" "length k + length v < 1022" using assms by (auto simp: entry_ok_def kv)
  have i: "str_find (entry kv) (CHR ''='') 0 = int (length k)"
    using str_find_first[OF k(1), of "v @ [CHR 0x0A]"] by (simp add: entry_def kv)
  have "find_index (\<lambda>x. x = CHR 0x0A) (CHR ''='' # v @ [CHR 0x0A]) = Suc (length v)"
    using find_index_append[of v "\<lambda>x. x = CHR 0x0A" "CHR 0x0A" "[]"] k(2) by auto
  then have e: "str_find (entry kv) (CHR 0x0A) (length k) = int (length k) + 1 + int (length v)"
    by (simp add: str_find_def entry_def kv)
  have n: "int_pos (int (length k)) = int (length k)" "int_pos (int (length k) + 1 + int (length v)) = int (length k) + 1 + int (length v)"
    using k(3) by (auto simp: int_pos_def npos_def)
  have "nat (int (length k) + 1) = Suc (length k)" by simp
  then show ?thesis
    using k(3) by (simp add: config_line_def i e n Let_def substr_def) (simp add: entry_def kv)
qed

lemma config_lines_entries:
  "\<forall>kv\<in>set kvs. entry_ok kv \<Longrightarrow>
   config_lines (concat (map entry kvs)) c = Inr (fold (\<lambda>kv. set_key (fst kv) (snd kv)) kvs c)"
proof (induction kvs arbitrary: c)
  case Nil
  show ?case
    by (subst config_lines.simps) (simp add: BUF_LEN_def numeral_nat config_line_def str_find_def int_pos_def cstr_def)
next
  case (Cons kv kvs)
  have ok: "entry_ok kv" using Cons.prems by simp
  define l where "l = fst kv @ CHR ''='' # snd kv"
  have l: "entry kv = l @ [CHR 0x0A]" "CHR 0x0A \<notin> set l" "NUL \<notin> set (entry kv)" "length l < 1023"
    using ok by (auto simp: l_def entry_def entry_ok_def)
  then have "fgets (BUF_LEN - 1) (concat (map entry (kv # kvs))) = (entry kv, concat (map entry kvs), False)"
    using fgets_line[of l 1023] by (simp add: BUF_LEN_def)
  then show ?case using Cons l(3)
    by (subst config_lines.simps) (simp add: config_line_entry[OF ok])
qed

text \<open>A field that one key sets, after a list of entries.\<close>

lemma field_kept:
  assumes "\<And>k v c. k \<noteq> key \<Longrightarrow> get (set_key k v c) = get c" and "key \<notin> fst ` set kvs"
  shows "get (fold (\<lambda>kv. set_key (fst kv) (snd kv)) kvs c) = get c"
  using assms(2) by (induction kvs arbitrary: c) (auto simp: assms(1))

lemma field_set:
  assumes "\<And>k v c. k \<noteq> key \<Longrightarrow> get (set_key k v c) = get c" "\<And>v c. get (set_key key v c) = f v"
    and "distinct (map fst kvs)" "(key, v) \<in> set kvs"
  shows "get (fold (\<lambda>kv. set_key (fst kv) (snd kv)) kvs c) = f v"
  using assms(3,4)
proof (induction kvs arbitrary: c)
  case (Cons kv kvs)
  then show ?case using field_kept[of key get, OF assms(1)] assms(2) by (cases "kv = (key, v)") (auto simp: rev_image_eqI)
qed simp

section \<open>Round trip\<close>

definition config_entries :: "pool_config \<Rightarrow> (string \<times> string) list" where
  "config_entries c = [(''ip'', m_ip c), (''port'', to_string (m_port c)), (''dbName'', m_dbName c),
     (''password'', m_password c), (''userName'', m_userName c), (''initSize'', to_string (m_initSize c)),
     (''maxIdleTime'', to_string (m_maxIdleTime c)), (''maxSize'', to_string (m_maxSize c)),
     (''connectionTimeOut'', to_string (m_connectionTimeOut c))]"

lemma distinct_keys_entries: "distinct (map fst (config_entries c))"
  by (simp add: config_entries_def)

lemma keys_of_entries: "mset kvs = mset (config_entries c) \<Longrightarrow> distinct (map fst kvs)"
  by (metis mset_map mset_eq_imp_distinct_iff distinct_keys_entries) 

lemma set_key_fields:
  "k \<noteq> ''ip'' \<Longrightarrow> m_ip (set_key k v c) = m_ip c" "m_ip (set_key ''ip'' v c) = v"
  "k \<noteq> ''port'' \<Longrightarrow> m_port (set_key k v c) = m_port c" "m_port (set_key ''port'' v c) = atoi v mod 65536"
  "k \<noteq> ''dbName'' \<Longrightarrow> m_dbName (set_key k v c) = m_dbName c" "m_dbName (set_key ''dbName'' v c) = v"
  "k \<noteq> ''password'' \<Longrightarrow> m_password (set_key k v c) = m_password c" "m_password (set_key ''password'' v c) = v"
  "k \<noteq> ''userName'' \<Longrightarrow> m_userName (set_key k v c) = m_userName c" "m_userName (set_key ''userName'' v c) = v"
  "k \<noteq> ''initSize'' \<Longrightarrow> m_initSize (set_key k v c) = m_initSize c" "m_initSize (set_key ''initSize'' v c) = atoi v"
  "k \<noteq> ''maxIdleTime'' \<Longrightarrow> m_maxIdleTime (set_key k v c) = m_maxIdleTime c" "m_maxIdleTime (set_key ''maxIdleTime'' v c) = atoi v"
  "k \<noteq> ''maxSize'' \<Longrightarrow> m_maxSize (set_key k v c) = m_maxSize c" "m_maxSize (set_key ''maxSize'' v c) = atoi v"
  "k \<noteq> ''connectionTimeOut'' \<Longrightarrow> m_connectionTimeOut (set_key k v c) = m_connectionTimeOut c"
  "m_connectionTimeOut (set_key ''connectionTimeOut'' v c) = atoi v"
  by (simp_all add: set_key_def)


definition demo_config :: pool_config where
  "demo_config = \<lparr>m_ip = ''10.0.0.1'', m_port = 3306, m_dbName = ''tickets'', m_password = ''a=b'', m_userName = ''root'',
     m_initSize = 2, m_maxIdleTime = 60, m_maxSize = 3, m_connectionTimeOut = 100\<rparr>"

lemma small_numerals: "to_string 3306 = ''3306''" "to_string 2 = ''2''" "to_string 60 = ''60''" "to_string 3 = ''3''" "to_string 100 = ''100''"
  by (simp_all add: to_string_def show_nat.simps digit_char_def char_of_def bit_iff_odd)


end
