(* ===== verification/Connection_Pool.thy ===== *)
theory Connection_Pool
  imports Pool_Config
begin

text \<open>
  The pool of database connections (\<^verbatim>\<open>src/server_service/dbConnectionPool.cpp\<close>). Connection objects
  live in a store and are named in the order of their creation. The code of the producing thread, of
  the scanning thread and of the callers runs under one mutex: each is a step, and a wait on the
  condition variable is the fault \<open>Blocked\<close> at the point where it starts to wait. Times are values
  of \<open>clock()\<close>; products of the settings are assumed to fit an \<open>int\<close>.
\<close>

section \<open>State\<close>

record Connection =
  conn_up :: bool
  m_aliveTime :: int

record ConnectionPool =
  config :: pool_config
  m_connectionQueue :: "nat list"
  m_connectionCnt :: int
  store_of :: "nat \<Rightarrow> Connection option"
  next_conn :: nat

definition blank_pool :: "pool_config \<Rightarrow> ConnectionPool" where
  "blank_pool c = \<lparr>config = c, m_connectionQueue = [], m_connectionCnt = 0, store_of = (\<lambda>_. None), next_conn = 0\<rparr>"

definition refreshAliveTime :: "int \<Rightarrow> nat \<Rightarrow> ConnectionPool \<Rightarrow> ConnectionPool res" where
  "refreshAliveTime now i p =
     (case store_of p i of
        None \<Rightarrow> Inl Dangling
      | Some c \<Rightarrow> Inr (p\<lparr>store_of := (store_of p)(i \<mapsto> c\<lparr>m_aliveTime := now\<rparr>)\<rparr>))"

definition getAliveTime :: "int \<Rightarrow> Connection \<Rightarrow> int" where
  "getAliveTime now c = now - m_aliveTime c"

definition push_conn :: "nat \<Rightarrow> ConnectionPool \<Rightarrow> ConnectionPool" where
  "push_conn i p = p\<lparr>m_connectionQueue := m_connectionQueue p @ [i], m_connectionCnt := m_connectionCnt p + 1\<rparr>"

section \<open>Operations\<close>

text \<open>
  A new connection: the result of \<open>connect\<close> (here \<open>up\<close>) is not used, and the pointer that is
  tested comes from \<open>new\<close>, so that a connection that failed enters the queue as well.
\<close>

definition new_conn :: "bool \<Rightarrow> int \<Rightarrow> ConnectionPool \<Rightarrow> ConnectionPool res" where
  "new_conn up now p =
     (let i = next_conn p;
          p = p\<lparr>next_conn := i + 1, store_of := (store_of p)(i \<mapsto> \<lparr>conn_up = up, m_aliveTime = 0\<rparr>)\<rparr>
      in bindE (refreshAliveTime now i p) (\<lambda>p. Inr (push_conn i p)))"

text \<open>The constructor; \<open>ups\<close> are the results of \<open>connect\<close>, one for each round of its loop.\<close>

definition new_pool :: "string option \<Rightarrow> bool list \<Rightarrow> int \<Rightarrow> ConnectionPool res" where
  "new_pool file ups now =
     bindE (loadConfigFile file blank_config) (\<lambda>(ok, c).
     if ok then foldE (\<lambda>up. new_conn up now) (take (nat (m_initSize c)) ups) (blank_pool c)
     else Inr (blank_pool c))"

definition produceConnectionTask :: "bool \<Rightarrow> int \<Rightarrow> ConnectionPool \<Rightarrow> ConnectionPool res" where
  "produceConnectionTask up now p =
     (if m_connectionQueue p \<noteq> [] then Inl Blocked
      else if m_connectionCnt p < m_maxSize (config p) then new_conn up now p
      else Inr p)"

text \<open>
  \<open>getConnection\<close> on the queue that it sees when it stops waiting: \<open>timeout\<close> says that it woke
  because the time was over. The result is \<^term>\<open>None\<close> for \<open>nullptr\<close>.
\<close>

definition getConnection :: "bool \<Rightarrow> ConnectionPool \<Rightarrow> (nat option \<times> ConnectionPool) res" where
  "getConnection timeout p =
     (case m_connectionQueue p of
        [] \<Rightarrow> if timeout then Inr (None, p) else Inl Blocked
      | i # q \<Rightarrow> Inr (Some i, p\<lparr>m_connectionQueue := q, m_connectionCnt := m_connectionCnt p - 1\<rparr>))"

text \<open>The deleter of the shared pointer.\<close>

definition give_back :: "int \<Rightarrow> nat \<Rightarrow> ConnectionPool \<Rightarrow> ConnectionPool res" where
  "give_back now i p = bindE (refreshAliveTime now i p) (\<lambda>p. Inr (push_conn i p))"

function scannerConnectionTask :: "int \<Rightarrow> ConnectionPool \<Rightarrow> ConnectionPool res" where
  "scannerConnectionTask now p =
     (if m_initSize (config p) < m_connectionCnt p then
        case m_connectionQueue p of
          [] \<Rightarrow> Inl Out_Of_Bounds
        | i # q \<Rightarrow>
            (case store_of p i of
               None \<Rightarrow> Inl Dangling
             | Some c \<Rightarrow>
                 if m_maxIdleTime (config p) * 1000 \<le> getAliveTime now c then
                   scannerConnectionTask now (p\<lparr>m_connectionQueue := q, m_connectionCnt := m_connectionCnt p - 1,
                     store_of := (store_of p)(i := None)\<rparr>)
                 else Inr p)
      else Inr p)"
  by pat_completeness auto
termination by (relation "measure (\<lambda>(n, p). length (m_connectionQueue p))") auto

declare scannerConnectionTask.simps [simp del]

section \<open>Runs\<close>

text \<open>
  A pool, the connections that the callers hold, and the time. Every operation of the code may come
  at any moment, a connection is given back once, by the caller that holds it.
\<close>

inductive pool_run :: "pool_config \<Rightarrow> ConnectionPool \<Rightarrow> nat set \<Rightarrow> int \<Rightarrow> bool" for c where
  start: "foldE (\<lambda>up. new_conn up now) ups (blank_pool c) = Inr p \<Longrightarrow> length ups = nat (m_initSize c) \<Longrightarrow> pool_run c p {} now"
| later: "pool_run c p held now \<Longrightarrow> now \<le> now' \<Longrightarrow> pool_run c p held now'"
| produced: "pool_run c p held now \<Longrightarrow> produceConnectionTask up now p = Inr p' \<Longrightarrow> pool_run c p' held now"
| got: "pool_run c p held now \<Longrightarrow> getConnection timeout p = Inr (Some i, p') \<Longrightarrow> pool_run c p' (insert i held) now"
| given: "pool_run c p held now \<Longrightarrow> i \<in> held \<Longrightarrow> give_back now i p = Inr p' \<Longrightarrow> pool_run c p' (held - {i}) now"
| scanned: "pool_run c p held now \<Longrightarrow> scannerConnectionTask now p = Inr p' \<Longrightarrow> pool_run c p' held now"

text \<open>The invariant, with the idle connections in the order in which they became idle.\<close>

definition alive_at :: "ConnectionPool \<Rightarrow> nat \<Rightarrow> int" where
  "alive_at p i = m_aliveTime (the (store_of p i))"

definition books_ok :: "pool_config \<Rightarrow> ConnectionPool \<Rightarrow> nat set \<Rightarrow> int \<Rightarrow> bool" where
  "books_ok c p held now \<longleftrightarrow> config p = c \<and> distinct (m_connectionQueue p) \<and>
     set (m_connectionQueue p) \<inter> held = {} \<and> (\<forall>i. (i \<in> set (m_connectionQueue p) \<or> i \<in> held) = (store_of p i \<noteq> None)) \<and>
     m_connectionCnt p = int (length (m_connectionQueue p)) \<and>
     (\<forall>i x. store_of p i = Some x \<longrightarrow> i < next_conn p \<and> m_aliveTime x \<le> now) \<and>
     sorted (map (alive_at p) (m_connectionQueue p))"

lemma books_okI:
  assumes "config p = c" "distinct (m_connectionQueue p)" "\<And>i. i \<in> set (m_connectionQueue p) \<Longrightarrow> i \<notin> held"
    and "\<And>i. i \<in> set (m_connectionQueue p) \<or> i \<in> held \<longleftrightarrow> store_of p i \<noteq> None"
    and "m_connectionCnt p = int (length (m_connectionQueue p))"
    and "\<And>i x. store_of p i = Some x \<Longrightarrow> i < next_conn p \<and> m_aliveTime x \<le> now"
    and "sorted (map (alive_at p) (m_connectionQueue p))"
  shows "books_ok c p held now"
  unfolding books_ok_def using assms by (intro conjI allI impI) blast+

lemma books_okD:
  assumes "books_ok c p held now"
  shows "config p = c" "distinct (m_connectionQueue p)" "i \<in> set (m_connectionQueue p) \<Longrightarrow> i \<notin> held"
    "i \<in> set (m_connectionQueue p) \<or> i \<in> held \<longleftrightarrow> store_of p i \<noteq> None"
    "m_connectionCnt p = int (length (m_connectionQueue p))"
    "store_of p i = Some x \<Longrightarrow> i < next_conn p \<and> m_aliveTime x \<le> now"
    "sorted (map (alive_at p) (m_connectionQueue p))"
  using assms unfolding books_ok_def by blast+

lemma pool_conn: "books_ok c p held now \<Longrightarrow> i \<in> set (m_connectionQueue p) \<or> i \<in> held \<Longrightarrow>
    \<exists>x. store_of p i = Some x \<and> i < next_conn p \<and> m_aliveTime x \<le> now \<and> alive_at p i = m_aliveTime x"
  using books_okD(4)[of c p held now i] books_okD(6)[of c p held now i] by (auto simp: alive_at_def)

text \<open>A connection that becomes idle now enters at the end.\<close>

lemma push_ok:
  assumes "books_ok c p held now" "i \<notin> set (m_connectionQueue p)" "m_aliveTime x = now" "i < n" "next_conn p \<le> n"
  shows "books_ok c (push_conn i (p\<lparr>next_conn := n, store_of := (store_of p)(i \<mapsto> x)\<rparr>)) (held - {i}) now"
proof -
  define r where "r = push_conn i (p\<lparr>next_conn := n, store_of := (store_of p)(i \<mapsto> x)\<rparr>)"
  have f: "m_connectionQueue r = m_connectionQueue p @ [i]" "store_of r = (store_of p)(i \<mapsto> x)" "next_conn r = n" "config r = config p"
    "m_connectionCnt r = m_connectionCnt p + 1"
    by (simp_all add: r_def push_conn_def)
  note d = books_okD[OF assms(1)]
  have a: "alive_at r j = (if j = i then now else alive_at p j)" for j
    using assms(3) by (simp add: alive_at_def f)
  have m: "map (alive_at r) (m_connectionQueue r) = map (alive_at p) (m_connectionQueue p) @ [now]"
    using assms(2) by (auto simp: a f)
  have "books_ok c r (held - {i}) now"
  proof (rule books_okI)
    show "sorted (map (alive_at r) (m_connectionQueue r))"
      unfolding m using d(7) pool_conn[OF assms(1)] by (fastforce simp: sorted_append)
    show "j \<in> set (m_connectionQueue r) \<or> j \<in> held - {i} \<longleftrightarrow> store_of r j \<noteq> None" for j
      using d(4)[of j] by (auto simp: f)
    show "store_of r j = Some y \<Longrightarrow> j < next_conn r \<and> m_aliveTime y \<le> now" for j y
      using d(6)[of j y] assms(3-5) by (auto simp: f split: if_splits)
  qed (use assms(2) d(1,2,3,5) in \<open>auto simp: f\<close>)
  then show ?thesis by (simp only: r_def)
qed

lemma new_conn_ok:
  assumes "books_ok c p held now"
  shows "\<exists>p'. new_conn up now p = Inr p' \<and> books_ok c p' held now \<and>
     m_connectionQueue p' = m_connectionQueue p @ [next_conn p] \<and> store_of p' = (store_of p)(next_conn p \<mapsto> \<lparr>conn_up = up, m_aliveTime = now\<rparr>)"
proof -
  have h: "next_conn p \<notin> set (m_connectionQueue p)" "held - {next_conn p} = held"
    using pool_conn[OF assms, of "next_conn p"] by auto
  from push_ok[OF assms h(1), of "\<lparr>conn_up = up, m_aliveTime = now\<rparr>" "next_conn p + 1"] h(2)
  show ?thesis by (simp add: new_conn_def refreshAliveTime_def Let_def) (simp add: push_conn_def)
qed

lemma give_back_ok:
  assumes "books_ok c p held now" "i \<in> held"
  shows "\<exists>p'. give_back now i p = Inr p' \<and> books_ok c p' (held - {i}) now \<and>
     m_connectionQueue p' = m_connectionQueue p @ [i]"
proof -
  obtain x where x: "store_of p i = Some x" "i < next_conn p" using pool_conn[OF assms(1), of i] assms(2) by auto
  have i: "i \<notin> set (m_connectionQueue p)" "i < next_conn p" using books_okD(3)[OF assms(1), of i] assms(2) x(2) by auto
  from push_ok[OF assms(1) i(1) _ i(2), of "x\<lparr>m_aliveTime := now\<rparr>"] x
  show ?thesis by (simp add: give_back_def refreshAliveTime_def) (auto simp: push_conn_def)
qed

text \<open>The first idle connection leaves the queue: for a caller, or for good.\<close>

lemma pop_ok:
  assumes "books_ok c p held now" "m_connectionQueue p = i # q"
  shows "books_ok c (p\<lparr>m_connectionQueue := q, m_connectionCnt := m_connectionCnt p - 1\<rparr>) (insert i held) now"
    "books_ok c (p\<lparr>m_connectionQueue := q, m_connectionCnt := m_connectionCnt p - 1, store_of := (store_of p)(i := None)\<rparr>) held now"
proof -
  note d = books_okD[OF assms(1)]
  have i: "i \<notin> set q" "i \<notin> held" using d(2) d(3)[of i] assms(2) by auto
  have s: "sorted (map (alive_at p) q)" using d(7) assms(2) by simp
  let ?a = "p\<lparr>m_connectionQueue := q, m_connectionCnt := m_connectionCnt p - 1\<rparr>"
  let ?b = "p\<lparr>m_connectionQueue := q, m_connectionCnt := m_connectionCnt p - 1, store_of := (store_of p)(i := None)\<rparr>"
  have m: "map (alive_at ?a) (m_connectionQueue ?a) = map (alive_at p) q"
    "map (alive_at ?b) (m_connectionQueue ?b) = map (alive_at p) q"
    using i(1) by (auto simp: alive_at_def)
  show "books_ok c ?a (insert i held) now"
    by (rule books_okI) (unfold m, use d(1-6) i s assms(2) in auto)
  show "books_ok c ?b held now"
    by (rule books_okI) (unfold m, use d(1-6) i s assms(2) in \<open>auto split: if_splits\<close>)
qed

text \<open>The scanner deletes the connections that are idle for too long, as many as are above the initial number.\<close>

definition expired :: "int \<Rightarrow> ConnectionPool \<Rightarrow> nat \<Rightarrow> bool" where
  "expired now p i \<longleftrightarrow> m_maxIdleTime (config p) * 1000 \<le> now - alive_at p i"

lemma scanner_ok:
  assumes "books_ok c p held now" "0 \<le> m_initSize c"
  shows "\<exists>p'. scannerConnectionTask now p = Inr p' \<and> books_ok c p' held now \<and>
     m_connectionQueue p' = drop (min (length (takeWhile (expired now p) (m_connectionQueue p)))
       (length (m_connectionQueue p) - nat (m_initSize c))) (m_connectionQueue p)"
  using assms(1)
proof (induction now p rule: scannerConnectionTask.induct)
  case (1 now p)
  show ?case
  proof (cases "m_initSize c < int (length (m_connectionQueue p))")
    case False
    then show ?thesis using 1(2) by (subst scannerConnectionTask.simps) (auto simp: books_ok_def)
  next
    case long: True
    then obtain i q where q: "m_connectionQueue p = i # q" using assms(2) by (cases "m_connectionQueue p") auto
    have "store_of p i \<noteq> None" using 1(2) q unfolding books_ok_def by (metis list.set_intros(1))
    then obtain x where x: "store_of p i = Some x" by auto
    have e: "expired now p i \<longleftrightarrow> m_maxIdleTime (config p) * 1000 \<le> getAliveTime now x"
      using x by (simp add: expired_def alive_at_def getAliveTime_def)
    have cnt: "m_initSize (config p) < m_connectionCnt p" using 1(2) long by (simp add: books_ok_def)
    show ?thesis
    proof (cases "expired now p i")
      case False
      then show ?thesis using 1(2) q x e cnt by (subst scannerConnectionTask.simps) simp
    next
      case True
      let ?p = "p\<lparr>m_connectionQueue := q, m_connectionCnt := m_connectionCnt p - 1, store_of := (store_of p)(i := None)\<rparr>"
      have ok: "books_ok c ?p held now" by (rule pop_ok(2)[OF 1(2) q])
      have tw: "takeWhile (expired now ?p) q = takeWhile (expired now p) q"
        using books_okD(2)[OF 1(2)] q by (intro takeWhile_cong) (auto simp: expired_def alive_at_def)
      have "scannerConnectionTask now p = scannerConnectionTask now ?p"
        using q x e True cnt by (subst scannerConnectionTask.simps) simp
      moreover
      obtain p' where p': "scannerConnectionTask now ?p = Inr p'" "books_ok c p' held now"
        "m_connectionQueue p' = drop (min (length (takeWhile (expired now ?p) q)) (length q - nat (m_initSize c))) q"
        using 1(1)[OF cnt q x _ ok] e True by auto
      moreover have "length (m_connectionQueue p) - nat (m_initSize c) = Suc (length q - nat (m_initSize c))"
        using long assms(2) q by simp
      moreover have "length (takeWhile (expired now p) (m_connectionQueue p)) = Suc (length (takeWhile (expired now p) q))"
        using True q by simp
      ultimately show ?thesis by (intro exI[of _ p']) (simp only: q tw min_Suc_Suc drop_Suc_Cons simp_thms)
    qed
  qed
qed

section \<open>What holds in every run\<close>

lemma blank_books_ok: "books_ok c (blank_pool c) {} now"
  by (rule books_okI) (simp_all add: blank_pool_def)

lemma new_conns_ok:
  "books_ok c p held now \<Longrightarrow> \<exists>p'. foldE (\<lambda>up. new_conn up now) ups p = Inr p' \<and> books_ok c p' held now \<and>
     length (m_connectionQueue p') = length (m_connectionQueue p) + length ups"
proof (induction ups arbitrary: p)
  case (Cons up ups)
  from new_conn_ok[OF Cons.prems, of up] obtain p1 where p1: "new_conn up now p = Inr p1" "books_ok c p1 held now"
    "length (m_connectionQueue p1) = length (m_connectionQueue p) + 1" by auto
  from Cons.IH[OF p1(2)] p1 show ?case by auto
qed simp

lemma produce_ok:
  assumes "books_ok c p held now" "produceConnectionTask up now p = Inr p'"
  shows "books_ok c p' held now"
  using assms new_conn_ok[OF assms(1), of up] by (auto simp: produceConnectionTask_def split: if_splits)

lemma get_ok:
  assumes "books_ok c p held now" "getConnection timeout p = Inr (Some i, p')"
  shows "books_ok c p' (insert i held) now"
  using assms pop_ok(1)[OF assms(1)] by (auto simp: getConnection_def split: list.splits if_splits)

lemma pool_later: "books_ok c p held now \<Longrightarrow> now \<le> now' \<Longrightarrow> books_ok c p held now'"
  unfolding books_ok_def by (meson order_trans)

lemma pool_run_ok: "pool_run c p held now \<Longrightarrow> 0 \<le> m_initSize c \<Longrightarrow> books_ok c p held now"
proof (induction rule: pool_run.induct)
  case (start now ups p)
  then show ?case using new_conns_ok[OF blank_books_ok[of c now], of ups] by auto
next
  case (given p held now i p')
  then show ?case using give_back_ok[of c p held now i] by auto
next
  case (scanned p held now p')
  then show ?case using scanner_ok[of c p held now] by auto
qed (auto intro: produce_ok get_ok pool_later)

text \<open>C19: The pool keeps its books. Whatever the callers, the producer and the scanner do, no connection is
  lent twice, lost, or used after it was deleted: every connection in the store is either idle in the
  queue, once, or held by one caller, the counter is the number of idle ones, and giving back, creating
  and scanning succeed.\<close>

theorem connections_accounted:
  assumes "pool_run c p held now" "0 \<le> m_initSize c"
  shows "distinct (m_connectionQueue p) \<and> set (m_connectionQueue p) \<inter> held = {} \<and>
     dom (store_of p) = set (m_connectionQueue p) \<union> held \<and> m_connectionCnt p = int (length (m_connectionQueue p)) \<and>
     (\<forall>i\<in>held. \<exists>p'. give_back now i p = Inr p') \<and> (\<exists>p'. scannerConnectionTask now p = Inr p') \<and>
     (\<forall>up. m_connectionQueue p = [] \<longrightarrow> (\<exists>p'. produceConnectionTask up now p = Inr p'))"
proof -
  note ok = pool_run_ok[OF assms]
  have "dom (store_of p) = set (m_connectionQueue p) \<union> held" using books_okD(4)[OF ok] by blast
  moreover have "\<exists>p'. produceConnectionTask up now p = Inr p'" if "m_connectionQueue p = []" for up
    using that new_conn_ok[OF ok, of up] by (auto simp: produceConnectionTask_def)
  ultimately show ?thesis
    using books_okD(2,3,5)[OF ok] give_back_ok[OF ok] scanner_ok[OF ok assms(2)] by blast
qed

text \<open>Two initial connections are lent, a third is made, and all three become idle again.\<close>

definition demo_pool :: ConnectionPool where
  "demo_pool = \<lparr>config = demo_config, m_connectionQueue = [2, 0, 1], m_connectionCnt = 3,
     store_of = [0 \<mapsto> \<lparr>conn_up = True, m_aliveTime = 10\<rparr>, 1 \<mapsto> \<lparr>conn_up = True, m_aliveTime = 10\<rparr>,
       2 \<mapsto> \<lparr>conn_up = False, m_aliveTime = 10\<rparr>], next_conn = 3\<rparr>"

lemma demo_pool_run: "pool_run demo_config demo_pool {} 70000"
proof -
  have 1: "foldE (\<lambda>up. new_conn up 5) [True, True] (blank_pool demo_config) = Inr \<lparr>config = demo_config,
      m_connectionQueue = [0, 1], m_connectionCnt = 2, store_of = [0 \<mapsto> \<lparr>conn_up = True, m_aliveTime = 5\<rparr>, 1 \<mapsto> \<lparr>conn_up = True, m_aliveTime = 5\<rparr>],
      next_conn = 2\<rparr>" (is "_ = Inr ?p")
    by (simp add: new_conn_def blank_pool_def refreshAliveTime_def push_conn_def Let_def)
  have "pool_run demo_config ?p {} 5" by (rule pool_run.start[OF 1]) (simp add: demo_config_def)
  from pool_run.got[OF this, of False] have "pool_run demo_config (?p\<lparr>m_connectionQueue := [1], m_connectionCnt := 1\<rparr>) {0} 5"
    by (simp add: getConnection_def)
  from pool_run.got[OF this, of False] have "pool_run demo_config (?p\<lparr>m_connectionQueue := [], m_connectionCnt := 0\<rparr>) {1, 0} 5"
    by (simp add: getConnection_def)
  from pool_run.later[OF this, of 10] have "pool_run demo_config (?p\<lparr>m_connectionQueue := [], m_connectionCnt := 0\<rparr>) {1, 0} 10"
    by simp
  from pool_run.produced[OF this, of False] have "pool_run demo_config (?p\<lparr>m_connectionQueue := [2], m_connectionCnt := 1,
      store_of := (store_of ?p)(2 \<mapsto> \<lparr>conn_up = False, m_aliveTime = 10\<rparr>), next_conn := 3\<rparr>) {1, 0} 10"
    by (simp add: produceConnectionTask_def new_conn_def refreshAliveTime_def push_conn_def Let_def demo_config_def)
  from pool_run.given[OF this, of 0] have "pool_run demo_config (?p\<lparr>m_connectionQueue := [2, 0], m_connectionCnt := 2,
      store_of := (store_of ?p)(2 \<mapsto> \<lparr>conn_up = False, m_aliveTime = 10\<rparr>, 0 \<mapsto> \<lparr>conn_up = True, m_aliveTime = 10\<rparr>), next_conn := 3\<rparr>) ({1, 0} - {0}) 10"
    by (simp add: give_back_def refreshAliveTime_def push_conn_def)
  from pool_run.given[OF this, of 1] have "pool_run demo_config demo_pool ({1, 0} - {0} - {1}) 10"
    by (simp add: give_back_def refreshAliveTime_def push_conn_def demo_pool_def fun_upd_twist)
  then show ?thesis using pool_run.later[of demo_config demo_pool "{}" 10 70000] by (simp add: insert_Diff_if)
qed

theorem connections_accounted_witness:
  "\<exists>p'. scannerConnectionTask 70000 demo_pool = Inr p'"
  using connections_accounted[OF demo_pool_run] by (auto simp: demo_config_def)



section \<open>The limit\<close>

lemma take_all:
  "pool_run c p held now \<Longrightarrow> 0 \<le> m_initSize c \<Longrightarrow> finite held \<Longrightarrow>
   \<exists>p' held'. pool_run c p' held' now \<and> m_connectionQueue p' = [] \<and> finite held' \<and>
     card held' = card held + length (m_connectionQueue p)"
proof (induction "m_connectionQueue p" arbitrary: p held)
  case (Cons i q)
  have "getConnection False p = Inr (Some i, p\<lparr>m_connectionQueue := q, m_connectionCnt := m_connectionCnt p - 1\<rparr>)"
    by (simp add: getConnection_def flip: Cons.hyps(2))
  then have r: "pool_run c (p\<lparr>m_connectionQueue := q, m_connectionCnt := m_connectionCnt p - 1\<rparr>) (insert i held) now"
    by (rule pool_run.got[OF Cons.prems(1)])
  have "i \<notin> held" using books_okD(3)[OF pool_run_ok[OF Cons.prems(1,2)], of i] by (simp flip: Cons.hyps(2))
  then show ?case using Cons.hyps(1)[OF _ r] Cons.prems(2,3) by (simp flip: Cons.hyps(2))
next
  case Nil
  then show ?case by (intro exI[of _ p] exI[of _ held]) simp
qed

text \<open>The maximum is not one. The counter that is compared with \<open>maxSize\<close> counts the idle
  connections, and a connection that is lent is not idle: with a maximum of 1 any number of connections
  can be open at the same time, because the producer makes another one whenever the queue is empty.\<close>

lemma maxSize_not_a_limit:
  assumes "0 \<le> m_initSize c" "1 \<le> m_maxSize c" "m_initSize c \<le> int n"
  shows "\<exists>p held. pool_run c p held 0 \<and> m_connectionQueue p = [] \<and> finite held \<and> card held = n"
proof -
  have "nat (m_initSize c) \<le> n" using assms(3) by simp
  then show ?thesis
  proof (induction n rule: dec_induct)
    case base
    obtain p where p: "foldE (\<lambda>up. new_conn up 0) (replicate (nat (m_initSize c)) True) (blank_pool c) = Inr p"
      "length (m_connectionQueue p) = nat (m_initSize c)"
      using new_conns_ok[OF blank_books_ok[of c 0], of "replicate (nat (m_initSize c)) True"] by (auto simp: blank_pool_def)
    from take_all[OF pool_run.start[OF p(1)] assms(1)] p(2) show ?case by auto
  next
    case (step n)
    then obtain p held where p: "pool_run c p held 0" "m_connectionQueue p = []" "finite held" "card held = n" by auto
    note ok = pool_run_ok[OF p(1) assms(1)]
    obtain p' where p': "new_conn True 0 p = Inr p'" "m_connectionQueue p' = [next_conn p]"
      using new_conn_ok[OF ok, of True] p(2) by auto
    have "produceConnectionTask True 0 p = Inr p'"
      using p(2) p'(1) books_okD(1,5)[OF ok] assms(2) by (simp add: produceConnectionTask_def)
    from take_all[OF pool_run.produced[OF p(1) this] assms(1) p(3)] p(4) p'(2) show ?case by simp
  qed
qed

lemma maxSize_not_a_limit_witness:
  "\<exists>p held. pool_run (demo_config\<lparr>m_maxSize := 1\<rparr>) p held 0 \<and> m_connectionQueue p = [] \<and> finite held \<and> card held = 1000"
  by (rule maxSize_not_a_limit) (simp_all add: demo_config_def)

text \<open>A file without the key \<open>connectionTimeOut\<close>, such as the one that is shipped, makes every wait
  for a connection end at once: the field keeps the 0 of a static object.\<close>

lemma missing_timeout:
  assumes "\<forall>kv\<in>set kvs. entry_ok kv" "''connectionTimeOut'' \<notin> fst ` set kvs"
  shows "\<exists>c. loadConfigFile (Some (concat (map entry kvs))) blank_config = Inr (True, c) \<and> m_connectionTimeOut c = 0"
  using config_lines_entries[OF assms(1), of blank_config]
    field_kept[where get = m_connectionTimeOut, OF set_key_fields(17) assms(2), of blank_config]
  by (simp add: loadConfigFile_def) (simp add: blank_config_def)

lemma missing_timeout_witness:
  "\<exists>c. loadConfigFile (Some (concat (map (\<lambda>k. entry (k, [])) [''ip'', ''port'', ''dbName'', ''password'', ''userName'',
     ''initSize'', ''maxIdleTime'', ''maxSize'']))) blank_config = Inr (True, c) \<and> m_connectionTimeOut c = 0"
  using missing_timeout[of "map (\<lambda>k. (k, [])) [''ip'', ''port'', ''dbName'', ''password'', ''userName'', ''initSize'', ''maxIdleTime'', ''maxSize'']"]
  by (simp add: entry_ok_def)

end
