(* ===== verification/Ticket_Views.thy ===== *)
theory Ticket_Views
  imports Framing Http_Helper
begin

text \<open>
  The requests of the ticket server (\<^verbatim>\<open>src/server_service/view.cpp\<close>, \<^verbatim>\<open>Connection.cpp\<close> and
  \<^verbatim>\<open>controller.cpp\<close>). The data base is a library: what it answers to the text of a statement is the
  parameter \<open>mysql\<close>, over an arbitrary type of its states. JSON is another one. What the views do with
  both is here statement by statement, and the texts sent to the data base and the frames written to
  the connection are logged in order.
\<close>

section \<open>Libraries\<close>

text \<open>
  \<open>my_query\<close> is \<open>mysql_query\<close> with \<open>mysql_store_result\<close>: \<^term>\<open>None\<close> for a null result, otherwise the
  rows, a field being \<^term>\<open>None\<close> for NULL. \<open>my_update\<close> tells whether the statement succeeded.
\<close>

record 'd mysql =
  my_query :: "string \<Rightarrow> 'd \<Rightarrow> string option list list option \<times> 'd"
  my_update :: "string \<Rightarrow> 'd \<Rightarrow> bool \<times> 'd"

text \<open>
  \<open>v[key].asString()\<close>, \<open>asCString()\<close> and \<open>asInt()\<close>, which may throw, and \<open>toStyledString()\<close> of the object with
  the members \<open>client_sock\<close>, \<open>pack_id\<close> and \<open>message\<close>.
\<close>

record 'v request_lib =
  r_parse :: "string \<Rightarrow> 'v option"
  r_string :: "string \<Rightarrow> 'v \<Rightarrow> string res"
  r_cstring :: "string \<Rightarrow> 'v \<Rightarrow> string res"
  r_int :: "string \<Rightarrow> 'v \<Rightarrow> int res"
  r_reply :: "int \<Rightarrow> int \<Rightarrow> string \<Rightarrow> string"

record 'd session =
  db :: 'd
  sent :: "string list"
  written :: "string list"

section \<open>Statements and replies\<close>

definition query :: "'d mysql \<Rightarrow> string \<Rightarrow> 'd session \<Rightarrow> string option list list option \<times> 'd session" where
  "query D sql s = (let (r, d) = my_query D (cstr sql) (db s) in (r, s\<lparr>db := d, sent := sent s @ [cstr sql]\<rparr>))"

definition update :: "'d mysql \<Rightarrow> string \<Rightarrow> 'd session \<Rightarrow> bool \<times> 'd session" where
  "update D sql s = (let (r, d) = my_update D (cstr sql) (db s) in (r, s\<lparr>db := d, sent := sent s @ [cstr sql]\<rparr>))"

text \<open>\<open>head.length\<close> is the \<open>strlen\<close> of the text, and as many bytes of it follow the head.\<close>

definition reply :: "(string \<Rightarrow> string) \<Rightarrow> string \<Rightarrow> 'd session \<Rightarrow> 'd session" where
  "reply res msg s = s\<lparr>written := written s @ [frame_of (cstr (res msg))]\<rparr>"

text \<open>\<open>sprintf\<close> into an array of \<open>SQL_LEN\<close> bytes.\<close>

definition sql_text :: "string \<Rightarrow> string res" where
  "sql_text s = (if length s < SQL_LEN then Inr s else Inl Out_Of_Bounds)"

text \<open>\<open>std::string(mysql_fetch_row(r)[i])\<close>\<close>

definition first_row :: "string option list list \<Rightarrow> nat \<Rightarrow> string res" where
  "first_row rows i =
     (case rows of
        [] \<Rightarrow> Inl Null_Deref
      | r # _ \<Rightarrow> if i < length r then (case r ! i of None \<Rightarrow> Inl Null_Deref | Some x \<Rightarrow> Inr (cstr x)) else Inl Out_Of_Bounds)"

text \<open>The comparison \<open><\<close> of two \<open>std::string\<close> objects.\<close>

fun str_less :: "string \<Rightarrow> string \<Rightarrow> bool" where
  "str_less s [] \<longleftrightarrow> False"
| "str_less [] (c # t) \<longleftrightarrow> True"
| "str_less (b # s) (c # t) \<longleftrightarrow> (of_char b :: nat) < of_char c \<or> b = c \<and> str_less s t"

text \<open>The double quote around values, and the two replies with an apostrophe.\<close>

abbreviation dq :: string where "dq \<equiv> [CHR 0x22]"

definition none_text :: string where
  "none_text = ''You haven'' @ CHR 0x27 # ''t get a ticket''"

definition again_text :: string where
  "again_text = ''You have get a ticket, Please don'' @ CHR 0x27 # ''t try again''"

definition verify_sql :: "string \<Rightarrow> string \<Rightarrow> string" where
  "verify_sql name pass_word = ''select * from worker_information where workername='' @ dq @ cstr name @ dq @
     '' and password='' @ dq @ cstr pass_word @ dq @ '';''"

text \<open>
  The check of the user, the same statements in the three views. \<open>con\<close> is the connection of the pool,
  which may be \<open>nullptr\<close>. The flag tells whether the view goes on.
\<close>

definition verify_user :: "'d mysql \<Rightarrow> bool \<Rightarrow> (string \<Rightarrow> string) \<Rightarrow> string \<Rightarrow> string \<Rightarrow> 'd session \<Rightarrow> (bool \<times> 'd session) res" where
  "verify_user D con res name pass_word s =
     bindE (sql_text (verify_sql name pass_word)) (\<lambda>verify.
     bindE (guardE Null_Deref con) (\<lambda>_.
     case query D verify s of
       (None, s) \<Rightarrow> Inr (False, reply res ''error'' s)
     | (Some rows, s) \<Rightarrow>
         if rows = [] then Inr (False, reply res ''Incorrect user name or password'' s) else Inr (True, s)))"

section \<open>Inquiry\<close>

definition ticket_sql :: "string \<Rightarrow> string \<Rightarrow> string" where
  "ticket_sql task name = ''select * from '' @ cstr task @ ''_table where workername='' @ dq @ cstr name @ dq @ '';''"

text \<open>\<open>strcat(a, x)\<close> on \<open>char a[] = "Your Ticket Number is "\<close>: the array has room for its own text only.\<close>

definition ticket_message :: "string \<Rightarrow> string res" where
  "ticket_message x = (if x = [] then Inr ''Your Ticket Number is '' else Inl Out_Of_Bounds)"

definition inquiryView :: "'d mysql \<Rightarrow> 'v request_lib \<Rightarrow> bool \<Rightarrow> 'v \<Rightarrow> 'd session \<Rightarrow> 'd session res" where
  "inquiryView D J con v s =
     bindE (r_string J ''name'' v) (\<lambda>name.
     bindE (r_string J ''password'' v) (\<lambda>pass_word.
     bindE (r_int J ''client_sock'' v) (\<lambda>cs.
     bindE (r_int J ''pack_id'' v) (\<lambda>pack.
     let res = r_reply J cs pack in
     bindE (verify_user D con res name pass_word s) (\<lambda>(ok, s).
     if \<not> ok then Inr s
     else
       bindE (r_string J ''task'' v) (\<lambda>task.
       bindE (sql_text (ticket_sql task name)) (\<lambda>sql.
       case query D sql s of
         (None, s) \<Rightarrow> Inr (reply res ''error'' s)
       | (Some rows, s) \<Rightarrow>
           if rows = [] then Inr (reply res none_text s)
           else
             bindE (first_row rows 1) (\<lambda>x.
             bindE (ticket_message x) (\<lambda>msg. Inr (reply res msg s))))))))))"

section \<open>Scramble\<close>

definition start_sql :: "string \<Rightarrow> string" where
  "start_sql task = ''select start_time from task where task_name='' @ dq @ cstr task @ dq @ '';''"

text \<open>The time of the task; \<open>now\<close> is the local time as \<open>strftime\<close> prints it.\<close>

definition scramble_time :: "'d mysql \<Rightarrow> (string \<Rightarrow> string) \<Rightarrow> string \<Rightarrow> string \<Rightarrow> 'd session \<Rightarrow> (bool \<times> 'd session) res" where
  "scramble_time D res now task s =
     bindE (sql_text (start_sql task)) (\<lambda>quiry_time.
     case query D quiry_time s of
       (None, s) \<Rightarrow> Inr (False, reply res ''error'' s)
     | (Some rows, s) \<Rightarrow>
         bindE (first_row rows 0) (\<lambda>task_s_time.
         if str_less now task_s_time
         then Inr (False, reply res (''The start of the scramble for tickets is '' @ task_s_time) s)
         else Inr (True, s)))"

definition give_up :: "'d mysql \<Rightarrow> (string \<Rightarrow> string) \<Rightarrow> string \<Rightarrow> 'd session \<Rightarrow> 'd session" where
  "give_up D res msg s = reply res msg (snd (update D ''rollback;'' s))"

definition scramble_begin :: "'d mysql \<Rightarrow> (string \<Rightarrow> string) \<Rightarrow> string \<Rightarrow> string \<Rightarrow> 'd session \<Rightarrow> (bool \<times> 'd session) res" where
  "scramble_begin D res name task s =
     (case update D ''begin;'' s of
        (False, s) \<Rightarrow> Inr (False, reply res ''error'' s)
      | (True, s) \<Rightarrow>
          bindE (sql_text (ticket_sql task name)) (\<lambda>sql2.
          case query D sql2 s of
            (None, s) \<Rightarrow> Inr (False, give_up D res ''error'' s)
          | (Some rows, s) \<Rightarrow>
              if length rows = 1 then Inr (False, give_up D res again_text s)
              else Inr (True, s)))"

definition lock_sql :: "string \<Rightarrow> string" where
  "lock_sql task = ''select * from task where task_name='' @ dq @ cstr task @ dq @ '' for update;''"

definition take_sql :: "string \<Rightarrow> string" where
  "take_sql task = ''update task set remain_number=remain_number-1 where task_name='' @ dq @ cstr task @ dq @ '';''"

definition insert_sql :: "string \<Rightarrow> string \<Rightarrow> int \<Rightarrow> string" where
  "insert_sql task name n = ''insert into  '' @ cstr task @ ''_table values('' @ dq @ cstr name @ dq @ '', '' @ to_string n @ '');''"

text \<open>
  The ticket itself. The numbers come from columns of type \<open>int\<close>; their difference is assumed to
  fit an \<open>int\<close>.
\<close>

definition scramble_take :: "'d mysql \<Rightarrow> (string \<Rightarrow> string) \<Rightarrow> string \<Rightarrow> string \<Rightarrow> 'd session \<Rightarrow> 'd session res" where
  "scramble_take D res name task s =
     bindE (sql_text (lock_sql task)) (\<lambda>sql4.
     case query D sql4 s of
       (None, s) \<Rightarrow> Inr (give_up D res ''error'' s)
     | (Some rows, s) \<Rightarrow>
         bindE (bindE (first_row rows 2) stoi) (\<lambda>total_number.
         bindE (bindE (first_row rows 3) stoi) (\<lambda>remain_number.
         if remain_number = 0 then Inr (give_up D res ''no ticket'' s)
         else
           bindE (sql_text (take_sql task)) (\<lambda>sql6.
           case update D sql6 s of
             (False, s) \<Rightarrow> Inr (give_up D res ''error'' s)
           | (True, s) \<Rightarrow>
               bindE (sql_text (insert_sql task name (total_number - remain_number + 1))) (\<lambda>sql7.
               case update D sql7 s of
                 (False, s) \<Rightarrow> Inr (give_up D res ''error'' s)
               | (True, s) \<Rightarrow>
                   (case update D ''commit;'' s of
                      (False, s) \<Rightarrow> Inr (give_up D res ''error'' s)
                    | (True, s) \<Rightarrow> Inr (reply res ''success'' s)))))))"

definition ScrambleView :: "'d mysql \<Rightarrow> 'v request_lib \<Rightarrow> bool \<Rightarrow> string \<Rightarrow> 'v \<Rightarrow> 'd session \<Rightarrow> 'd session res" where
  "ScrambleView D J con now v s =
     bindE (r_string J ''name'' v) (\<lambda>name.
     bindE (r_string J ''password'' v) (\<lambda>pass_word.
     bindE (r_string J ''task'' v) (\<lambda>task.
     bindE (r_string J ''start_time'' v) (\<lambda>start_time.
     bindE (r_int J ''client_sock'' v) (\<lambda>cs.
     bindE (r_int J ''pack_id'' v) (\<lambda>pack.
     let res = r_reply J cs pack in
     bindE (verify_user D con res name pass_word s) (\<lambda>(ok, s).
     if \<not> ok then Inr s
     else bindE (scramble_time D res now task s) (\<lambda>(ok, s).
     if \<not> ok then Inr s
     else bindE (scramble_begin D res name task s) (\<lambda>(ok, s).
     if \<not> ok then Inr s
     else scramble_take D res name task s)))))))))"

section \<open>New tasks\<close>

text \<open>\<open>while (!update(rollback)) {}\<close>\<close>

partial_function (option) roll_back :: "'d mysql \<Rightarrow> 'd session \<Rightarrow> 'd session option" where
  "roll_back D s = (case update D ''rollback;'' s of (ok, s) \<Rightarrow> if ok then Some s else roll_back D s)"

definition roll_back_reply :: "'d mysql \<Rightarrow> (string \<Rightarrow> string) \<Rightarrow> 'd session \<Rightarrow> 'd session res" where
  "roll_back_reply D res s = (case roll_back D s of None \<Rightarrow> Inl Diverges | Some s \<Rightarrow> Inr (reply res ''error'' s))"

definition level_sql :: "string \<Rightarrow> string" where
  "level_sql name = ''select count(*) from worker_information where workername='' @ dq @ name @ dq @ '' and level>=3;''"

definition task_sql :: "string \<Rightarrow> string \<Rightarrow> int \<Rightarrow> string" where
  "task_sql task_name start_time n =
     ''insert into task (task_name, start_time, Totoal_number, remain_number) values ('' @ dq @ cstr task_name @ dq @ '', '' @
     dq @ cstr start_time @ dq @ '', '' @ to_string n @ '', '' @ to_string n @ '');''"

definition table_sql :: "string \<Rightarrow> string" where
  "table_sql task_name = ''create table '' @ cstr task_name @
     ''_table (workername varchar(50), ticket_number int default NULL, primary key(workername));''"

definition create_task :: "'d mysql \<Rightarrow> 'v request_lib \<Rightarrow> (string \<Rightarrow> string) \<Rightarrow> 'v \<Rightarrow> 'd session \<Rightarrow> 'd session res" where
  "create_task D J res v s =
     (case update D ''begin;'' s of
        (False, s) \<Rightarrow> Inr (reply res ''error'' s)
      | (True, s) \<Rightarrow>
          bindE (r_string J ''task_name'' v) (\<lambda>task_name.
          bindE (r_string J ''start_time'' v) (\<lambda>start_time.
          bindE (r_int J ''Total_number'' v) (\<lambda>n.
          bindE (sql_text (task_sql task_name start_time n)) (\<lambda>sql3.
          case update D sql3 s of
            (False, s) \<Rightarrow> roll_back_reply D res s
          | (True, s) \<Rightarrow>
              bindE (r_cstring J ''task_name'' v) (\<lambda>table.
              bindE (sql_text (table_sql table)) (\<lambda>sql4.
              case update D sql4 s of
                (False, s) \<Rightarrow> roll_back_reply D res s
              | (True, s) \<Rightarrow>
                  (case update D ''commit;'' s of
                     (False, s) \<Rightarrow> roll_back_reply D res s
                   | (True, s) \<Rightarrow> Inr (reply res ''success'' s)))))))))"

definition CreatetaskView :: "'d mysql \<Rightarrow> 'v request_lib \<Rightarrow> bool \<Rightarrow> 'v \<Rightarrow> 'd session \<Rightarrow> 'd session res" where
  "CreatetaskView D J con v s =
     bindE (r_string J ''name'' v) (\<lambda>name.
     bindE (r_string J ''password'' v) (\<lambda>pass_word.
     bindE (r_int J ''client_sock'' v) (\<lambda>cs.
     bindE (r_int J ''pack_id'' v) (\<lambda>pack.
     let res = r_reply J cs pack in
     bindE (verify_user D con res name pass_word s) (\<lambda>(ok, s).
     if \<not> ok then Inr s
     else
       (case query D (level_sql name) s of
          (None, s) \<Rightarrow> Inr (reply res ''error'' s)
        | (Some rows, s) \<Rightarrow>
            bindE (bindE (first_row rows 0) stoi) (\<lambda>count.
            if count = 0 then Inr (reply res ''Your degree is too low to operate'' s)
            else create_task D J res v s)))))))"

section \<open>Controller\<close>

text \<open>
  \<open>m_modelMap[type]\<close> of a type that is not in the map inserts a null pointer, on which the virtual call
  is made.
\<close>

definition Controller_process :: "'d mysql \<Rightarrow> 'v request_lib \<Rightarrow> bool \<Rightarrow> string \<Rightarrow> 'v \<Rightarrow> 'd session \<Rightarrow> 'd session res" where
  "Controller_process D J con now v s =
     bindE (r_int J ''type'' v) (\<lambda>t.
     if t = option_code EN_INQUIRY then inquiryView D J con v s
     else if t = option_code EN_SCRAMBLE then ScrambleView D J con now v s
     else if t = option_code EN_CREATE then CreatetaskView D J con v s
     else Inl Null_Deref)"

end
