(* ===== verification/Ticket_Replies.thy ===== *)
theory Ticket_Replies
  imports Ticket_Views
begin

text \<open>
  Every request of the ticket server that is processed gets exactly one reply, with the numbers of the
  request; the requests that take the process down instead.
\<close>

section \<open>What a step writes\<close>

text \<open>\<open>s'\<close> has one reply more than \<open>s\<close>, made by \<open>res\<close>.\<close>

definition answered :: "(string \<Rightarrow> string) \<Rightarrow> 'd session \<Rightarrow> 'd session \<Rightarrow> bool" where
  "answered res s s' \<longleftrightarrow> (\<exists>msg. written s' = written s @ [frame_of (cstr (res msg))])"

text \<open>A part of a view either answers or goes on without having written.\<close>

definition part :: "(string \<Rightarrow> string) \<Rightarrow> 'd session \<Rightarrow> bool \<times> 'd session \<Rightarrow> bool" where
  "part res s x \<longleftrightarrow> (if fst x then written (snd x) = written s else answered res s (snd x))"

lemma bindE_E: "bindE m f = Inr y \<Longrightarrow> (\<And>x. m = Inr x \<Longrightarrow> f x = Inr y \<Longrightarrow> P) \<Longrightarrow> P"
  by (auto simp: res_simps)

lemma sql_D: "bindE (sql_text q) f = Inr y \<Longrightarrow> f q = Inr y"
  by (auto simp: sql_text_def split: if_splits)

lemma query_E:
  assumes "(case query D q s of (None, t) \<Rightarrow> A t | (Some rows, t) \<Rightarrow> B rows t) = Inr x"
  obtains (none) t where "query D q s = (None, t)" "A t = Inr x"
    | (rows) rows t where "query D q s = (Some rows, t)" "B rows t = Inr x"
  using assms by (auto split: prod.splits option.splits)

lemma update_E:
  assumes "(case update D q s of (False, t) \<Rightarrow> A t | (True, t) \<Rightarrow> B t) = Inr x"
  obtains (failed) t where "update D q s = (False, t)" "A t = Inr x"
    | (ok) t where "update D q s = (True, t)" "B t = Inr x"
  using assms by (auto split: prod.splits bool.splits)

lemma query_fields: "query D q s = (r, s') \<Longrightarrow> written s' = written s \<and> sent s' = sent s @ [cstr q] \<and> my_query D (cstr q) (db s) = (r, db s')"
  by (auto simp: query_def split: prod.splits)

lemma update_fields: "update D q s = (r, s') \<Longrightarrow> written s' = written s \<and> sent s' = sent s @ [cstr q] \<and> my_update D (cstr q) (db s) = (r, db s')"
  by (auto simp: update_def split: prod.splits)

lemma db_reply [simp]: "db (reply res m s) = db s"
  by (simp add: reply_def)

lemma answered_reply [simp]: "written t = written s \<Longrightarrow> answered res s (reply res m t)"
  by (auto simp: answered_def reply_def)

lemma answered_give_up [simp]: "written t = written s \<Longrightarrow> answered res s (give_up D res m t)"
  unfolding give_up_def using update_fields[of D "''rollback;''" t "fst (update D ''rollback;'' t)" "snd (update D ''rollback;'' t)"]
  by (intro answered_reply) simp

lemma answered_same: "answered res t s' \<Longrightarrow> written t = written s \<Longrightarrow> answered res s s'"
  by (simp add: answered_def)

lemma part_same: "part res t x \<Longrightarrow> written t = written s \<Longrightarrow> part res s x"
  by (auto simp: part_def answered_def split: if_splits)

lemma roll_back_written:
  assumes "roll_back D s = Some s'"
  shows "written s' = written s"
  by (rule roll_back.raw_induct[where P = "\<lambda>D s s'. written s' = written s", OF _ assms])
    (fastforce dest: update_fields split: prod.splits if_splits)

lemma verify_user_part: "verify_user D con res name pw s = Inr x \<Longrightarrow> part res s x"
  by (auto simp: verify_user_def part_def elim!: bindE_E dest!: query_fields split: prod.splits option.splits if_splits)

lemma scramble_time_part: "scramble_time D res now task s = Inr x \<Longrightarrow> part res s x"
  by (auto simp: scramble_time_def part_def elim!: bindE_E dest!: query_fields split: prod.splits option.splits if_splits)

lemma scramble_begin_part: "scramble_begin D res name task s = Inr x \<Longrightarrow> part res s x"
  by (auto simp: scramble_begin_def part_def elim!: bindE_E dest!: query_fields update_fields split: prod.splits option.splits if_splits bool.splits)

lemma scramble_take_answers: "scramble_take D res name task s = Inr s' \<Longrightarrow> answered res s s'"
  by (auto simp: scramble_take_def elim!: bindE_E dest!: query_fields update_fields split: prod.splits option.splits if_splits bool.splits)

lemma create_task_answers: "create_task D J res v s = Inr s' \<Longrightarrow> answered res s s'"
  by (auto simp: create_task_def roll_back_reply_def elim!: bindE_E dest!: query_fields update_fields roll_back_written
      split: prod.splits option.splits if_splits bool.splits)

text \<open>A part, and what follows it when it did not answer.\<close>

lemma part_then:
  assumes "bindE m (\<lambda>(ok, t). if \<not> ok then Inr t else f t) = Inr s'"
    and "\<And>x. m = Inr x \<Longrightarrow> part res s x" "\<And>t. f t = Inr s' \<Longrightarrow> written t = written s \<Longrightarrow> answered res s s'"
  shows "answered res s s'"
  using assms by (auto simp: part_def elim!: bindE_E split: if_splits prod.splits)

lemma inquiry_answers:
  assumes "inquiryView D J con v s = Inr s'"
  shows "\<exists>cs pack. r_int J ''client_sock'' v = Inr cs \<and> r_int J ''pack_id'' v = Inr pack \<and> answered (r_reply J cs pack) s s'"
proof -
  obtain name pw cs pack where h: "r_int J ''client_sock'' v = Inr cs" "r_int J ''pack_id'' v = Inr pack" "r_string J ''name'' v = Inr name"
    "r_string J ''password'' v = Inr pw"
    using assms by (auto simp: inquiryView_def res_simps)
  have "answered (r_reply J cs pack) s s'"
    using assms unfolding inquiryView_def h bindE_Inr Let_def
  proof (rule part_then)
    show "part (r_reply J cs pack) s x" if "verify_user D con (r_reply J cs pack) name pw s = Inr x" for x
      using that by (rule verify_user_part)
  next
    fix t :: "'a session"
    assume *: "written t = written s"
    assume "bindE (r_string J ''task'' v) (\<lambda>task. bindE (sql_text (ticket_sql task name)) (\<lambda>sql.
       case query D sql t of
         (None, s) \<Rightarrow> Inr (reply (r_reply J cs pack) ''error'' s)
       | (Some rows, s) \<Rightarrow>
           if rows = [] then Inr (reply (r_reply J cs pack) none_text s)
           else bindE (first_row rows 1) (\<lambda>x. bindE (ticket_message x) (\<lambda>msg. Inr (reply (r_reply J cs pack) msg s))))) = Inr s'"
    then have "answered (r_reply J cs pack) t s'"
      by (auto elim!: bindE_E dest!: query_fields split: prod.splits option.splits if_splits)
    then show "answered (r_reply J cs pack) s s'" using * by (rule answered_same)
  qed
  then show ?thesis using h(1,2) by blast
qed

lemma scramble_answers:
  assumes "ScrambleView D J con now v s = Inr s'"
  shows "\<exists>cs pack. r_int J ''client_sock'' v = Inr cs \<and> r_int J ''pack_id'' v = Inr pack \<and> answered (r_reply J cs pack) s s'"
proof -
  obtain name pw task st cs pack where h: "r_int J ''client_sock'' v = Inr cs" "r_int J ''pack_id'' v = Inr pack" "r_string J ''name'' v = Inr name"
    "r_string J ''password'' v = Inr pw" "r_string J ''task'' v = Inr task" "r_string J ''start_time'' v = Inr st"
    using assms by (auto simp: ScrambleView_def res_simps)
  have "answered (r_reply J cs pack) s s'"
    using assms unfolding ScrambleView_def h bindE_Inr Let_def
    by (elim part_then)
      (erule verify_user_part part_same[OF scramble_time_part] part_same[OF scramble_begin_part] answered_same[OF scramble_take_answers]; simp)+
  then show ?thesis using h(1,2) by blast
qed

lemma create_answers:
  assumes "CreatetaskView D J con v s = Inr s'"
  shows "\<exists>cs pack. r_int J ''client_sock'' v = Inr cs \<and> r_int J ''pack_id'' v = Inr pack \<and> answered (r_reply J cs pack) s s'"
proof -
  obtain name pw cs pack where h: "r_int J ''client_sock'' v = Inr cs" "r_int J ''pack_id'' v = Inr pack" "r_string J ''name'' v = Inr name"
    "r_string J ''password'' v = Inr pw"
    using assms by (auto simp: CreatetaskView_def res_simps)
  have "answered (r_reply J cs pack) s s'"
    using assms unfolding CreatetaskView_def h bindE_Inr Let_def
  proof (rule part_then)
    show "part (r_reply J cs pack) s x" if "verify_user D con (r_reply J cs pack) name pw s = Inr x" for x
      using that by (rule verify_user_part)
  next
    fix t :: "'a session"
    assume *: "written t = written s"
    assume "(case query D (level_sql name) t of
          (None, s) \<Rightarrow> Inr (reply (r_reply J cs pack) ''error'' s)
        | (Some rows, s) \<Rightarrow>
            bindE (bindE (first_row rows 0) stoi) (\<lambda>count.
            if count = 0 then Inr (reply (r_reply J cs pack) ''Your degree is too low to operate'' s)
            else create_task D J (r_reply J cs pack) v s)) = Inr s'"
    then have "answered (r_reply J cs pack) t s'"
      by (auto elim!: bindE_E dest!: query_fields split: prod.splits option.splits if_splits intro: answered_same[OF create_task_answers])
    then show "answered (r_reply J cs pack) s s'" using * by (rule answered_same)
  qed
  then show ?thesis using h(1,2) by blast
qed

lemma one_reply:
  assumes "Controller_process D J con now v s = Inr s'"
  shows "\<exists>cs pack msg. r_int J ''client_sock'' v = Inr cs \<and> r_int J ''pack_id'' v = Inr pack \<and>
     written s' = written s @ [frame_of (cstr (r_reply J cs pack msg))]"
  using assms inquiry_answers[of D J con v s s'] scramble_answers[of D J con now v s s'] create_answers[of D J con v s s']
  by (auto simp: Controller_process_def answered_def elim!: bindE_E split: if_splits)

end
