(* ===== verification/Ticket_Sales.thy ===== *)
theory Ticket_Sales
  imports Ticket_Replies
begin

text \<open>
  What the statements of the ticket server do to the tickets, for a data base that behaves as its
  manual says: no ticket is sold twice, none beyond the total, and a sale is all or nothing. The data
  base stays a parameter; \<open>ticket_laws\<close> names what is used of it.
\<close>

section \<open>The texts are C strings\<close>

lemma cstr_texts:
  "cstr (verify_sql name pw) = verify_sql name pw" "cstr (ticket_sql task name) = ticket_sql task name"
  "cstr (start_sql task) = start_sql task" "cstr (lock_sql task) = lock_sql task" "cstr (take_sql task) = take_sql task"
  "cstr (insert_sql task name n) = insert_sql task name n"
  "cstr ''begin;'' = ''begin;''" "cstr ''commit;'' = ''commit;''" "cstr ''rollback;'' = ''rollback;''"
  using cstr_no_NUL[of name] cstr_no_NUL[of pw] cstr_no_NUL[of task] to_string_no_colon(2)[of n]
  by (simp_all add: verify_sql_def ticket_sql_def start_sql_def lock_sql_def take_sql_def insert_sql_def)

section \<open>Tickets\<close>

text \<open>One task: the two columns of its row in \<open>task\<close>, and the rows of its table with their numbers.\<close>

record tickets =
  total :: int
  remain :: int
  holders :: "(string \<times> int) list"

text \<open>
  \<open>view\<close> is what the connection sees, \<open>saved\<close> the state at \<open>begin\<close> while a transaction is open. A
  statement that fails changes nothing.
\<close>

definition update_law :: "'d mysql \<Rightarrow> ('d \<Rightarrow> tickets) \<Rightarrow> ('d \<Rightarrow> tickets option) \<Rightarrow> 'd \<Rightarrow> string \<Rightarrow> tickets \<Rightarrow> tickets option \<Rightarrow> bool" where
  "update_law D view saved d q t sv \<longleftrightarrow>
     (let (ok, d') = my_update D q d in
      if ok then view d' = t \<and> saved d' = sv else view d' = view d \<and> saved d' = saved d)"

definition ticket_laws :: "'d mysql \<Rightarrow> string \<Rightarrow> string \<Rightarrow> ('d \<Rightarrow> tickets) \<Rightarrow> ('d \<Rightarrow> tickets option) \<Rightarrow> bool" where
  "ticket_laws D task name view saved \<longleftrightarrow>
     (\<forall>d. update_law D view saved d ''begin;'' (view d) (Some (view d)) \<and>
          update_law D view saved d ''commit;'' (view d) None \<and>
          update_law D view saved d ''rollback;'' (case saved d of None \<Rightarrow> view d | Some t \<Rightarrow> t) None \<and>
          update_law D view saved d (take_sql task) ((view d)\<lparr>remain := remain (view d) - 1\<rparr>) (saved d) \<and>
          (let n = int (length (holders (view d))) + 1 in
           update_law D view saved d (insert_sql task name n) ((view d)\<lparr>holders := holders (view d) @ [(name, n)]\<rparr>) (saved d)) \<and>
          (\<forall>q. view (snd (my_query D q d)) = view d \<and> saved (snd (my_query D q d)) = saved d) \<and>
          (case fst (my_query D (ticket_sql task name) d) of
             None \<Rightarrow> True
           | Some rows \<Rightarrow> length rows = length (filter (\<lambda>h. fst h = name) (holders (view d)))) \<and>
          (case fst (my_query D (lock_sql task) d) of
             None \<Rightarrow> True
           | Some rows \<Rightarrow> \<exists>a b rest rs. rows = (a # b # Some (to_string (total (view d))) # Some (to_string (remain (view d))) # rest) # rs))"

definition committed :: "('d \<Rightarrow> tickets) \<Rightarrow> ('d \<Rightarrow> tickets option) \<Rightarrow> 'd \<Rightarrow> tickets" where
  "committed view saved d = (case saved d of None \<Rightarrow> view d | Some t \<Rightarrow> t)"

text \<open>A task is sound when the tickets sold are numbered from 1 on, each to another worker, and the rest remains.\<close>

definition sound :: "tickets \<Rightarrow> bool" where
  "sound t \<longleftrightarrow> 0 \<le> remain t \<and> total t \<le> 2147483647 \<and> remain t + int (length (holders t)) = total t \<and>
     map snd (holders t) = map int [1..<length (holders t) + 1] \<and> distinct (map fst (holders t))"

lemma sell_sound:
  assumes "sound t" "remain t \<noteq> 0" "name \<notin> fst ` set (holders t)"
  shows "sound (t\<lparr>remain := remain t - 1, holders := holders t @ [(name, int (length (holders t)) + 1)]\<rparr>)"
  using assms by (auto simp: sound_def)

section \<open>Steps\<close>

lemma law_update:
  assumes "update_law D view saved (db s) q t sv" "cstr q = q" "update D q s = (ok, s')"
  shows "written s' = written s" "ok \<Longrightarrow> view (db s') = t" "ok \<Longrightarrow> saved (db s') = sv"
    "\<not> ok \<Longrightarrow> view (db s') = view (db s)" "\<not> ok \<Longrightarrow> saved (db s') = saved (db s)"
  using assms update_fields[OF assms(3)] by (auto simp: update_law_def Let_def)

lemma law_query:
  assumes "ticket_laws D task name view saved" "query D q s = (r, s')"
  shows "written s' = written s" "view (db s') = view (db s)" "saved (db s') = saved (db s)" "committed view saved (db s') = committed view saved (db s)"
  using query_fields[OF assms(2)] assms(1) unfolding ticket_laws_def committed_def by (metis snd_conv)+

lemma law_rows:
  assumes "ticket_laws D task name view saved"
  shows "query D (ticket_sql task name) s = (Some rows, s') \<Longrightarrow> length rows = length (filter (\<lambda>h. fst h = name) (holders (view (db s))))"
    "query D (lock_sql task) s = (Some rows, s') \<Longrightarrow>
     \<exists>a b rest rs. rows = (a # b # Some (to_string (total (view (db s)))) # Some (to_string (remain (view (db s)))) # rest) # rs"
proof -
  have l: "case fst (my_query D (ticket_sql task name) (db s)) of None \<Rightarrow> True
      | Some rows \<Rightarrow> length rows = length (filter (\<lambda>h. fst h = name) (holders (view (db s))))"
    "case fst (my_query D (lock_sql task) (db s)) of None \<Rightarrow> True
      | Some rows \<Rightarrow> \<exists>a b rest rs. rows = (a # b # Some (to_string (total (view (db s)))) # Some (to_string (remain (view (db s)))) # rest) # rs"
    using assms unfolding ticket_laws_def by blast+
  show "query D (ticket_sql task name) s = (Some rows, s') \<Longrightarrow> length rows = length (filter (\<lambda>h. fst h = name) (holders (view (db s))))"
    using l(1) query_fields[of D "ticket_sql task name" s "Some rows" s'] by (simp add: cstr_texts(2))
  show "query D (lock_sql task) s = (Some rows, s') \<Longrightarrow>
     \<exists>a b rest rs. rows = (a # b # Some (to_string (total (view (db s)))) # Some (to_string (remain (view (db s)))) # rest) # rs"
    using l(2) query_fields[of D "lock_sql task" s "Some rows" s'] by (simp add: cstr_texts(4))
qed

lemma law_updates:
  assumes "ticket_laws D task name view saved"
  shows "update_law D view saved d ''begin;'' (view d) (Some (view d))"
    "update_law D view saved d ''commit;'' (view d) None"
    "update_law D view saved d ''rollback;'' (committed view saved d) None"
    "update_law D view saved d (take_sql task) ((view d)\<lparr>remain := remain (view d) - 1\<rparr>) (saved d)"
    "update_law D view saved d (insert_sql task name (int (length (holders (view d))) + 1))
       ((view d)\<lparr>holders := holders (view d) @ [(name, int (length (holders (view d))) + 1)]\<rparr>) (saved d)"
  using assms unfolding ticket_laws_def committed_def Let_def by blast+

text \<open>The outcome of a request: nothing, or one ticket and the reply \<open>success\<close>.\<close>

definition sold :: "string \<Rightarrow> tickets \<Rightarrow> tickets" where
  "sold name t = t\<lparr>remain := remain t - 1, holders := holders t @ [(name, int (length (holders t)) + 1)]\<rparr>"

definition refused :: "('d \<Rightarrow> tickets) \<Rightarrow> ('d \<Rightarrow> tickets option) \<Rightarrow> (string \<Rightarrow> string) \<Rightarrow> 'd session \<Rightarrow> 'd session \<Rightarrow> bool" where
  "refused view saved res s s' \<longleftrightarrow> committed view saved (db s') = committed view saved (db s) \<and>
     (\<exists>msg. msg \<noteq> ''success'' \<and> written s' = written s @ [frame_of (cstr (res msg))])"

lemma refused_reply:
  assumes "written t = written s" "committed view saved (db t) = committed view saved (db s)" "msg \<noteq> ''success''"
  shows "refused view saved res s (reply res msg t)"
  using assms by (auto simp: refused_def reply_def)

lemma refused_give_up:
  assumes "ticket_laws D task name view saved" "written t = written s" "committed view saved (db t) = committed view saved (db s)" "msg \<noteq> ''success''"
  shows "refused view saved res s (give_up D res msg t)"
proof -
  obtain ok t' where t': "update D ''rollback;'' t = (ok, t')" by fastforce
  note l = law_update[OF law_updates(3)[OF assms(1)] cstr_texts(9) t']
  have "committed view saved (db t') = committed view saved (db t)"
    using l(2-5) by (cases ok) (simp_all add: committed_def split: option.splits)
  then show ?thesis unfolding give_up_def t' using assms(2-4) l(1) by (intro refused_reply) simp_all
qed

text \<open>What a part does that only asks.\<close>

definition asks :: "('d \<Rightarrow> tickets) \<Rightarrow> ('d \<Rightarrow> tickets option) \<Rightarrow> (string \<Rightarrow> string) \<Rightarrow> 'd session \<Rightarrow> bool \<times> 'd session \<Rightarrow> bool" where
  "asks view saved res s x \<longleftrightarrow>
     (if fst x then written (snd x) = written s \<and> view (db (snd x)) = view (db s) \<and> saved (db (snd x)) = saved (db s)
      else refused view saved res s (snd x))"

lemma verify_user_asks:
  assumes "ticket_laws D task name view saved" "verify_user D con res nm pw s = Inr x"
  shows "asks view saved res s x"
  using assms(2) unfolding verify_user_def
  by (elim bindE_E query_E)
    (auto simp: asks_def law_query[OF assms(1)] intro!: refused_reply split: if_splits)

lemma scramble_time_asks:
  assumes "ticket_laws D task name view saved" "scramble_time D res now tk s = Inr x"
  shows "asks view saved res s x"
  using assms(2) unfolding scramble_time_def
  by (elim bindE_E query_E)
    (auto simp: asks_def law_query[OF assms(1)] elim!: bindE_E intro!: refused_reply split: if_splits)

lemma single_holder:
  assumes "distinct (map fst hs)" "length (filter (\<lambda>h. fst h = name) hs) \<noteq> 1"
  shows "name \<notin> fst ` set hs"
  using assms by (induction hs) (force simp: filter_empty_conv image_iff split: if_splits)+

lemma scramble_begin_effect:
  assumes "ticket_laws D task name view saved" "scramble_begin D res name task s = Inr (ok, t)"
    and "saved (db s) = None" "sound (view (db s))"
  shows "if ok then written t = written s \<and> view (db t) = view (db s) \<and> saved (db t) = Some (view (db s)) \<and>
       name \<notin> fst ` set (holders (view (db s)))
     else refused view saved res s t"
  using assms(2) unfolding scramble_begin_def
proof (cases rule: update_E)
  case (failed s1)
  note l = law_update[OF law_updates(1)[OF assms(1)] cstr_texts(7) failed(1)]
  show ?thesis using failed(2) l assms(3) by (auto simp: committed_def intro!: refused_reply)
next
  case (ok s1)
  note l = law_update[OF law_updates(1)[OF assms(1)] cstr_texts(7) ok(1)]
  have c: "committed view saved (db s1) = committed view saved (db s)" using l assms(3) by (simp add: committed_def)
  from sql_D[OF ok(2)] show ?thesis
  proof (cases rule: query_E)
    case (none s2)
    note k = law_query[OF assms(1) none(1)]
    show ?thesis using none(2) k l c by (auto intro!: refused_give_up[OF assms(1)])
  next
    case (rows rows s2)
    note k = law_query[OF assms(1) rows(1)]
    have "length rows = length (filter (\<lambda>h. fst h = name) (holders (view (db s1))))"
      by (rule law_rows(1)[OF assms(1) rows(1)])
    moreover have "distinct (map fst (holders (view (db s))))" using assms(4) by (simp add: sound_def)
    ultimately have "length rows \<noteq> 1 \<Longrightarrow> name \<notin> fst ` set (holders (view (db s)))"
      using single_holder[of "holders (view (db s))" name] l(2) by simp
    then show ?thesis using rows(2) k l c by (auto simp: again_text_def intro!: refused_give_up[OF assms(1)] split: if_splits)
  qed
qed

text \<open>The three statements that sell a ticket; when one fails, the rollback restores what was saved.\<close>

lemma sell_effect:
  assumes "ticket_laws D task name view saved" "view (db t) = v" "saved (db t) = Some v" "n = int (length (holders v)) + 1"
    and "(case update D (take_sql task) t of
            (False, t) \<Rightarrow> Inr (give_up D res ''error'' t)
          | (True, t) \<Rightarrow>
              bindE (sql_text (insert_sql task name n)) (\<lambda>sql7.
              case update D sql7 t of
                (False, t) \<Rightarrow> Inr (give_up D res ''error'' t)
              | (True, t) \<Rightarrow>
                  (case update D ''commit;'' t of
                     (False, t) \<Rightarrow> Inr (give_up D res ''error'' t)
                   | (True, t) \<Rightarrow> Inr (reply res ''success'' t)))) = Inr s'"
  shows "refused view saved res t s' \<or>
    committed view saved (db s') = sold name v \<and> written s' = written t @ [frame_of (cstr (res ''success''))]"
  using assms(5)
proof (cases rule: update_E)
  case (failed t1)
  note l = law_update[OF law_updates(4)[OF assms(1)] cstr_texts(5) failed(1)]
  show ?thesis using failed(2) l assms(2,3) by (auto simp: committed_def intro!: refused_give_up[OF assms(1)])
next
  case (ok t1)
  note l = law_update[OF law_updates(4)[OF assms(1)] cstr_texts(5) ok(1)]
  have v1: "view (db t1) = v\<lparr>remain := remain v - 1\<rparr>" "saved (db t1) = Some v" "written t1 = written t"
    using l assms(2,3) by simp_all
  have n: "n = int (length (holders (view (db t1)))) + 1" using assms(4) v1(1) by simp
  from sql_D[OF ok(2)] show ?thesis
  proof (cases rule: update_E)
    case (failed t2)
    note l2 = law_update[OF law_updates(5)[OF assms(1)] cstr_texts(6) failed(1)[unfolded n]]
    show ?thesis using failed(2) l2 v1 assms(2,3) by (auto simp: committed_def intro!: refused_give_up[OF assms(1)])
  next
    case (ok t2)
    note l2 = law_update[OF law_updates(5)[OF assms(1)] cstr_texts(6) ok(1)[unfolded n]]
    have v2: "view (db t2) = sold name v" "saved (db t2) = Some v" "written t2 = written t"
      using l2 v1 by (simp_all add: sold_def)
    from ok(2) show ?thesis
    proof (cases rule: update_E)
      case (failed t3)
      note l3 = law_update[OF law_updates(2)[OF assms(1)] cstr_texts(8) failed(1)]
      show ?thesis using failed(2) l3 v2 assms(2,3) by (auto simp: committed_def intro!: refused_give_up[OF assms(1)])
    next
      case (ok t3)
      note l3 = law_update[OF law_updates(2)[OF assms(1)] cstr_texts(8) ok(1)]
      show ?thesis using ok(2) l3 v2 by (auto simp: committed_def reply_def)
    qed
  qed
qed

lemma scramble_take_effect:
  assumes "ticket_laws D task name view saved" "scramble_take D res name task s = Inr s'"
    and "saved (db s) = Some (view (db s))" "sound (view (db s))"
  shows "refused view saved res s s' \<or>
    remain (view (db s)) \<noteq> 0 \<and> committed view saved (db s') = sold name (view (db s)) \<and>
    written s' = written s @ [frame_of (cstr (res ''success''))]"
proof -
  define v where "v = view (db s)"
  have c0: "committed view saved (db s) = v" using assms(3) by (simp add: committed_def v_def)
  note refuse = refused_give_up[OF assms(1)]
  from sql_D[OF assms(2)[unfolded scramble_take_def]] show ?thesis
  proof (cases rule: query_E)
    case (none t)
    then show ?thesis using law_query[OF assms(1) none(1)] by (auto intro!: refuse)
  next
    case (rows rows t)
    note k = law_query[OF assms(1) rows(1)]
    obtain a b rest rs where r: "rows = (a # b # Some (to_string (total v)) # Some (to_string (remain v)) # rest) # rs"
      using law_rows(2)[OF assms(1) rows(1)] unfolding v_def by blast
    have bounds: "0 \<le> remain v" "remain v \<le> 2147483647" "0 \<le> total v" "total v \<le> 2147483647"
      "total v - remain v = int (length (holders v))"
      using assms(4) by (auto simp: sound_def v_def)
    have nums: "bindE (first_row rows 2) stoi = Inr (total v)" "bindE (first_row rows 3) stoi = Inr (remain v)"
      using bounds by (simp_all add: r first_row_def to_string_no_colon stoi_to_string)
    show ?thesis
    proof (cases "remain v = 0")
      case True
      then show ?thesis using rows(2) nums k by (auto intro!: refuse)
    next
      case False
      have n: "total v - remain v + 1 = int (length (holders v)) + 1" using bounds(5) by simp
      note sell = sql_D[OF rows(2)[unfolded nums bindE_Inr if_not_P[OF False]]]
      from sell_effect[OF assms(1) _ _ n sell] k assms(3)
      have "refused view saved res t s' \<or>
          committed view saved (db s') = sold name v \<and> written s' = written t @ [frame_of (cstr (res ''success''))]"
        by (simp add: v_def)
      then show ?thesis using k False by (auto simp: refused_def v_def)
    qed
  qed
qed

lemma refused_same:
  assumes "refused view saved res t s'" "written t = written s" "view (db t) = view (db s)" "saved (db t) = saved (db s)"
  shows "refused view saved res s s'"
  using assms by (auto simp: refused_def committed_def split: option.splits)

lemma asks_same:
  assumes "asks view saved res t x" "written t = written s" "view (db t) = view (db s)" "saved (db t) = saved (db s)"
  shows "asks view saved res s x"
  using assms by (auto simp: asks_def refused_same split: if_splits)

lemma asks_then:
  assumes "bindE m (\<lambda>(ok, t). if \<not> ok then Inr t else f t) = Inr s'"
    and "\<And>x. m = Inr x \<Longrightarrow> asks view saved res s x"
    and "\<And>t. f t = Inr s' \<Longrightarrow> written t = written s \<Longrightarrow> view (db t) = view (db s) \<Longrightarrow> saved (db t) = saved (db s) \<Longrightarrow>
      refused view saved res s s' \<or> Q"
  shows "refused view saved res s s' \<or> Q"
  using assms(1)
proof (rule bindE_E)
  fix x
  assume x: "m = Inr x" "(case x of (ok, t) \<Rightarrow> if \<not> ok then Inr t else f t) = Inr s'"
  obtain ok t where xx: "x = (ok, t)" by (cases x)
  note a = assms(2)[OF x(1), unfolded asks_def xx fst_conv snd_conv]
  show ?thesis using x(2) a assms(3)[of t] unfolding xx by (cases ok) simp_all
qed

text \<open>One ticket goes to the worker.\<close>

definition sells :: "('d \<Rightarrow> tickets) \<Rightarrow> ('d \<Rightarrow> tickets option) \<Rightarrow> string \<Rightarrow> (string \<Rightarrow> string) \<Rightarrow> 'd session \<Rightarrow> 'd session \<Rightarrow> bool" where
  "sells view saved name res s s' \<longleftrightarrow> remain (view (db s)) \<noteq> 0 \<and> name \<notin> fst ` set (holders (view (db s))) \<and>
     committed view saved (db s') = sold name (view (db s)) \<and> written s' = written s @ [frame_of (cstr (res ''success''))]"

lemma sells_same:
  "sells view saved name res t s' \<Longrightarrow> written t = written s \<Longrightarrow> view (db t) = view (db s) \<Longrightarrow> sells view saved name res s s'"
  by (simp add: sells_def)

lemma begin_take_effect:
  assumes "ticket_laws D task name view saved" "saved (db s) = None" "sound (view (db s))"
    and "bindE (scramble_begin D res name task s) (\<lambda>(ok, s). if \<not> ok then Inr s else scramble_take D res name task s) = Inr s'"
  shows "refused view saved res s s' \<or> sells view saved name res s s'"
proof -
  obtain ok t where t: "scramble_begin D res name task s = Inr (ok, t)"
    "if ok then scramble_take D res name task t = Inr s' else t = s'"
    using assms(4) by (elim bindE_E) (auto split: if_splits)
  note e = scramble_begin_effect[OF assms(1) t(1) assms(2,3)]
  show ?thesis
  proof (cases ok)
    case False
    then show ?thesis using e t(2) by simp
  next
    case True
    then have t': "written t = written s" "view (db t) = view (db s)" "saved (db t) = Some (view (db s))"
      "name \<notin> fst ` set (holders (view (db s)))" "scramble_take D res name task t = Inr s'" using e t(2) by simp_all
    from scramble_take_effect[OF assms(1) t'(5)] t'(1-4) assms(2,3) show ?thesis
      by (auto simp: refused_def sells_def committed_def)
  qed
qed

text \<open>One request: it changes nothing that is committed, and says so, or it takes one ticket off the rest, records
  it for a worker who had none under the next number, and only then replies \<open>success\<close>.\<close>

lemma scramble_sells:
  assumes "ticket_laws D task name view saved" "r_string J ''task'' v = Inr task" "r_string J ''name'' v = Inr name"
    and "saved (db s) = None" "sound (view (db s))" "ScrambleView D J con now v s = Inr s'"
  shows "\<exists>cs pack. r_int J ''client_sock'' v = Inr cs \<and> r_int J ''pack_id'' v = Inr pack \<and> sound (committed view saved (db s')) \<and>
    (refused view saved (r_reply J cs pack) s s' \<or>
     remain (view (db s)) \<noteq> 0 \<and> name \<notin> fst ` set (holders (view (db s))) \<and>
     committed view saved (db s') = sold name (view (db s)) \<and>
     written s' = written s @ [frame_of (cstr (r_reply J cs pack ''success''))])"
proof -
  obtain pw st cs pack where h: "r_int J ''client_sock'' v = Inr cs" "r_int J ''pack_id'' v = Inr pack"
    "r_string J ''password'' v = Inr pw" "r_string J ''start_time'' v = Inr st"
    using assms(6) by (auto simp: ScrambleView_def res_simps)
  let ?res = "r_reply J cs pack"
  note laws = assms(1)
  have c: "committed view saved (db s) = view (db s)" using assms(4) by (simp add: committed_def)
  have run: "bindE (verify_user D con ?res name pw s) (\<lambda>(ok, s). if \<not> ok then Inr s
     else bindE (scramble_time D ?res now task s) (\<lambda>(ok, s). if \<not> ok then Inr s
     else bindE (scramble_begin D ?res name task s) (\<lambda>(ok, s). if \<not> ok then Inr s
     else scramble_take D ?res name task s))) = Inr s'"
    using assms(6) by (simp add: ScrambleView_def assms(2,3) h Let_def)
  have "refused view saved ?res s s' \<or> sells view saved name ?res s s'"
    using run
  proof (rule asks_then)
    show "asks view saved ?res s x" if "verify_user D con ?res name pw s = Inr x" for x
      using laws that by (rule verify_user_asks)
  next
    fix s1 :: "'a session"
    assume s1: "written s1 = written s" "view (db s1) = view (db s)" "saved (db s1) = saved (db s)"
    assume "bindE (scramble_time D ?res now task s1) (\<lambda>(ok, s). if \<not> ok then Inr s
      else bindE (scramble_begin D ?res name task s) (\<lambda>(ok, s). if \<not> ok then Inr s
      else scramble_take D ?res name task s)) = Inr s'"
    then show "refused view saved ?res s s' \<or> sells view saved name ?res s s'"
    proof (rule asks_then)
      show "asks view saved ?res s x" if "scramble_time D ?res now task s1 = Inr x" for x
        using scramble_time_asks[OF laws that] s1 by (rule asks_same)
    next
      fix s2 :: "'a session"
      assume s2: "written s2 = written s" "view (db s2) = view (db s)" "saved (db s2) = saved (db s)"
      assume "bindE (scramble_begin D ?res name task s2) (\<lambda>(ok, s). if \<not> ok then Inr s
        else scramble_take D ?res name task s) = Inr s'"
      from begin_take_effect[OF laws _ _ this] s2 assms(4,5)
      show "refused view saved ?res s s' \<or> sells view saved name ?res s s'"
        using refused_same[OF _ s2] sells_same[OF _ s2(1,2)] by auto
    qed
  qed
  moreover have "sound (committed view saved (db s'))"
    using calculation sell_sound[OF assms(5), of name] c assms(5) by (auto simp: refused_def sells_def sold_def)
  ultimately show ?thesis using h(1,2) unfolding sells_def by blast
qed

end
