(* ===== verification/Ticket_Demo.thy ===== *)
theory Ticket_Demo
  imports Ticket_Sales
begin

text \<open>
  A concrete data base for one task and one worker, with the transaction that is open on it, and a
  request; the properties of the ticket server are applied to them.
\<close>

section \<open>A data base\<close>

type_synonym demo_db = "tickets \<times> tickets option"

definition demo_mysql :: "bool \<Rightarrow> demo_db mysql" where
  "demo_mysql undo = \<lparr>
     my_query = (\<lambda>q (t, sv).
       (if q = lock_sql ''pig'' then Some [[None, None, Some (to_string (total t)), Some (to_string (remain t))]]
        else if q = ticket_sql ''pig'' ''ann'' then
          Some (map (\<lambda>h. [Some (fst h), Some (to_string (snd h))]) (filter (\<lambda>h. fst h = ''ann'') (holders t)))
        else if q = start_sql ''pig'' then Some [[Some ''2021-06-01 10:00:00'']]
        else Some [[Some ''1'']], (t, sv))),
     my_update = (\<lambda>q (t, sv).
       if q = ''begin;'' then (True, (t, Some t))
       else if q = ''commit;'' then (True, (t, None))
       else if q = ''rollback;'' then (if undo then (True, (case sv of None \<Rightarrow> t | Some x \<Rightarrow> x, None)) else (False, (t, sv)))
       else if q = take_sql ''pig'' then (True, (t\<lparr>remain := remain t - 1\<rparr>, sv))
       else if q = insert_sql ''pig'' ''ann'' (int (length (holders t)) + 1)
       then (True, (t\<lparr>holders := holders t @ [(''ann'', int (length (holders t)) + 1)]\<rparr>, sv))
       else (False, (t, sv)))\<rparr>"

lemma texts_differ:
  "ticket_sql ''pig'' ''ann'' \<noteq> lock_sql ''pig''" "start_sql ''pig'' \<noteq> lock_sql ''pig''" "start_sql ''pig'' \<noteq> ticket_sql ''pig'' ''ann''"
  "verify_sql ''ann'' pw \<noteq> lock_sql ''pig''" "verify_sql ''ann'' pw \<noteq> ticket_sql ''pig'' ''ann''" "verify_sql ''ann'' pw \<noteq> start_sql ''pig''"
  "take_sql ''pig'' \<noteq> ''begin;''" "take_sql ''pig'' \<noteq> ''commit;''" "take_sql ''pig'' \<noteq> ''rollback;''"
  "insert_sql t nm n \<noteq> ''begin;''" "insert_sql t nm n \<noteq> ''commit;''" "insert_sql t nm n \<noteq> ''rollback;''" "insert_sql t nm n \<noteq> take_sql ''pig''"
  "level_sql nm \<noteq> lock_sql ''pig''" "level_sql nm \<noteq> ticket_sql ''pig'' ''ann''" "level_sql nm \<noteq> start_sql ''pig''"
  "task_sql a b k \<noteq> ''begin;''" "task_sql a b k \<noteq> ''commit;''" "task_sql a b k \<noteq> ''rollback;''" "task_sql a b k \<noteq> take_sql ''pig''"
  "task_sql a b k \<noteq> insert_sql ''pig'' nm n"
  by (simp_all add: ticket_sql_def lock_sql_def start_sql_def verify_sql_def take_sql_def insert_sql_def level_sql_def task_sql_def cstr_def)

lemma demo_queries:
  "my_query (demo_mysql undo) (verify_sql ''ann'' pw) d = (Some [[Some ''1'']], d)"
  "my_query (demo_mysql undo) (level_sql nm) d = (Some [[Some ''1'']], d)"
  "my_query (demo_mysql undo) (start_sql ''pig'') d = (Some [[Some ''2021-06-01 10:00:00'']], d)"
  "my_query (demo_mysql undo) (lock_sql ''pig'') d = (Some [[None, None, Some (to_string (total (fst d))), Some (to_string (remain (fst d)))]], d)"
  "my_query (demo_mysql undo) (ticket_sql ''pig'' ''ann'') d =
     (Some (map (\<lambda>h. [Some (fst h), Some (to_string (snd h))]) (filter (\<lambda>h. fst h = ''ann'') (holders (fst d)))), d)"
  by (cases d; simp add: demo_mysql_def texts_differ)+

lemma demo_updates:
  "my_update (demo_mysql undo) ''begin;'' d = (True, (fst d, Some (fst d)))"
  "my_update (demo_mysql undo) ''commit;'' d = (True, (fst d, None))"
  "my_update (demo_mysql True) ''rollback;'' d = (True, (case snd d of None \<Rightarrow> fst d | Some x \<Rightarrow> x, None))"
  "my_update (demo_mysql False) ''rollback;'' d = (False, d)"
  "my_update (demo_mysql undo) (take_sql ''pig'') d = (True, ((fst d)\<lparr>remain := remain (fst d) - 1\<rparr>, snd d))"
  "my_update (demo_mysql undo) (task_sql a b k) d = (False, d)"
  by (cases d; simp add: demo_mysql_def texts_differ split: option.split)+

lemma demo_laws: "ticket_laws (demo_mysql True) ''pig'' ''ann'' fst snd"
  unfolding ticket_laws_def
  by (intro allI conjI)
    (auto simp: demo_mysql_def texts_differ update_law_def Let_def split: option.splits if_splits)

section \<open>A request\<close>

text \<open>A request is played by its number, which is both its \<open>client_sock\<close> and its \<open>pack_id\<close>.\<close>

definition demo_requests :: "int request_lib" where
  "demo_requests = \<lparr>r_parse = (\<lambda>s. Some (int (length s))), r_string = (\<lambda>k v. Inr (if k = ''task'' then ''pig'' else ''ann'')),
     r_cstring = (\<lambda>k v. Inr ''cow''), r_int = (\<lambda>k v. Inr (if k = ''type'' then 5 else v)),
     r_reply = (\<lambda>cs pack msg. to_string cs @ '','' @ to_string pack @ '','' @ msg)\<rparr>"

definition demo_session :: "int \<Rightarrow> (string \<times> int) list \<Rightarrow> demo_db session" where
  "demo_session n hs = \<lparr>db = (\<lparr>total = n, remain = n - int (length hs), holders = hs\<rparr>, None), sent = [], written = []\<rparr>"

lemma demo_lengths:
  "length (verify_sql ''ann'' ''ann'') < SQL_LEN" "length (ticket_sql ''pig'' ''ann'') < SQL_LEN"
  by (simp_all add: SQL_LEN_def ticket_sql_def verify_sql_def cstr_def)

lemma to_string_ne: "to_string n \<noteq> []"
  by (simp add: to_string_def show_nat_ne)

lemma demo_texts_fit:
  "sql_text (verify_sql ''ann'' ''ann'') = Inr (verify_sql ''ann'' ''ann'')" "sql_text (start_sql ''pig'') = Inr (start_sql ''pig'')"
  "sql_text (ticket_sql ''pig'' ''ann'') = Inr (ticket_sql ''pig'' ''ann'')" "sql_text (lock_sql ''pig'') = Inr (lock_sql ''pig'')"
  "sql_text (take_sql ''pig'') = Inr (take_sql ''pig'')"
  by (simp_all add: sql_text_def SQL_LEN_def ticket_sql_def lock_sql_def start_sql_def verify_sql_def take_sql_def cstr_def)

lemma demo_insert_fits: "sql_text (insert_sql ''pig'' ''ann'' 2) = Inr (insert_sql ''pig'' ''ann'' 2)"
  by (simp add: sql_text_def SQL_LEN_def insert_sql_def cstr_def to_string_def show_nat.simps)

lemma demo_scramble:
  assumes "\<And>k. r_string J k v = Inr (if k = ''task'' then ''pig'' else ''ann'')" "r_int J ''client_sock'' v = Inr cs" "r_int J ''pack_id'' v = Inr pack"
  shows "\<exists>s'. ScrambleView (demo_mysql True) J True ''2021-06-01 10:00:01'' v (demo_session 3 [(''bob'', 1)]) = Inr s' \<and>
     committed fst snd (db s') = \<lparr>total = 3, remain = 1, holders = [(''bob'', 1), (''ann'', 2)]\<rparr> \<and> length (written s') = 1"
proof -
  have n: "stoi (to_string 3) = Inr 3" "stoi (to_string 2) = Inr 2" by (simp_all add: stoi_to_string)
  show ?thesis
    by (simp add: ScrambleView_def assms verify_user_def scramble_time_def scramble_begin_def scramble_take_def
      demo_texts_fit demo_insert_fits query_def update_def cstr_texts demo_mysql_def texts_differ demo_session_def
      first_row_def to_string_no_colon n guardE_def committed_def) (simp add: reply_def)
qed

lemma scramble_sells_witness:
  "\<exists>s'. ScrambleView (demo_mysql True) demo_requests True ''2021-06-01 10:00:01'' 7 (demo_session 3 [(''bob'', 1)]) = Inr s' \<and>
     sound (committed fst snd (db s')) \<and> holders (committed fst snd (db s')) = [(''bob'', 1), (''ann'', 2)]"
proof -
  obtain s' where s': "ScrambleView (demo_mysql True) demo_requests True ''2021-06-01 10:00:01'' 7 (demo_session 3 [(''bob'', 1)]) = Inr s'"
    "holders (committed fst snd (db s')) = [(''bob'', 1), (''ann'', 2)]"
    using demo_scramble[of demo_requests 7 7 7] by (auto simp: demo_requests_def)
  from scramble_sells[OF demo_laws _ _ _ _ s'(1)] show ?thesis
    using s' by (auto simp: demo_requests_def demo_session_def sound_def)
qed

end
