(* ===== verification/Ticket_Theorems.thy ===== *)
theory Ticket_Theorems
  imports Ticket_Demo
begin

text \<open>
  Transactions of the ticket server: which views leave none open, when the loop around the rollback
  ends, and the requests that break the server.
\<close>

section \<open>Open transactions\<close>

text \<open>
  Of the data base it is used that a transaction is open after a \<open>begin\<close> that succeeded, is closed by a
  commit or a rollback that succeeds, and is not opened by anything else; a statement on tables may
  close it, as \<open>create table\<close> does.
\<close>

definition tx_laws :: "'d mysql \<Rightarrow> ('d \<Rightarrow> bool) \<Rightarrow> bool" where
  "tx_laws D open \<longleftrightarrow>
     (\<forall>d. (\<forall>q. open (snd (my_query D q d)) = open d) \<and>
          (\<forall>q. q \<noteq> ''begin;'' \<longrightarrow> open (snd (my_update D q d)) \<longrightarrow> open d) \<and>
          (fst (my_update D ''begin;'' d) \<or> open (snd (my_update D ''begin;'' d)) = open d) \<and>
          (fst (my_update D ''commit;'' d) \<longrightarrow> \<not> open (snd (my_update D ''commit;'' d))) \<and>
          (fst (my_update D ''rollback;'' d) \<longrightarrow> \<not> open (snd (my_update D ''rollback;'' d))))"

lemma tx_query: "tx_laws D open \<Longrightarrow> query D q s = (r, s') \<Longrightarrow> open (db s') = open (db s)"
  using query_fields[of D q s r s'] unfolding tx_laws_def by (metis snd_conv)

lemma tx_begin: "tx_laws D open \<Longrightarrow> update D ''begin;'' s = (False, s') \<Longrightarrow> open (db s') = open (db s)"
  using update_fields[of D "''begin;''" s False s'] cstr_texts(7) unfolding tx_laws_def by (metis fst_conv snd_conv)

lemma tx_commit: "tx_laws D open \<Longrightarrow> update D ''commit;'' s = (True, s') \<Longrightarrow> \<not> open (db s')"
  using update_fields[of D "''commit;''" s True s'] cstr_texts(8) unfolding tx_laws_def by (metis fst_conv snd_conv)

lemma tx_rollback: "tx_laws D open \<Longrightarrow> update D ''rollback;'' s = (True, s') \<Longrightarrow> \<not> open (db s')"
  using update_fields[of D "''rollback;''" s True s'] cstr_texts(9) unfolding tx_laws_def by (metis fst_conv snd_conv)

lemma roll_back_closes:
  assumes "tx_laws D open" "roll_back D s = Some s'"
  shows "\<not> open (db s')"
  by (rule roll_back.raw_induct[where P = "\<lambda>D' s s'. D' = D \<longrightarrow> \<not> open (db s')", OF _ assms(2), rule_format])
    (auto dest: tx_rollback[OF assms(1)] split: prod.splits if_splits)

lemma create_task_closes:
  assumes "tx_laws D open" "\<not> open (db s)" "create_task D J res v s = Inr s'"
  shows "\<not> open (db s')"
  using assms(3) unfolding create_task_def
  by (elim update_E bindE_E)
    (auto simp: roll_back_reply_def dest: tx_begin[OF assms(1)] tx_commit[OF assms(1)] roll_back_closes[OF assms(1)]
      elim!: update_E bindE_E simp: assms(2) split: option.splits)

lemma verify_user_closed:
  assumes "tx_laws D open" "\<not> open (db s)" "verify_user D con res nm pw s = Inr (ok, t)"
  shows "\<not> open (db t)"
  using assms(3) unfolding verify_user_def
  by (elim bindE_E query_E) (auto simp: tx_query[OF assms(1)] assms(2) split: if_splits)

text \<open>C30: \<open>CreatetaskView\<close> leaves no transaction open: on a connection without one, whenever it returns,
  there is none again, whatever failed on the way, so that the next user of the connection starts clean.\<close>

theorem create_closes_transaction:
  assumes "tx_laws D open" "\<not> open (db s)" "CreatetaskView D J con v s = Inr s'"
  shows "\<not> open (db s')"
proof -
  obtain name pw cs pack ok t where h: "verify_user D con (r_reply J cs pack) name pw s = Inr (ok, t)"
    and x: "(if \<not> ok then Inr t else
       (case query D (level_sql name) t of
          (None, s) \<Rightarrow> Inr (reply (r_reply J cs pack) ''error'' s)
        | (Some rows, s) \<Rightarrow>
            bindE (bindE (first_row rows 0) stoi) (\<lambda>count.
            if count = 0 then Inr (reply (r_reply J cs pack) ''Your degree is too low to operate'' s)
            else create_task D J (r_reply J cs pack) v s))) = Inr s'"
    using assms(3) unfolding CreatetaskView_def Let_def by (elim bindE_E) (auto)
  note c = verify_user_closed[OF assms(1,2) h]
  show ?thesis
  proof (cases ok)
    case False
    then show ?thesis using x c by simp
  next
    case True
    with x show ?thesis using c
      by (simp, elim query_E bindE_E)
        (auto simp: tx_query[OF assms(1)] elim!: bindE_E dest: create_task_closes[OF assms(1), rotated] split: if_splits)
  qed
qed

definition is_open :: "demo_db \<Rightarrow> bool" where
  "is_open d \<longleftrightarrow> snd d \<noteq> None"

lemma demo_tx_laws: "tx_laws (demo_mysql undo) is_open"
  unfolding tx_laws_def
  by (intro allI conjI) (auto simp: demo_mysql_def is_open_def split: if_splits prod.splits)

theorem create_closes_transaction_witness:
  "\<exists>s'. CreatetaskView (demo_mysql True) demo_requests True 7 (demo_session 3 []) = Inr s' \<and> \<not> is_open (db s')"
proof -
  have "\<exists>s'. CreatetaskView (demo_mysql True) demo_requests True 7 (demo_session 3 []) = Inr s'"
  proof -
    have one: "stoi ''1'' = Inr 1" "cstr ''1'' = ''1''"
      using stoi_to_string[of 1] by (simp_all add: to_string_def show_nat.simps digit_char_def char_of_def bit_iff_odd)
    have lv: "cstr (level_sql ''ann'') = level_sql ''ann''" by (simp add: level_sql_def)
    have tsk: "cstr (task_sql ''ann'' ''ann'' 7) = task_sql ''ann'' ''ann'' 7" "sql_text (task_sql ''ann'' ''ann'' 7) = Inr (task_sql ''ann'' ''ann'' 7)"
      using to_string_no_colon(2)[of 7] by (simp_all add: task_sql_def sql_text_def SQL_LEN_def to_string_def show_nat.simps)
    have rb: "\<exists>s'. roll_back_reply (demo_mysql True) res s = Inr s'" for res s
      by (simp add: roll_back_reply_def) (subst roll_back.simps, simp add: update_def cstr_texts demo_updates)
    show ?thesis
      by (simp add: CreatetaskView_def demo_requests_def verify_user_def create_task_def demo_texts_fit query_def update_def
        cstr_texts demo_session_def first_row_def guardE_def demo_queries demo_updates one lv tsk rb)
  qed
  then obtain s' where s': "CreatetaskView (demo_mysql True) demo_requests True 7 (demo_session 3 []) = Inr s'" by auto
  from create_closes_transaction[OF demo_tx_laws _ s'] s' show ?thesis
    by (auto simp: is_open_def demo_session_def)
qed

text \<open>\<open>ScrambleView\<close> may leave its transaction open: it does not look whether the rollback succeeded. On a
  data base that refuses it, a request for a task without tickets is answered, the view returns, and
  the connection goes back to the pool with the transaction and the lock on the row of the task.\<close>

lemma scramble_leaves_open:
  "tx_laws (demo_mysql False) is_open \<and> \<not> is_open (db (demo_session 1 [(''bob'', 1)])) \<and>
   (\<exists>s'. ScrambleView (demo_mysql False) demo_requests True ''2021-06-01 10:00:01'' 7 (demo_session 1 [(''bob'', 1)]) = Inr s' \<and>
     is_open (db s') \<and> last (sent s') = ''rollback;'')"
proof (intro conjI)
  show "tx_laws (demo_mysql False) is_open" by (rule demo_tx_laws)
  show "\<not> is_open (db (demo_session 1 [(''bob'', 1)]))" by (simp add: is_open_def demo_session_def)
  have n: "stoi (to_string 1) = Inr 1" "stoi (to_string 0) = Inr 0" by (simp_all add: stoi_to_string)
  show "\<exists>s'. ScrambleView (demo_mysql False) demo_requests True ''2021-06-01 10:00:01'' 7 (demo_session 1 [(''bob'', 1)]) = Inr s' \<and>
     is_open (db s') \<and> last (sent s') = ''rollback;''"
    by (simp add: ScrambleView_def demo_requests_def verify_user_def scramble_time_def scramble_begin_def scramble_take_def
      demo_texts_fit query_def update_def cstr_texts demo_mysql_def texts_differ demo_session_def give_up_def
      first_row_def to_string_no_colon n guardE_def is_open_def) (simp add: reply_def)
qed

section \<open>The loop around the rollback\<close>

text \<open>The state of the data base after \<open>n\<close> refused attempts.\<close>

definition retried :: "'d mysql \<Rightarrow> nat \<Rightarrow> 'd \<Rightarrow> 'd" where
  "retried D n d = ((\<lambda>d. snd (my_update D ''rollback;'' d)) ^^ n) d"

lemma retried_Suc: "retried D (Suc n) d = retried D n (snd (my_update D ''rollback;'' d))"
  by (simp add: retried_def funpow_Suc_right del: funpow.simps)

lemma roll_back_finds:
  "fst (my_update D ''rollback;'' (retried D n (db s))) \<Longrightarrow> \<exists>s'. roll_back D s = Some s'"
proof (induction n arbitrary: s)
  case 0
  then show ?case by (subst roll_back.simps) (auto simp: retried_def update_def cstr_texts split: prod.splits)
next
  case (Suc n)
  obtain ok d where d: "my_update D ''rollback;'' (db s) = (ok, d)" by fastforce
  have "\<exists>s'. roll_back D (s\<lparr>db := d, sent := sent s @ [''rollback;'']\<rparr>) = Some s'"
    using Suc.prems by (intro Suc.IH) (simp add: retried_Suc d)
  then show ?case by (subst roll_back.simps) (auto simp: update_def cstr_texts d)
qed

lemma roll_back_found:
  assumes "roll_back D s = Some s'"
  shows "\<exists>n. fst (my_update D ''rollback;'' (retried D n (db s)))"
proof (rule roll_back.raw_induct[where P = "\<lambda>D s s'. \<exists>n. fst (my_update D ''rollback;'' (retried D n (db s)))", OF _ assms])
  fix rb D s s'
  assume IH: "\<And>D s s'. rb D s = Some s' \<Longrightarrow> \<exists>n. fst (my_update D ''rollback;'' (retried D n (db s)))"
    and r: "(case update D ''rollback;'' s of (ok, s) \<Rightarrow> if ok then Some s else rb D s) = Some s'"
  obtain ok t where t: "update D ''rollback;'' s = (ok, t)" by fastforce
  then have d: "my_update D ''rollback;'' (db s) = (ok, db t)" using update_fields[OF t] by (simp add: cstr_texts)
  show "\<exists>n. fst (my_update D ''rollback;'' (retried D n (db s)))"
  proof (cases ok)
    case True
    then show ?thesis using d by (intro exI[of _ 0]) (simp add: retried_def)
  next
    case False
    then obtain n where "fst (my_update D ''rollback;'' (retried D n (db t)))" using IH r t by fastforce
    then show ?thesis using d by (intro exI[of _ "Suc n"]) (simp add: retried_Suc)
  qed
qed

text \<open>C32: When the loop around the rollback ends: exactly when the data base accepts one of the attempts. A
  data base that is gone refuses them all, and the thread of the server never comes back from the
  request that could not create its task.\<close>

theorem rollback_ends_iff_accepted:
  "(roll_back_reply D res s = Inl Diverges) = (\<forall>n. \<not> fst (my_update D ''rollback;'' (retried D n (db s))))"
  using roll_back_finds[of D _ s] roll_back_found[of D s]
  by (cases "roll_back D s") (auto simp: roll_back_reply_def)

section \<open>Requests that break the server\<close>

text \<open>No worker ever learns a ticket number: when the rows of the user and of the ticket are found and
  the ticket has a number, \<open>strcat\<close> writes it behind the end of an array that is just long enough for
  the text before it.\<close>

lemma inquiry_overflows:
  assumes "r_string J ''name'' v = Inr name" "r_string J ''password'' v = Inr pw" "r_string J ''task'' v = Inr task"
    and "r_int J ''client_sock'' v = Inr cs" "r_int J ''pack_id'' v = Inr pack"
    and "length (verify_sql name pw) < SQL_LEN" "length (ticket_sql task name) < SQL_LEN"
    and "my_query D (verify_sql name pw) (db s) = (Some (u # us), d)"
    and "my_query D (ticket_sql task name) d = (Some ((holder # Some number # r) # rs), d')" "cstr number \<noteq> []"
  shows "inquiryView D J True v s = Inl Out_Of_Bounds"
  using assms
  by (simp add: inquiryView_def verify_user_def sql_text_def query_def cstr_texts first_row_def ticket_message_def)

lemma inquiry_overflows_witness:
  "inquiryView (demo_mysql True) demo_requests True 7 (demo_session 3 [(''ann'', 1)]) = Inl Out_Of_Bounds"
proof -
  have q: "my_query (demo_mysql True) (ticket_sql ''pig'' ''ann'') (db (demo_session 3 [(''ann'', 1)])) =
      (Some ([Some ''ann'', Some (to_string 1)] # []), db (demo_session 3 [(''ann'', 1)]))"
    by (simp add: demo_queries demo_session_def)
  show ?thesis
    by (rule inquiry_overflows[OF _ _ _ _ _ demo_lengths demo_queries(1) q])
      (simp_all add: demo_requests_def to_string_no_colon to_string_ne)
qed

text \<open>A type without a view, and a pool without a connection.\<close>

lemma unknown_type_crashes:
  assumes "r_int J ''type'' v = Inr t" "t \<noteq> 4" "t \<noteq> 5" "t \<noteq> 6"
  shows "Controller_process D J con now v s = Inl Null_Deref"
  using assms by (simp add: Controller_process_def)

lemma no_connection_crashes: "verify_user D False res name pw s = Inr x \<Longrightarrow> False"
  by (simp add: verify_user_def sql_text_def split: if_splits)

end
