(* ===== verification/Ticket_History.thy ===== *)
theory Ticket_History
  imports Ticket_Theorems
begin

text \<open>
  Many requests for the tickets of one task, one after the other: who gets a ticket, under which number,
  and what every one of them is told.
\<close>

section \<open>The transaction of a request\<close>

definition accepts_rollback :: "'d mysql \<Rightarrow> bool" where
  "accepts_rollback D \<longleftrightarrow> (\<forall>d. fst (my_update D ''rollback;'' d))"

lemma give_up_closes:
  assumes "tx_laws D open" "accepts_rollback D"
  shows "\<not> open (db (give_up D res m s))"
proof -
  obtain ok s' where u: "update D ''rollback;'' s = (ok, s')" by fastforce
  have ok using update_fields[OF u] assms(2) cstr_texts(9) by (metis accepts_rollback_def fst_conv)
  then show ?thesis using tx_rollback[OF assms(1)] u by (simp add: give_up_def)
qed

lemma scramble_take_closes:
  assumes "tx_laws D open" "accepts_rollback D" "scramble_take D res name task s = Inr s'"
  shows "\<not> open (db s')"
  using assms(3) unfolding scramble_take_def
  by (elim bindE_E query_E)
    (auto simp: give_up_closes[OF assms(1,2)] dest: tx_commit[OF assms(1)] elim!: bindE_E update_E split: if_splits)

lemma scramble_begin_closes:
  assumes "tx_laws D open" "accepts_rollback D" "\<not> open (db s)" "scramble_begin D res name task s = Inr (False, s')"
  shows "\<not> open (db s')"
  using assms(4) unfolding scramble_begin_def
  by (elim update_E)
    (auto simp: give_up_closes[OF assms(1,2)] assms(3) dest: tx_begin[OF assms(1)] elim!: bindE_E query_E split: if_splits)

lemma scramble_time_closed:
  assumes "tx_laws D open" "\<not> open (db s)" "scramble_time D res now task s = Inr (ok, t)"
  shows "\<not> open (db t)"
  using assms(3) unfolding scramble_time_def
  by (elim bindE_E query_E) (auto simp: tx_query[OF assms(1)] assms(2) elim!: bindE_E split: if_splits)

lemma parts_E:
  assumes "bindE m (\<lambda>(ok, t). if \<not> ok then Inr t else f t) = Inr s'"
  obtains "m = Inr (False, s')" | t where "m = Inr (True, t)" "f t = Inr s'"
  using assms by (auto simp: res_simps split: if_splits)

lemma scramble_closes:
  assumes "tx_laws D open" "accepts_rollback D" "\<not> open (db s)" "ScrambleView D J con now v s = Inr s'"
  shows "\<not> open (db s')"
proof -
  obtain name pw task st cs pack where h: "r_string J ''name'' v = Inr name" "r_string J ''password'' v = Inr pw"
    "r_string J ''task'' v = Inr task" "r_string J ''start_time'' v = Inr st" "r_int J ''client_sock'' v = Inr cs" "r_int J ''pack_id'' v = Inr pack"
    using assms(4) by (auto simp: ScrambleView_def res_simps)
  have run: "bindE (verify_user D con (r_reply J cs pack) name pw s) (\<lambda>(ok, s). if \<not> ok then Inr s
     else bindE (scramble_time D (r_reply J cs pack) now task s) (\<lambda>(ok, s). if \<not> ok then Inr s
     else bindE (scramble_begin D (r_reply J cs pack) name task s) (\<lambda>(ok, s). if \<not> ok then Inr s
     else scramble_take D (r_reply J cs pack) name task s))) = Inr s'"
    using assms(4) by (simp add: ScrambleView_def h Let_def)
  note closes = verify_user_closed[OF assms(1,3)] scramble_time_closed[OF assms(1)] scramble_begin_closes[OF assms(1,2)]
    scramble_take_closes[OF assms(1,2)]
  from run show ?thesis by (elim parts_E) (blast dest: closes)+
qed

section \<open>Histories\<close>

text \<open>
  A request as the views get it, and what became of it: the worker it is for, whether a ticket was sold, and
  the frame written.
\<close>

type_synonym 'v asked = "bool \<times> string \<times> 'v"
type_synonym told = "string \<times> bool \<times> string"

definition scramble_all :: "'d mysql \<Rightarrow> 'v request_lib \<Rightarrow> 'v asked list \<Rightarrow> 'd session \<Rightarrow> 'd session res" where
  "scramble_all D J = foldE (\<lambda>(con, now, v). ScrambleView D J con now v)"

text \<open>The reply carries the numbers of the request, and says \<open>success\<close> exactly when a ticket was sold.\<close>

fun told_of :: "'v request_lib \<Rightarrow> 'v asked \<Rightarrow> told \<Rightarrow> bool" where
  "told_of J (con, now, v) (name, ok, f) \<longleftrightarrow> r_string J ''name'' v = Inr name \<and>
     (\<exists>cs pack msg. r_int J ''client_sock'' v = Inr cs \<and> r_int J ''pack_id'' v = Inr pack \<and>
        f = frame_of (cstr (r_reply J cs pack msg)) \<and> (ok \<longleftrightarrow> msg = ''success''))"

text \<open>A request for the task from a worker, on a data base that keeps its promises for that worker.\<close>

definition lawful :: "'d mysql \<Rightarrow> 'v request_lib \<Rightarrow> string \<Rightarrow> ('d \<Rightarrow> tickets) \<Rightarrow> ('d \<Rightarrow> tickets option) \<Rightarrow> 'v asked \<Rightarrow> bool" where
  "lawful D J task view saved r \<longleftrightarrow> r_string J ''task'' (snd (snd r)) = Inr task \<and>
     (\<exists>name. r_string J ''name'' (snd (snd r)) = Inr name \<and> ticket_laws D task name view saved)"

definition winners :: "told list \<Rightarrow> string list" where
  "winners xs = map fst (filter (\<lambda>x. fst (snd x)) xs)"

lemma scramble_told:
  assumes "lawful D J task view saved r" "tx_laws D (\<lambda>d. saved d \<noteq> None)" "accepts_rollback D"
    and "saved (db s) = None" "sound (view (db s))" "ScrambleView D J (fst r) (fst (snd r)) (snd (snd r)) s = Inr s'"
  shows "\<exists>x. told_of J r x \<and> saved (db s') = None \<and> sound (view (db s')) \<and> written s' = written s @ [snd (snd x)] \<and>
    view (db s') = (if fst (snd x) then sold (fst x) (view (db s)) else view (db s))"
proof -
  obtain con now v where r: "r = (con, now, v)" by (cases r)
  obtain name where n: "r_string J ''task'' v = Inr task" "r_string J ''name'' v = Inr name" "ticket_laws D task name view saved"
    using assms(1) by (auto simp: lawful_def r)
  have sv: "saved (db s') = None"
    using scramble_closes[OF assms(2,3) _ assms(6)] assms(4) by auto
  have c: "committed view saved (db s) = view (db s)" "committed view saved (db s') = view (db s')"
    using sv assms(4) by (simp_all add: committed_def)
  have "ScrambleView D J con now v s = Inr s'" using assms(6) by (simp add: r)
  from scramble_sells[OF n(3,1,2) assms(4,5) this, unfolded c]
  obtain cs pack where h: "r_int J ''client_sock'' v = Inr cs" "r_int J ''pack_id'' v = Inr pack" "sound (view (db s'))"
    and x: "refused view saved (r_reply J cs pack) s s' \<or> view (db s') = sold name (view (db s)) \<and>
      written s' = written s @ [frame_of (cstr (r_reply J cs pack ''success''))]" by blast
  from x show ?thesis
  proof (elim disjE conjE)
    assume "refused view saved (r_reply J cs pack) s s'"
    then obtain msg where "view (db s') = view (db s)" "msg \<noteq> ''success''" "written s' = written s @ [frame_of (cstr (r_reply J cs pack msg))]"
      unfolding refused_def c by blast
    then show ?thesis using h sv n(2)
      by (intro exI[of _ "(name, False, frame_of (cstr (r_reply J cs pack msg)))"]) (auto simp: r)
  next
    assume "view (db s') = sold name (view (db s))" "written s' = written s @ [frame_of (cstr (r_reply J cs pack ''success''))]"
    then show ?thesis using h sv n(2)
      by (intro exI[of _ "(name, True, frame_of (cstr (r_reply J cs pack ''success'')))"]) (auto simp: r)
  qed
qed

lemma history_told:
  assumes "\<forall>r\<in>set rs. lawful D J task view saved r" "tx_laws D (\<lambda>d. saved d \<noteq> None)" "accepts_rollback D"
    and "saved (db s) = None" "sound (view (db s))" "scramble_all D J rs s = Inr s'"
  shows "\<exists>xs. list_all2 (told_of J) rs xs \<and> saved (db s') = None \<and> sound (view (db s')) \<and>
    written s' = written s @ map (snd \<circ> snd) xs \<and> total (view (db s')) = total (view (db s)) \<and>
    map fst (holders (view (db s'))) = map fst (holders (view (db s))) @ winners xs \<and>
    remain (view (db s')) = remain (view (db s)) - int (length (winners xs))"
  using assms
proof (induction rs arbitrary: s)
  case Nil
  then show ?case by (intro exI[of _ "[]"]) (simp add: scramble_all_def winners_def)
next
  case (Cons r rs)
  obtain s1 where s1: "ScrambleView D J (fst r) (fst (snd r)) (snd (snd r)) s = Inr s1" "scramble_all D J rs s1 = Inr s'"
    using Cons.prems(6) by (auto simp: scramble_all_def res_simps split_def)
  have l: "lawful D J task view saved r" "\<forall>r\<in>set rs. lawful D J task view saved r" using Cons.prems(1) by simp_all
  obtain x where x: "told_of J r x" "saved (db s1) = None"
    "sound (view (db s1))" "written s1 = written s @ [snd (snd x)]"
    "view (db s1) = (if fst (snd x) then sold (fst x) (view (db s)) else view (db s))"
    using scramble_told[OF l(1) Cons.prems(2-5) s1(1)] by blast
  obtain xs where xs: "list_all2 (told_of J) rs xs" "saved (db s') = None"
    "sound (view (db s'))" "written s' = written s1 @ map (snd \<circ> snd) xs" "total (view (db s')) = total (view (db s1))"
    "map fst (holders (view (db s'))) = map fst (holders (view (db s1))) @ winners xs"
    "remain (view (db s')) = remain (view (db s1)) - int (length (winners xs))"
    using Cons.IH[OF l(2) Cons.prems(2,3) x(2,3) s1(2)] by blast
  show ?case using x xs
    by (intro exI[of _ "x # xs"]) (cases "fst (snd x)"; simp add: winners_def sold_def)
qed

text \<open>C5: Nothing is oversold, nobody is left without an answer. Take any requests for the tickets of a task, from
  any workers, one after the other, on a data base that keeps its promises and accepts rollbacks. Each gets
  exactly one reply, in their order and with its own numbers, which says \<open>success\<close> exactly when a ticket was
  sold to its worker. The tickets sold are those of before and then the winners in the order of their
  requests, numbered 1, 2, 3 and so on without a gap, no worker twice; the rest is smaller by as many, and as
  it never gets below zero, no more than the total are ever sold.\<close>

theorem no_oversell:
  assumes "\<forall>r\<in>set rs. lawful D J task view saved r" "tx_laws D (\<lambda>d. saved d \<noteq> None)" "accepts_rollback D"
    and "saved (db s) = None" "sound (view (db s))" "scramble_all D J rs s = Inr s'"
  shows "\<exists>xs. list_all2 (told_of J) rs xs \<and> written s' = written s @ map (snd \<circ> snd) xs \<and>
    (let t = view (db s); t' = view (db s') in
       map fst (holders t') = map fst (holders t) @ winners xs \<and> map snd (holders t') = map int [1..<length (holders t') + 1] \<and>
       distinct (map fst (holders t')) \<and> total t' = total t \<and> 0 \<le> remain t' \<and> remain t' = remain t - int (length (winners xs)))"
  using history_told[OF assms] unfolding sound_def Let_def by blast

text \<open>The worker of the concrete data base asks twice.\<close>

lemma demo_accepts: "accepts_rollback (demo_mysql True)"
  by (simp add: accepts_rollback_def demo_updates)

lemma demo_lawful: "lawful (demo_mysql True) demo_requests ''pig'' fst snd (con, now, v)"
  using demo_laws by (simp add: lawful_def demo_requests_def)

theorem no_oversell_witness:
  "\<exists>s' xs. scramble_all (demo_mysql True) demo_requests [(True, ''2021-06-01 10:00:01'', 7), (True, ''2021-06-01 10:00:02'', 8)]
       (demo_session 3 [(''bob'', 1)]) = Inr s' \<and> length (written s') = 2 \<and>
     map fst (holders (fst (db s'))) = ''bob'' # winners xs \<and> remain (fst (db s')) = 2 - int (length (winners xs))"
proof -
  let ?rs = "[(True, ''2021-06-01 10:00:01'', 7), (True, ''2021-06-01 10:00:02'', 8)]"
  have n: "stoi (to_string 3) = Inr 3" "stoi (to_string 2) = Inr 2" by (simp_all add: stoi_to_string)
  have run: "\<exists>s'. scramble_all (demo_mysql True) demo_requests ?rs (demo_session 3 [(''bob'', 1)]) = Inr s'"
    by (simp add: scramble_all_def ScrambleView_def demo_requests_def verify_user_def scramble_time_def scramble_begin_def scramble_take_def
      demo_texts_fit demo_insert_fits query_def update_def cstr_texts demo_mysql_def texts_differ demo_session_def
      first_row_def to_string_no_colon n guardE_def give_up_def reply_def)
  then obtain s' where s': "scramble_all (demo_mysql True) demo_requests ?rs (demo_session 3 [(''bob'', 1)]) = Inr s'" by blast
  have l: "\<forall>r\<in>set ?rs. lawful (demo_mysql True) demo_requests ''pig'' fst snd r" using demo_lawful by simp
  have t: "tx_laws (demo_mysql True) (\<lambda>d. snd d \<noteq> None)" using demo_tx_laws[of True] unfolding is_open_def .
  have i: "snd (db (demo_session 3 [(''bob'', 1)])) = None" "sound (fst (db (demo_session 3 [(''bob'', 1)])))"
    by (simp_all add: demo_session_def sound_def)
  from no_oversell[OF l t demo_accepts i s'] obtain xs where "list_all2 (told_of demo_requests) ?rs xs"
    "written s' = map (snd \<circ> snd) xs" "map fst (holders (fst (db s'))) = ''bob'' # winners xs"
    "remain (fst (db s')) = 2 - int (length (winners xs))"
    by (auto simp: Let_def demo_session_def)
  then show ?thesis using s' list_all2_lengthD by fastforce
qed

end
