(* ===== verification/Worker_Theorems.thy ===== *)
theory Worker_Theorems
  imports Worker_Demo
begin

text \<open>
  The properties of a worker: memory safety and the absence of leaks in every reachable state,
  the service of the timeouts, the delivery of replies, the rate limit, and the situations in
  which the code fails.
\<close>

section \<open>Safety\<close>



text \<open>C13: \<open>check_time_out_cb\<close> ends in every reachable state, whatever the clock says, and when it
  ends normally nothing at the front of a queue is overdue any more: the oldest idle record
  belongs to a connected client and is at most \<open>MSG_TIMEOUT\<close> old, the oldest cached request to a
  connected client and at most \<open>FIN_TIMEOUT\<close>.\<close>

theorem timeouts_served:
  assumes "json_ok J" "worker_reach J w"
  shows "\<exists>r. check_time_out_cb now w = Some r \<and> r \<noteq> Inl Dangling \<and>
     (\<forall>w'. r = Inr w' \<longrightarrow> idle_served now w' \<and> fin_served now w')"
proof -
  obtain r where "check_time_out_cb now w = Some r"
    "ok_res (\<lambda>w'. winv {} {} w' \<and> idle_served now w' \<and> fin_served now w') r"
    using check_time_out_cb_ok[OF worker_reach_inv[OF assms]] by blast
  then show ?thesis by (intro exI[of _ r]) (auto simp: ok_res_def)
qed

theorem timeouts_served_witness:
  "\<exists>r. check_time_out_cb 500 (worker3 False) = Some r \<and> r \<noteq> Inl Dangling \<and>
     (\<forall>w'. r = Inr w' \<longrightarrow> idle_served 500 w' \<and> fin_served 500 w')"
  by (rule timeouts_served[OF demo_json_ok worker3_reach])

section \<open>Replies\<close>

lemma delivered:
  assumes "json_ok J" "worker_reach J w" and parse: "j_parse J msg = Some v"
    and route: "j_int J ''client_sock'' v = Inr cs" "j_int J ''pack_id'' v = Inr pack"
    and strip: "j_remove J ''client_sock'' v = Inr v1" "j_remove J ''pack_id'' v1 = Inr v2"
  shows "(case map_of (client_map w) (u32 cs) of
       None \<Rightarrow> server_packet J msg w = Inr (False, w)
     | Some ci \<Rightarrow>
         (case map_of (cli_event_map ci) pack of
            None \<Rightarrow> server_packet J msg w = Inr (False, w)
          | Some p \<Rightarrow> \<exists>w'. server_packet J msg w = Inr (False, w') \<and>
              calls w' = calls w @ [BevWrite (cl_bev ci) (enc_int (int (length (cstr (j_styled J v2))))),
                                    BevWrite (cl_bev ci) (cstr (j_styled J v2))] \<and>
              finish_flag (cells w' p) \<and> c_info (cells w' p) = c_info (cells w p) \<and> server_packet J msg w' = Inr (False, w')))"
proof (cases "map_of (client_map w) (u32 cs)")
  case None
  then show ?thesis using assms(3-7) by (simp add: server_packet_def)
next
  case ci: (Some ci)
  show ?thesis
  proof (cases "map_of (cli_event_map ci) pack")
    case None
    then show ?thesis using ci assms(3-7) by (simp add: server_packet_def)
  next
    case p: (Some p)
    note i = worker_reach_inv[OF assms(1,2)]
    let ?t = "cstr (j_styled J v2)"
    define w2 where "w2 = emit (BevWrite (cl_bev ci) ?t) (emit (BevWrite (cl_bev ci) (enc_int (int (length ?t)))) w)"
    have i2: "winv {} {} w2" using i by (simp add: w2_def)
    have c2: "map_of (client_map w2) (u32 cs) = Some ci" using ci by (simp add: w2_def)
    define w' where "w' = w2\<lparr>cells := (cells w2)(p := (cells w2 p)\<lparr>finish_flag := True\<rparr>),
        client_map := AList.update (u32 cs) (ci\<lparr>cli_event_map := AList.delete pack (cli_event_map ci)\<rparr>) (client_map w2)\<rparr>"
    have b: "bindE (bev_write (cl_bev ci) (enc_int (int (length ?t))) w) (\<lambda>w. bindE (bev_write (cl_bev ci) ?t w) f) = f w2" for f :: "worker \<Rightarrow> (bool \<times> worker) res"
      using winv_client(2)[OF i ci] by (simp add: bev_write_def w2_def)
    have "server_packet J msg w = Inr (False, w')"
      using assms(3-7) ci p finish_request(1)[OF i2 c2 p] c2
      by (simp add: server_packet_def Let_def b mod_client_def get_client_def w'_def)
    moreover have "server_packet J msg w' = Inr (False, w')"
      using assms(3-7) by (simp add: server_packet_def Let_def w'_def update_conv' delete_conv')
    ultimately show ?thesis using ci p by (simp add: w'_def w2_def emit_def)
  qed
qed

text \<open>C6: Delivery of a reply. A packet from a server is delivered when the client it names is
  connected and waits for the packet number it names: the client's connection, and no other, gets
  one frame with the packet less its two routing members, the request is marked finished, and its
  number is no longer waited for. Otherwise nothing changes. In particular a second copy of a
  reply, such as a resent request causes, is dropped.\<close>

theorem reply_delivered_once:
  assumes "json_ok J" "worker_reach J w" and parse: "j_parse J msg = Some v"
    and route: "j_int J ''client_sock'' v = Inr cs" "j_int J ''pack_id'' v = Inr pack"
    and strip: "j_remove J ''client_sock'' v = Inr v1" "j_remove J ''pack_id'' v1 = Inr v2"
  shows "(case map_of (client_map w) (u32 cs) of
       None \<Rightarrow> server_packet J msg w = Inr (False, w)
     | Some ci \<Rightarrow>
         (case map_of (cli_event_map ci) pack of
            None \<Rightarrow> server_packet J msg w = Inr (False, w)
          | Some p \<Rightarrow> \<exists>w'. server_packet J msg w = Inr (False, w') \<and>
              calls w' = calls w @ [BevWrite (cl_bev ci) (enc_int (int (length (cstr (j_styled J v2))))),
                                    BevWrite (cl_bev ci) (cstr (j_styled J v2))] \<and>
              finish_flag (cells w' p) \<and> server_packet J msg w' = Inr (False, w')))"
  using delivered[OF assms] by (auto split: option.splits)

theorem reply_delivered_once_witness:
  "\<exists>w'. server_packet demo_json ''01'' (worker3 False) = Inr (False, w') \<and>
     calls w' = calls (worker3 False) @ [BevWrite 2 (enc_int 2), BevWrite 2 ''01''] \<and>
     server_packet demo_json ''01'' w' = Inr (False, w')"
  using reply_delivered_once[OF demo_json_ok worker3_reach, of "''01''" "''01''" 0 1 "''01''" "''01''"]
  by (auto simp: demo_json_simps small_digits u32_0 worker3_client cstr_def)

section \<open>Rate limit\<close>

text \<open>What a packet may add to the packets forwarded for the client.\<close>

definition credit :: "client_information \<Rightarrow> int" where
  "credit ci = pack_id ci + max 0 (10 - cl_count ci)"

definition within :: "int \<Rightarrow> int \<Rightarrow> worker \<Rightarrow> bool" where
  "within c n w \<longleftrightarrow> (\<exists>ci. map_of (client_map w) c = Some ci \<and> credit ci \<le> n)"

text \<open>The parts of a packet: only the limit counts, only forwarding takes a number.\<close>

lemma within_same: "client_map u' = client_map u \<Longrightarrow> within c n u' = within c n u"
  by (simp add: within_def)

lemma parts_client_map:
  "put_ev p f u = Inr u' \<Longrightarrow> client_map u' = client_map u" "alloc_ev env u = Inr (p, u') \<Longrightarrow> client_map u' = client_map u"
  "push_msg p u = Inr u' \<Longrightarrow> client_map u' = client_map u" "push_fin p u = Inr u' \<Longrightarrow> client_map u' = client_map u"
  by (auto simp: put_ev_def alloc_ev_def push_msg_def push_fin_def res_simps split: if_splits)

lemma mod_client_within:
  "mod_client c f u = Inr u' \<Longrightarrow> (\<And>ci. pack_id (f ci) = pack_id ci \<and> cl_count (f ci) = cl_count ci) \<Longrightarrow> within c n u' = within c n u"
  by (auto simp: within_def mod_client_def get_client_def update_conv' credit_def split: option.splits)

lemma renew_idle_within: "renew_idle env c u = Inr u' \<Longrightarrow> within c n u \<Longrightarrow> within c n u'"
  by (auto simp: renew_idle_def res_simps split: option.splits dest!: parts_client_map[THEN within_same[where c = c and n = n]] mod_client_within[where n = n])

lemma cache_request_within: "cache_request env c t u = Inr u' \<Longrightarrow> within c n u \<Longrightarrow> within c n u'"
  by (auto simp: cache_request_def res_simps dest!: parts_client_map[THEN within_same[where c = c and n = n]] mod_client_within[where n = n])

lemma current_limit_within:
  "current_limit c u = Inr (b, u') \<Longrightarrow> within c n u \<Longrightarrow>
    \<exists>ci. map_of (client_map u') c = Some ci \<and> (if b then credit ci + 1 \<le> n else credit ci \<le> n)"
  by (auto simp: current_limit_def res_simps within_def mod_client_def get_client_def update_conv' credit_def emit_def
      split: option.splits if_splits)

lemma forward_request_within:
  "forward_request J c v u = Inr (t, u') \<Longrightarrow> map_of (client_map u) c = Some ci \<Longrightarrow> credit ci + 1 \<le> n \<Longrightarrow> within c n u'"
  by (auto simp: forward_request_def res_simps Let_def bev_write_def within_def mod_client_def get_client_def update_conv' credit_def emit_def
      split: option.splits if_splits)

lemma client_packet_within:
  assumes "client_packet J env c msg w = Inr (stop, w')" "within c n w"
  shows "within c n w'"
proof (cases "j_parse J msg")
  case None
  then show ?thesis using assms by (simp add: client_packet_def)
next
  case (Some v)
  define w0 where "w0 = w\<lparr>read_count := read_count w mod int (length (m_Serverlist w))\<rparr>"
  have w0: "within c n w0" using assms(2) by (simp add: within_def w0_def)
  from assms(1) Some obtain b u where u: "current_limit c w0 = Inr (b, u)"
    "if b then \<exists>t u2 u3. forward_request J c v u = Inr (t, u2) \<and> renew_idle env c u2 = Inr u3 \<and> cache_request env c t u3 = Inr w'
     else w' = u"
    by (auto simp: client_packet_def Let_def w0_def[symmetric] res_simps split: if_splits)
  obtain ci where ci: "map_of (client_map u) c = Some ci" "if b then credit ci + 1 \<le> n else credit ci \<le> n"
    using current_limit_within[OF u(1) w0] by blast
  show ?thesis
  proof (cases b)
    case True
    then obtain t u2 u3 where f: "forward_request J c v u = Inr (t, u2)" "renew_idle env c u2 = Inr u3" "cache_request env c t u3 = Inr w'"
      using u(2) by auto
    have "within c n u2" using forward_request_within[OF f(1) ci(1)] ci(2) True by simp
    from cache_request_within[OF f(3) renew_idle_within[OF f(2) this]] show ?thesis .
  next
    case False
    then show ?thesis using u(2) ci by (auto simp: within_def)
  qed
qed

lemma client_read_loop_within:
  "client_read_loop J env c inp w = Inr (rest, w') \<Longrightarrow> within c n w \<Longrightarrow> within c n w'"
  using requests.loop_InrD[of J env c inp w rest w' "within c n"] by (blast dest: client_packet_within)

text \<open>C11: The rate limit. However many packets a client's read callback finds, the number it
  forwards (the growth of \<open>pack_id\<close>) is at most what the count leaves of ten since the last
  reset; a client that is marked for closing gets nothing forwarded.\<close>

theorem rate_limited:
  assumes "client_socket_read_cb J env arg inp w = Inr (rest, w')" "map_of (client_map w) (u32 arg) = Some ci"
  shows "\<exists>ci'. map_of (client_map w') (u32 arg) = Some ci' \<and>
     pack_id ci' \<le> pack_id ci + (if close_flag ci then 0 else max 0 (10 - cl_count ci))"
proof (cases "close_flag ci")
  case True
  then show ?thesis using assms by (simp add: client_socket_read_cb_def get_client_def)
next
  case False
  then have "client_read_loop J env (u32 arg) inp w = Inr (rest, w')"
    using assms by (simp add: client_socket_read_cb_def get_client_def)
  then have "within (u32 arg) (credit ci) w'"
    by (rule client_read_loop_within) (use assms(2) in \<open>simp add: within_def\<close>)
  then obtain ci' where "map_of (client_map w') (u32 arg) = Some ci'" "credit ci' \<le> credit ci" by (auto simp: within_def)
  then show ?thesis using False by (intro exI[of _ ci']) (auto simp: credit_def)
qed

theorem rate_limited_witness:
  "\<exists>ci'. map_of (client_map (worker3 False)) (u32 0) = Some ci' \<and> pack_id ci' \<le> 10"
  using rate_limited[OF worker3_eval(1)[of False], of "(new_client_information 2 ''10.1.1.1'')\<lparr>cli_event_map := [(0, 4192)]\<rparr>"]
  by (simp add: worker2_eval(2) u32_def new_client_information_def)

end
