(* ===== verification/Gateway_Start.thy ===== *)
theory Gateway_Start
  imports Gateway_Theorems Worker_Theorems
begin

text \<open>
  The start of the gateway: \<open>main\<close> of \<^verbatim>\<open>src/proxy/proxy.cc\<close>, the constructor of \<open>processpool\<close> with
  its loop around \<open>fork\<close>, and \<open>run\<close>, \<open>run_parent\<close> and \<open>run_child\<close> of \<^verbatim>\<open>include/pool.h\<close> up to the
  event loops. A process is what it sees: \<open>kernel\<close> holds the results of its system calls, and the
  processes of one start differ in what \<open>fork\<close> returned to them.
\<close>

section \<open>The kernel and the configuration\<close>

text \<open>
  \<open>k_file\<close> is the content of \<open>proxy_configurations.json\<close>, \<^term>\<open>None\<close> when it cannot be opened.
  \<open>k_socket i\<close> is the result of the \<open>i\<close>-th call of \<open>socket\<close>, \<open>k_pair i\<close> and \<open>k_fork i\<close> those of the
  \<open>i\<close>-th round of the loop, \<open>k_connect i\<close> and \<open>k_bev i\<close> those for the \<open>i\<close>-th server listed.
\<close>

record kernel =
  k_file :: "string option"
  k_socket :: "nat \<Rightarrow> int"
  k_bind :: "int \<Rightarrow> int \<Rightarrow> int"
  k_listen :: "int \<Rightarrow> int \<Rightarrow> int"
  k_ftok :: int
  k_shmget :: int
  k_shmat :: bool
  k_pair :: "nat \<Rightarrow> bool"
  k_fork :: "nat \<Rightarrow> int"
  k_event :: bool
  k_event_add :: "int \<Rightarrow> int"
  k_msgget :: int
  k_msgsnd :: bool
  k_connect :: "nat \<Rightarrow> server \<Rightarrow> int option"
  k_bev :: "nat \<Rightarrow> nat"
  k_thread :: "nat \<Rightarrow> int"

text \<open>
  What the code uses of jsoncpp here: \<open>reader.parse\<close>, \<open>root[name]\<close>, \<open>root[name].asInt()\<close>,
  \<open>root[name].asString()\<close> and a default \<open>Json::Value\<close>.
\<close>

record 'j config_lib =
  c_parse :: "string \<Rightarrow> 'j option"
  c_member :: "string \<Rightarrow> 'j \<Rightarrow> 'j res"
  c_int :: "string \<Rightarrow> 'j \<Rightarrow> int res"
  c_str :: "string \<Rightarrow> 'j \<Rightarrow> string res"
  c_null :: 'j

text \<open>
  The first part of \<open>main\<close>. The three numbers are locals without a value when the file does not
  parse.
\<close>

definition proxy_config :: "'j config_lib \<Rightarrow> kernel \<Rightarrow> (int \<times> int \<times> int) option res" where
  "proxy_config C K =
     (case k_file K of
        None \<Rightarrow> Inr None
      | Some f \<Rightarrow>
          (case c_parse C f of
             None \<Rightarrow> Inl Uninit
           | Some root \<Rightarrow>
               bindE (c_int C ''client_port'' root) (\<lambda>client_port.
               bindE (c_int C ''server_port'' root) (\<lambda>server_port.
               bindE (c_int C ''process_number'' root) (\<lambda>process_number.
               Inr (if main_config_ok client_port server_port process_number
                    then Some (client_port, server_port, process_number) else None))))))"

text \<open>\<open>socket\<close>, \<open>bind\<close> to the port (\<open>htons\<close> takes its low 16 bits) and \<open>listen\<close>, each with an assertion.\<close>

definition listen_on :: "kernel \<Rightarrow> nat \<Rightarrow> int \<Rightarrow> int \<Rightarrow> int res" where
  "listen_on K i port backlog =
     (let fd = k_socket K i in
      bindE (guardE Assert_Failed (fd \<noteq> -1)) (\<lambda>_.
      bindE (guardE Assert_Failed (k_bind K fd (port mod 65536) \<noteq> -1)) (\<lambda>_.
      bindE (guardE Assert_Failed (k_listen K fd backlog \<noteq> -1)) (\<lambda>_. Inr fd))))"

section \<open>The processes\<close>

text \<open>
  \<open>pp_ends\<close> are the ends of the socket pairs that the process has open: \<open>(i, 0)\<close> is
  \<open>m_sub_process[i].m_piped[0]\<close>.
\<close>

record processpool =
  pp_idx :: int
  pp_clistenfd :: int
  pp_slistenfd :: int
  pp_process_number :: int
  pp_shm :: Hhei_Ming_Dan
  pp_pids :: "int list"
  pp_ends :: "(nat \<times> nat) set"

text \<open>The loop of the constructor: the parent goes on, the child leaves it with its number.\<close>

fun fork_loop :: "kernel \<Rightarrow> nat list \<Rightarrow> processpool \<Rightarrow> processpool res" where
  "fork_loop K [] p = Inr p"
| "fork_loop K (i # is) p =
     (let p = (if k_pair K i then p\<lparr>pp_ends := pp_ends p \<union> {(i, 0), (i, 1)}\<rparr> else p); pid = k_fork K i in
      bindE (guardE Assert_Failed (0 \<le> pid)) (\<lambda>_.
      let p = p\<lparr>pp_pids := pp_pids p @ [pid]\<rparr> in
      if 0 < pid then fork_loop K is (p\<lparr>pp_ends := pp_ends p - {(i, 1)}\<rparr>)
      else Inr (p\<lparr>pp_ends := pp_ends p - {(i, 0)}, pp_idx := int i\<rparr>)))"

text \<open>
  The constructor. The result of \<open>shmat\<close> is used unchecked; \<open>new process[n]\<close> throws for a negative
  number.
\<close>

definition new_processpool :: "kernel \<Rightarrow> int \<Rightarrow> int \<Rightarrow> int \<Rightarrow> processpool res" where
  "new_processpool K client_listen server_listen process_number =
     bindE (guardE Assert_Failed (0 \<le> k_ftok K)) (\<lambda>_.
     bindE (guardE Assert_Failed (0 \<le> k_shmget K)) (\<lambda>_.
     bindE (guardE Dangling (k_shmat K)) (\<lambda>_.
     bindE (guardE Uncaught (0 \<le> process_number)) (\<lambda>_.
     fork_loop K [0..<nat process_number]
       \<lparr>pp_idx = -1, pp_clistenfd = client_listen, pp_slistenfd = server_listen, pp_process_number = process_number,
        pp_shm = init_shm, pp_pids = [], pp_ends = {}\<rparr>))))"

section \<open>The event loops\<close>

datatype handler =
    ListenerClient
  | ListenerServer
  | OnSignal
  | EmptyHeimingdan
  | PipeEvent
  | EmptyCount
  | CheckTimeOut

text \<open>What is registered with \<open>event_new\<close> and \<open>event_add\<close>.\<close>

datatype event =
    Readable int handler
  | ReadablePipe nat nat handler
  | Signal int handler
  | Every int handler

text \<open>The servers listed as up, with the results of \<open>connect\<close> and the handles made for them.\<close>

definition attempts :: "kernel \<Rightarrow> server list \<Rightarrow> (string \<times> int \<times> int option \<times> nat) list" where
  "attempts K up = map (\<lambda>(i, ip, port). (ip, port, k_connect K i (ip, port), k_bev K i)) (enumerate 0 up)"

text \<open>
  \<open>run_child\<close>: the events registered when the loop is entered, none when it returns before. \<open>junk\<close> is
  the \<open>process_id\<close> of a message that is never set.
\<close>

definition run_child :: "'f codec \<Rightarrow> kernel \<Rightarrow> int \<Rightarrow> 'f monitor \<Rightarrow> processpool \<Rightarrow> worker \<Rightarrow> (event list \<times> worker) res" where
  "run_child cd K junk s p w =
     (if \<not> k_event K then Inr ([], w)
      else if k_msgget K = -1 then Inr ([], w)
      else let (ret, server_up, server_down) = LoadServerList cd s ([], []) in
        if ret \<noteq> 0 then Inr ([], w)
        else
          bindE (connect_servers junk (k_msgsnd K) (attempts K server_up) w) (\<lambda>(go, w).
          if \<not> go then Inr ([], w)
          else Inr ([Every 1 EmptyCount, Every CB_TIMEOUT CheckTimeOut, ReadablePipe (nat (pp_idx p)) 1 PipeEvent], w)))"

text \<open>\<open>ServerMonitor\<close> and the two threads; that a thread could not be created is only logged.\<close>

record server_monitor =
  m_interval :: int
  m_maxfails :: int
  m_type :: string
  m_process_num :: int
  active_running :: bool
  passive_running :: bool
  m_running :: bool

definition ServerMonitor :: "int \<Rightarrow> int \<Rightarrow> string \<Rightarrow> int \<Rightarrow> server_monitor" where
  "ServerMonitor interval maxfails type process_num =
     \<lparr>m_interval = interval, m_maxfails = maxfails, m_type = type, m_process_num = process_num,
      active_running = False, passive_running = False, m_running = True\<rparr>"

definition StartActiveDetect :: "kernel \<Rightarrow> server_monitor \<Rightarrow> int \<times> server_monitor" where
  "StartActiveDetect K sm = (if k_thread K 0 \<noteq> 0 then (-1, sm) else (0, sm\<lparr>active_running := True\<rparr>))"

definition StartPassiveDetect :: "kernel \<Rightarrow> server_monitor \<Rightarrow> int \<times> server_monitor" where
  "StartPassiveDetect K sm = (if k_thread K 1 \<noteq> 0 then (-1, sm) else (0, sm\<lparr>passive_running := True\<rparr>))"

text \<open>
  \<open>run_parent\<close> reads the file again; \<open>check_params\<close> is null when it does not parse. It returns before
  the loop when the file or a parameter is missing.
\<close>

definition SIGINT :: int where "SIGINT = 2"
definition SIGTERM :: int where "SIGTERM = 15"

definition check_params :: "'j config_lib \<Rightarrow> string \<Rightarrow> 'j res" where
  "check_params C f = (case c_parse C f of None \<Rightarrow> Inr (c_null C) | Some root \<Rightarrow> c_member C ''check_params'' root)"

definition run_parent :: "'j config_lib \<Rightarrow> kernel \<Rightarrow> processpool \<Rightarrow> (server_monitor \<times> event list) option res" where
  "run_parent C K p =
     (case k_file K of
        None \<Rightarrow> Inr None
      | Some f \<Rightarrow>
          bindE (check_params C f) (\<lambda>params.
          bindE (c_int C ''interval'' params) (\<lambda>interval.
          bindE (c_int C ''maxfails'' params) (\<lambda>maxfails.
          bindE (c_str C ''type'' params) (\<lambda>type.
          bindE (c_int C ''active'' params) (\<lambda>active.
          bindE (c_int C ''passive'' params) (\<lambda>passive.
          if \<not> parent_config_ok interval maxfails type then Inr None
          else
            let sm = ServerMonitor interval maxfails type (pp_process_number p);
                sm = (if active \<noteq> 0 then snd (StartActiveDetect K sm) else sm);
                sm = (if passive \<noteq> 0 then snd (StartPassiveDetect K sm) else sm) in
            bindE (guardE Assert_Failed (k_event_add K SIGINT = 0)) (\<lambda>_.
            bindE (guardE Assert_Failed (k_event_add K SIGTERM = 0)) (\<lambda>_.
            Inr (Some (sm, [Readable (pp_clistenfd p) ListenerClient, Readable (pp_slistenfd p) ListenerServer,
                            Signal SIGINT OnSignal, Signal SIGTERM OnSignal, Every 600 EmptyHeimingdan])))))))))))"

section \<open>The whole start\<close>

text \<open>
  What becomes of a process: it returns from \<open>main\<close>, or it is the main process or a worker in its
  event loop.
\<close>

datatype 'f gateway_process =
    Returned int
  | MainProcess server_monitor "event list" "'f main_process"
  | WorkProcess "event list" worker

text \<open>\<open>s\<close> is the server list file; the ends of the pipes that the main process keeps are empty.\<close>

definition start_main :: "'f monitor \<Rightarrow> processpool \<Rightarrow> 'f main_process" where
  "start_main s p = \<lparr>mon = s\<lparr>pipes := replicate (nat (pp_process_number p)) []\<rparr>, shm = pp_shm p,
     accept_count = 0, reg_conns = [], main_calls = [], main_bevs = {}\<rparr>"

definition run :: "'j config_lib \<Rightarrow> 'f codec \<Rightarrow> kernel \<Rightarrow> int \<Rightarrow> 'f monitor \<Rightarrow> MemoryPool \<Rightarrow> (int \<Rightarrow> cli_event) \<Rightarrow>
    processpool \<Rightarrow> 'f gateway_process res" where
  "run C cd K junk s pool mem0 p =
     (if pp_idx p = -1 then
        bindE (run_parent C K p) (\<lambda>r.
        case r of None \<Rightarrow> Inr (Returned 0) | Some (sm, evs) \<Rightarrow> Inr (MainProcess sm evs (start_main s p)))
      else
        bindE (run_child cd K junk s p (init_worker (pp_idx p) pool mem0)) (\<lambda>(evs, w).
        if evs = [] then Inr (Returned 0) else Inr (WorkProcess evs w)))"

definition proxy_main :: "'j config_lib \<Rightarrow> 'f codec \<Rightarrow> kernel \<Rightarrow> int \<Rightarrow> 'f monitor \<Rightarrow> MemoryPool \<Rightarrow> (int \<Rightarrow> cli_event) \<Rightarrow>
    'f gateway_process res" where
  "proxy_main C cd K junk s pool mem0 =
     bindE (proxy_config C K) (\<lambda>c.
     case c of
       None \<Rightarrow> Inr (Returned (-1))
     | Some (client_port, server_port, process_number) \<Rightarrow>
         bindE (listen_on K 0 client_port 1000) (\<lambda>m_clistenfd.
         bindE (listen_on K 1 server_port 100) (\<lambda>m_slistenfd.
         bindE (new_processpool K m_clistenfd m_slistenfd process_number) (run C cd K junk s pool mem0))))"

section \<open>The tree of processes\<close>

text \<open>
  \<open>fork\<close> returns the number of the child to the parent and 0 to the child, and the child has the
  results that the parent had before. \<open>of_parent\<close> and \<open>of_child\<close> are the kernels of the main process
  and of the \<open>i\<close>-th worker of one start.
\<close>

definition of_parent :: "(nat \<Rightarrow> int) \<Rightarrow> kernel \<Rightarrow> kernel" where
  "of_parent pid K = K\<lparr>k_fork := pid\<rparr>"

definition of_child :: "(nat \<Rightarrow> int) \<Rightarrow> nat \<Rightarrow> kernel \<Rightarrow> kernel" where
  "of_child pid i K = K\<lparr>k_fork := pid(i := 0)\<rparr>"

lemma fork_parent:
  assumes "\<forall>i\<in>set is. 0 < pid i \<and> k_pair K i"
  shows "fork_loop (of_parent pid K) is p =
    Inr (p\<lparr>pp_pids := pp_pids p @ map pid is, pp_ends := (pp_ends p \<union> {(i, 0) |i. i \<in> set is}) - {(i, 1) |i. i \<in> set is}\<rparr>)"
  using assms
proof (induction "is" arbitrary: p)
  case (Cons i "is")
  have "(pp_ends p \<union> {(i, 0), (i, 1)} - {(i, 1)} \<union> {(j, 0) |j. j \<in> set is}) - {(j, 1) |j. j \<in> set is} =
      (pp_ends p \<union> {(j, 0) |j. j \<in> set (i # is)}) - {(j, 1) |j. j \<in> set (i # is)}" by auto
  with Cons show ?case by (simp add: of_parent_def Let_def)
qed simp

lemma fork_child:
  assumes "k \<notin> set is" "\<forall>i\<in>set is. 0 < pid i \<and> k_pair K i" "k_pair K k"
  shows "fork_loop (of_child pid k K) (is @ k # rest) p =
    Inr (p\<lparr>pp_idx := int k, pp_pids := pp_pids p @ map pid is @ [0],
           pp_ends := (pp_ends p \<union> {(i, 0) |i. i \<in> set is} - {(i, 1) |i. i \<in> set is}) \<union> {(k, 1)} - {(k, 0)}\<rparr>)"
  using assms
proof (induction "is" arbitrary: p)
  case Nil
  then show ?case by (auto simp: of_child_def Let_def)
next
  case (Cons i "is")
  have "(pp_ends p \<union> {(i, 0), (i, 1)} - {(i, 1)} \<union> {(j, 0) |j. j \<in> set is}) - {(j, 1) |j. j \<in> set is} =
      (pp_ends p \<union> {(j, 0) |j. j \<in> set (i # is)}) - {(j, 1) |j. j \<in> set (i # is)}" by auto
  with Cons show ?case by (simp add: of_child_def Let_def)
qed

section \<open>The servers of a worker\<close>

definition connect_calls :: "int \<Rightarrow> string \<times> int \<times> int option \<times> nat \<Rightarrow> call list" where
  "connect_calls junk = (\<lambda>(ip, port, conn, bev). Connect ip port #
     (case conn of None \<Rightarrow> [MsgSnd \<lparr>msg_type = 1, msg_port = port, msg_ip = ip, process_id = junk\<rparr>] | Some _ \<Rightarrow> []))"

definition connected :: "(string \<times> int \<times> int option \<times> nat) list \<Rightarrow> (nat \<times> string) list" where
  "connected xs = map (\<lambda>(ip, port, conn, bev). (bev, ip_port ip port)) (filter (\<lambda>(ip, port, conn, bev). conn \<noteq> None) xs)"

lemma connect_servers_exact:
  assumes "\<forall>(ip, _)\<in>set xs. length ip < 20"
  shows "\<exists>w'. connect_servers junk True xs w = Inr (True, w') \<and> m_idx w' = m_idx w \<and>
     m_server_info w' = m_server_info w @ connected xs \<and> calls w' = calls w @ concat (map (connect_calls junk) xs)"
  using assms
proof (induction xs arbitrary: w)
  case (Cons x xs)
  obtain ip port conn bev where x: "x = (ip, port, conn, bev)" by (cases x)
  then have ip: "strcpy_at (replicate 20 NUL) 0 ip = Inr (ip @ NUL # replicate (19 - length ip) NUL)"
    using Cons.prems by (simp add: strcpy_at_def)
  show ?case
  proof (cases conn)
    case None
    let ?w = "emit (MsgSnd \<lparr>msg_type = 1, msg_port = port, msg_ip = ip, process_id = junk\<rparr>) (emit (Connect ip port) w)"
    show ?thesis using Cons.IH[of ?w] Cons.prems
      by (simp add: x ip None Let_def connected_def connect_calls_def) (simp add: emit_def)
  next
    case (Some fd)
    let ?w = "(open_bev bev (emit (Connect ip port) w))\<lparr>m_Serverlist := m_Serverlist w @ [(fd, bev)], m_server_info := m_server_info w @ [(bev, ip_port ip port)]\<rparr>"
    show ?thesis using Cons.IH[of ?w] Cons.prems
      by (simp add: x ip Some Let_def connected_def connect_calls_def emit_def open_bev_def)
  qed
qed (simp add: connected_def)

section \<open>Where the start leads\<close>

text \<open>A kernel on which no system call of the start fails.\<close>

definition kernel_ok :: "kernel \<Rightarrow> bool" where
  "kernel_ok K \<longleftrightarrow> k_socket K 0 \<noteq> -1 \<and> k_socket K 1 \<noteq> -1 \<and> (\<forall>fd port. k_bind K fd port \<noteq> -1) \<and>
     (\<forall>fd backlog. k_listen K fd backlog \<noteq> -1) \<and> 0 \<le> k_ftok K \<and> 0 \<le> k_shmget K \<and> k_shmat K \<and> (\<forall>i. k_pair K i) \<and>
     k_event K \<and> (\<forall>sig. k_event_add K sig = 0) \<and> k_msgget K \<noteq> -1 \<and> k_msgsnd K \<and> inj (k_bev K) \<and>
     (\<forall>i j e e' fd. k_connect K i e = Some fd \<longrightarrow> k_connect K j e' = Some fd \<longrightarrow> i = j)"

lemma kernel_ok_fork [simp]: "kernel_ok (of_parent pid K) = kernel_ok K" "kernel_ok (of_child pid k K) = kernel_ok K"
  by (simp_all add: kernel_ok_def of_parent_def of_child_def)

lemma fork_socket [simp]: "k_socket (of_parent pid K) = k_socket K" "k_socket (of_child pid k K) = k_socket K"
  by (simp_all add: of_parent_def of_child_def)

lemma listen_on_ok: "kernel_ok K \<Longrightarrow> i < 2 \<Longrightarrow> listen_on K i port backlog = Inr (k_socket K i)"
  by (auto simp: listen_on_def kernel_ok_def less_2_cases_iff)

text \<open>The parameters that \<open>main\<close> reads, and those that \<open>run_parent\<close> reads.\<close>

definition config_has :: "'j config_lib \<Rightarrow> kernel \<Rightarrow> int \<times> int \<times> int \<Rightarrow> 'j \<Rightarrow> bool" where
  "config_has C K c root \<longleftrightarrow> (\<exists>f. k_file K = Some f \<and> c_parse C f = Some root) \<and>
     c_int C ''client_port'' root = Inr (fst c) \<and> c_int C ''server_port'' root = Inr (fst (snd c)) \<and>
     c_int C ''process_number'' root = Inr (snd (snd c))"

definition params_have :: "'j config_lib \<Rightarrow> 'j \<Rightarrow> int \<Rightarrow> int \<Rightarrow> string \<Rightarrow> int \<Rightarrow> int \<Rightarrow> bool" where
  "params_have C root interval maxfails type active passive \<longleftrightarrow>
     (\<exists>params. c_member C ''check_params'' root = Inr params \<and>
       c_int C ''interval'' params = Inr interval \<and> c_int C ''maxfails'' params = Inr maxfails \<and> c_str C ''type'' params = Inr type \<and>
       c_int C ''active'' params = Inr active \<and> c_int C ''passive'' params = Inr passive)"

lemma config_has_fork [simp]:
  "config_has C (of_parent pid K) c root = config_has C K c root" "config_has C (of_child pid k K) c root = config_has C K c root"
  by (simp_all add: config_has_def of_parent_def of_child_def)

lemma proxy_main_forks:
  assumes "kernel_ok K" "config_has C K (client_port, server_port, n) root" "main_config_ok client_port server_port n" "0 < n"
  shows "proxy_main C cd K junk s pool mem0 =
    bindE (fork_loop K [0..<nat n] \<lparr>pp_idx = -1, pp_clistenfd = k_socket K 0, pp_slistenfd = k_socket K 1, pp_process_number = n,
        pp_shm = init_shm, pp_pids = [], pp_ends = {}\<rparr>) (run C cd K junk s pool mem0)"
  using assms
  by (auto simp: proxy_main_def proxy_config_def config_has_def listen_on_ok new_processpool_def kernel_ok_def)

lemma upt_split: "k < n \<Longrightarrow> [0..<n] = [0..<k] @ k # [Suc k..<n]"
  using upt_add_eq_append[of 0 k "n - k"] upt_conv_Cons[of k n] by simp

lemma fresh_attempts:
  assumes "kernel_ok K"
  shows "fresh_conns (attempts K up) (init_worker idx pool mem0)"
proof -
  have "map (\<lambda>(i, ip, port). k_bev K i) (enumerate j up) = map (k_bev K) [j..<j + length up]" for j
  proof -
    have "map (\<lambda>(i, ip, port). k_bev K i) (enumerate j up) = map (k_bev K) (map fst (enumerate j up))"
      by (simp add: split_def del: map_fst_enumerate)
    then show ?thesis by (simp only: map_fst_enumerate)
  qed
  then have "distinct (map (\<lambda>(i, ip, port). k_bev K i) (enumerate j up))" for j
    using assms by (auto simp: kernel_ok_def distinct_map intro: inj_on_subset)
  moreover have "distinct (List.map_filter (\<lambda>(i, e). k_connect K i e) (enumerate j up)) \<and>
      (\<forall>fd\<in>set (List.map_filter (\<lambda>(i, e). k_connect K i e) (enumerate j up)). \<exists>i\<ge>j. \<exists>e. k_connect K i e = Some fd)" for j
  proof (induction up arbitrary: j)
    case (Cons e up)
    let ?r = "List.map_filter (\<lambda>(i, e). k_connect K i e) (enumerate (Suc j) up)"
    have r: "\<exists>i>j. \<exists>e. k_connect K i e = Some fd" if "fd \<in> set ?r" for fd
      using Cons[of "Suc j"] that by (simp add: Suc_le_eq)
    have n: "fd \<notin> set ?r" if "k_connect K j e = Some fd" for fd
    proof
      assume "fd \<in> set ?r"
      then obtain i e' where "j < i" "k_connect K i e' = Some fd" using r by blast
      then show False using assms that unfolding kernel_ok_def by blast
    qed
    have "distinct ?r" using Cons[of "Suc j"] by simp
    then have "distinct (List.map_filter (\<lambda>(i, e). k_connect K i e) (enumerate j (e # up)))"
      using n by (cases "k_connect K j e") (auto simp: map_filter_simps)
    moreover have "\<exists>i\<ge>j. \<exists>e. k_connect K i e = Some fd"
      if "fd \<in> set (List.map_filter (\<lambda>(i, e). k_connect K i e) (enumerate j (e # up)))" for fd
    proof (cases "k_connect K j e = Some fd")
      case False
      then have "fd \<in> set ?r" using that by (cases "k_connect K j e") (auto simp: map_filter_simps)
      then show ?thesis using r less_imp_le by blast
    qed blast
    ultimately show ?case by blast
  qed (simp add: map_filter_simps)
  moreover have "map (\<lambda>(_, _, _, bev). bev) (attempts K up) = map (\<lambda>(i, ip, port). k_bev K i) (enumerate 0 up)"
    by (simp add: attempts_def o_def split_def)
  moreover have "List.map_filter (\<lambda>(_, _, conn, _). conn) (attempts K up) = List.map_filter (\<lambda>(i, e). k_connect K i e) (enumerate 0 up)"
    by (simp add: attempts_def map_filter_def filter_map o_def split_def)
  ultimately show ?thesis by (auto simp: fresh_conns_def init_worker_def)
qed

abbreviation first_pool :: "kernel \<Rightarrow> int \<Rightarrow> processpool" where
  "first_pool K n \<equiv> \<lparr>pp_idx = -1, pp_clistenfd = k_socket K 0, pp_slistenfd = k_socket K 1, pp_process_number = n,
     pp_shm = init_shm, pp_pids = [], pp_ends = {}\<rparr>"

lemma worker_starts:
  assumes "kernel_ok K" "config_has C K (client_port, server_port, n) root" "main_config_ok client_port server_port n" "0 < n"
    and "\<forall>i<nat n. 0 < pid i" "reg_file s \<noteq> None" "lists_of cd s = (up, down)" "\<forall>(ip, _)\<in>set up. length ip < 20"
    and "MemoryPoolInit ext mpa a MAX_MEM MEM_POOL_SIZE = Some pool" "mpa \<noteq> 0" "0 < a" "k < nat n"
  shows "\<exists>w. proxy_main C cd (of_child pid k K) junk s pool mem0 = Inr (WorkProcess
        [Every 1 EmptyCount, Every 2 CheckTimeOut, ReadablePipe k 1 PipeEvent] w) \<and>
      worker_reach J w \<and> m_idx w = int k \<and> m_server_info w = connected (attempts K up) \<and>
      calls w = concat (map (connect_calls junk) (attempts K up))"
proof -
  let ?K = "of_child pid k K"
  have pair: "k_pair K i" for i using assms(1) by (simp add: kernel_ok_def)
  obtain p where p: "fork_loop ?K [0..<nat n] (first_pool K n) = Inr p" "pp_idx p = int k"
    using fork_child[of k "[0..<k]" pid K "[Suc k..<nat n]" "first_pool K n"] upt_split[OF assms(12)] assms(5,12) pair by auto
  have same: "attempts ?K up = attempts K up" by (simp add: attempts_def of_child_def)
  have "\<forall>(ip, _)\<in>set (attempts K up). length ip < 20"
    using assms(8) by (auto simp: attempts_def in_set_enumerate_eq) (metis case_prodD nth_mem)
  then obtain w where w: "connect_servers junk True (attempts K up) (init_worker (int k) pool mem0) = Inr (True, w)" "m_idx w = int k"
    "m_server_info w = connected (attempts K up)" "calls w = concat (map (connect_calls junk) (attempts K up))"
    using connect_servers_exact[of "attempts K up" junk "init_worker (int k) pool mem0"] by (auto simp: init_worker_def)
  have "pool_ok pool" "live pool = {}"
    using MemoryPoolInit_ok[of MEM_POOL_SIZE MAX_MEM a mpa ext] assms(9-11)
    by (auto simp: MAX_MEM_def MEM_POOL_SIZE_def KB_def MB_def GB_def)
  then have r: "worker_reach J w" using worker_reach.start[OF _ _ fresh_attempts[OF assms(1)] w(1)] by blast
  have "proxy_main C cd ?K junk s pool mem0 = run C cd ?K junk s pool mem0 p"
    using proxy_main_forks[of ?K C client_port server_port n root cd junk s pool mem0] assms(1-4) p(1) by simp
  moreover have "k_msgsnd K" "k_msgget K \<noteq> -1" "k_event K" using assms(1) by (auto simp: kernel_ok_def)
  ultimately show ?thesis
    using p(2) w r load_ok[OF assms(6), of cd] assms(7) same
    by (intro exI[of _ w]) (simp add: run_def run_child_def of_child_def CB_TIMEOUT_def)
qed

lemma parent_runs:
  assumes "kernel_ok K" "config_has C K (client_port, server_port, n) root" "main_config_ok client_port server_port n" "0 < n"
    and "\<forall>i<nat n. 0 < pid i"
  obtains p where "proxy_main C cd (of_parent pid K) junk s pool mem0 = run C cd (of_parent pid K) junk s pool mem0 p"
    "pp_idx p = -1" "pp_process_number p = n" "pp_clistenfd p = k_socket K 0" "pp_slistenfd p = k_socket K 1" "pp_shm p = init_shm"
proof -
  have pair: "k_pair K i" for i using assms(1) by (simp add: kernel_ok_def)
  obtain p where p: "fork_loop (of_parent pid K) [0..<nat n] (first_pool K n) = Inr p" "pp_idx p = -1" "pp_process_number p = n"
    "pp_clistenfd p = k_socket K 0" "pp_slistenfd p = k_socket K 1" "pp_shm p = init_shm"
    using fork_parent[of "[0..<nat n]" pid K "first_pool K n"] assms(5) pair by auto
  have "proxy_main C cd (of_parent pid K) junk s pool mem0 = run C cd (of_parent pid K) junk s pool mem0 p"
    using proxy_main_forks[of "of_parent pid K" C client_port server_port n root cd junk s pool mem0] assms(1-4) p(1) by simp
  with p that show thesis by blast
qed

text \<open>C8: The start of the gateway. On a kernel that refuses nothing, with a complete configuration and a
  readable server list, \<open>main\<close> makes one main process and \<open>n\<close> workers of the program. The main process
  enters its loop in the state that its properties start from, with an empty pipe to every worker, an empty black list, both
  ports watched, the two signals handled and the black list emptied every ten minutes, and it runs the
  health checks that the file asks for. Worker \<open>k\<close> enters its loop in the state that its properties start
  from, reads the pipe of its own number, and is connected to exactly the listed servers that accepted,
  in their order; the others it has reported.\<close>

theorem gateway_starts:
  assumes "kernel_ok K" "config_has C K (client_port, server_port, n) root" "main_config_ok client_port server_port n" "0 < n"
    and "params_have C root interval maxfails type active passive" "parent_config_ok interval maxfails type"
    and "\<forall>i<nat n. 0 < pid i" "reg_file s \<noteq> None" "lists_of cd s = (up, down)" "\<forall>(ip, _)\<in>set up. length ip < 20"
    and "MemoryPoolInit ext mpa a MAX_MEM MEM_POOL_SIZE = Some pool" "mpa \<noteq> 0" "0 < a"
  shows "(\<exists>sm m. proxy_main C cd (of_parent pid K) junk s pool mem0 = Inr (MainProcess sm
        [Readable (k_socket K 0) ListenerClient, Readable (k_socket K 1) ListenerServer, Signal SIGINT OnSignal,
         Signal SIGTERM OnSignal, Every 600 EmptyHeimingdan] m) \<and>
      main_reach cd m \<and> pipes (mon m) = replicate (nat n) [] \<and> shm m = init_shm \<and> lists_of cd (mon m) = (up, down) \<and>
      (active_running sm \<longleftrightarrow> active \<noteq> 0 \<and> k_thread K 0 = 0) \<and> (passive_running sm \<longleftrightarrow> passive \<noteq> 0 \<and> k_thread K 1 = 0)) \<and>
    (\<forall>k<nat n. \<exists>w. proxy_main C cd (of_child pid k K) junk s pool mem0 = Inr (WorkProcess
        [Every 1 EmptyCount, Every 2 CheckTimeOut, ReadablePipe k 1 PipeEvent] w) \<and>
      worker_reach J w \<and> m_idx w = int k \<and> m_server_info w = connected (attempts K up) \<and>
      calls w = concat (map (connect_calls junk) (attempts K up)))"
proof -
  obtain f params where conf: "k_file K = Some f" "c_parse C f = Some root" "c_member C ''check_params'' root = Inr params"
    "c_int C ''interval'' params = Inr interval" "c_int C ''maxfails'' params = Inr maxfails" "c_str C ''type'' params = Inr type"
    "c_int C ''active'' params = Inr active" "c_int C ''passive'' params = Inr passive"
    using assms(2,5) by (auto simp: config_has_def params_have_def)
  obtain p where p: "proxy_main C cd (of_parent pid K) junk s pool mem0 = run C cd (of_parent pid K) junk s pool mem0 p"
    "pp_idx p = -1" "pp_process_number p = n" "pp_clistenfd p = k_socket K 0" "pp_slistenfd p = k_socket K 1" "pp_shm p = init_shm"
    using parent_runs[OF assms(1-4,7)] .
  have "main_reach cd (start_main s p)" by (rule main_reach.start) (simp_all add: start_main_def)
  then have parent: "\<exists>sm m. proxy_main C cd (of_parent pid K) junk s pool mem0 = Inr (MainProcess sm
        [Readable (k_socket K 0) ListenerClient, Readable (k_socket K 1) ListenerServer, Signal SIGINT OnSignal,
         Signal SIGTERM OnSignal, Every 600 EmptyHeimingdan] m) \<and>
      main_reach cd m \<and> pipes (mon m) = replicate (nat n) [] \<and> shm m = init_shm \<and> lists_of cd (mon m) = (up, down) \<and>
      (active_running sm \<longleftrightarrow> active \<noteq> 0 \<and> k_thread K 0 = 0) \<and> (passive_running sm \<longleftrightarrow> passive \<noteq> 0 \<and> k_thread K 1 = 0)"
    using p conf assms(1,6,9)
    by (auto simp: run_def run_parent_def check_params_def of_parent_def kernel_ok_def ServerMonitor_def StartActiveDetect_def
        StartPassiveDetect_def start_main_def Let_def)
  show ?thesis using parent worker_starts[OF assms(1-4,7-13)] by blast
qed

text \<open>A concrete start: two workers, two servers listed as up of which the first accepts.\<close>

definition demo_config :: "unit config_lib" where
  "demo_config = \<lparr>c_parse = (\<lambda>_. Some ()), c_member = (\<lambda>_ _. Inr ()),
     c_int = (\<lambda>name _. Inr (if name = ''client_port'' then 5555 else if name = ''server_port'' then 5556 else 2)),
     c_str = (\<lambda>_ _. Inr ''tcp''), c_null = ()\<rparr>"

definition demo_kernel :: kernel where
  "demo_kernel = \<lparr>k_file = Some [], k_socket = (\<lambda>i. int i + 3), k_bind = (\<lambda>_ _. 0), k_listen = (\<lambda>_ _. 0), k_ftok = 66, k_shmget = 0,
     k_shmat = True, k_pair = (\<lambda>_. True), k_fork = (\<lambda>_. 0), k_event = True, k_event_add = (\<lambda>_. 0), k_msgget = 0, k_msgsnd = True,
     k_connect = (\<lambda>i _. if i = 0 then Some 9 else None), k_bev = (\<lambda>i. i), k_thread = (\<lambda>_. 0)\<rparr>"

lemma demo_kernel_ok: "kernel_ok demo_kernel"
  by (simp add: kernel_ok_def demo_kernel_def split: if_splits)

lemma demo_start:
  "\<forall>i<nat 2. 0 < int i + 100" "reg_file demo_registry \<noteq> None"
  "\<forall>(ip, _)\<in>set [(''10.0.0.1'', 8001), (''10.0.0.2'', 8002::int)]. length ip < 20"
  "replicate (nat 2) [] = [[], []]" "k_thread demo_kernel 0 = 0" "(8::int) \<noteq> 0" "(0::int) < 4096" "1 < nat 2"
  by (simp_all add: demo_registry_def demo_kernel_def numeral_2_eq_2)

theorem gateway_starts_witness:
  "\<exists>pool. MemoryPoolInit 0 8 4096 MAX_MEM MEM_POOL_SIZE = Some pool \<and>
     (\<exists>sm evs m. proxy_main demo_config plain_codec (of_parent (\<lambda>i. int i + 100) demo_kernel) 0 demo_registry pool (\<lambda>_. blank_event False) =
        Inr (MainProcess sm evs m) \<and> pipes (mon m) = [[], []] \<and> active_running sm) \<and>
     (\<exists>evs w. proxy_main demo_config plain_codec (of_child (\<lambda>i. int i + 100) 1 demo_kernel) 0 demo_registry pool (\<lambda>_. blank_event False) =
        Inr (WorkProcess evs w) \<and> worker_reach demo_json w \<and> m_server_info w = [(0, ''10.0.0.1:8001'')])"
proof -
  obtain pool where pool: "MemoryPoolInit 0 8 4096 MAX_MEM MEM_POOL_SIZE = Some pool"
    using MemoryPoolInit_ok[of MEM_POOL_SIZE MAX_MEM 4096 8 0]
    by (auto simp: MAX_MEM_def MEM_POOL_SIZE_def KB_def MB_def GB_def)
  have port: "to_string 8001 = ''8001''"
    by (simp add: to_string_def show_nat.simps digit_char_def char_of_def bit_iff_odd)
  have c: "connected (attempts demo_kernel [(''10.0.0.1'', 8001), (''10.0.0.2'', 8002)]) = [(0, ''10.0.0.1:8001'')]"
    by (simp add: attempts_def connected_def demo_kernel_def ip_port_def port)
  have conf: "config_has demo_config demo_kernel (5555, 5556, 2) ()" "params_have demo_config () 2 2 ''tcp'' 2 2"
    by (simp_all add: config_has_def params_have_def demo_config_def demo_kernel_def)
  have "main_config_ok 5555 5556 2" "parent_config_ok 2 2 ''tcp''" by (simp_all add: main_config_ok_def parent_config_ok_def)
  note g = gateway_starts[where junk = 0 and ?mem0.0 = "\<lambda>_. blank_event False" and J = demo_json,
      OF demo_kernel_ok conf(1) this(1) zero_less_numeral conf(2) this(2) demo_start(1-2) demo_registry_lists demo_start(3) pool demo_start(6,7), unfolded c demo_start(4-5)]
  have "\<exists>sm evs m. proxy_main demo_config plain_codec (of_parent (\<lambda>i. int i + 100) demo_kernel) 0 demo_registry pool (\<lambda>_. blank_event False) =
        Inr (MainProcess sm evs m) \<and> pipes (mon m) = [[], []] \<and> active_running sm"
    using g[THEN conjunct1] by (elim exE conjE) (intro exI conjI, assumption+, simp)
  moreover have "\<exists>evs w. proxy_main demo_config plain_codec (of_child (\<lambda>i. int i + 100) 1 demo_kernel) 0 demo_registry pool (\<lambda>_. blank_event False) =
        Inr (WorkProcess evs w) \<and> worker_reach demo_json w \<and> m_server_info w = [(0, ''10.0.0.1:8001'')]"
    using g[THEN conjunct2, THEN spec, THEN mp, OF demo_start(8)] by (elim exE conjE) (intro exI conjI, assumption+)
  ultimately show ?thesis using pool by blast
qed

section \<open>Workers without a main process\<close>

text \<open>The parameters of the health checks are looked at after the workers were made. When \<open>interval\<close> or
  \<open>maxfails\<close> is missing or 0, the main process returns from \<open>main\<close> with nothing written to the pipes,
  and every worker goes on in its event loop with nobody to hand it a client or to stop it.\<close>

lemma workers_orphaned:
  assumes "kernel_ok K" "config_has C K (client_port, server_port, n) root" "main_config_ok client_port server_port n" "0 < n"
    and "params_have C root interval maxfails type active passive" "interval = 0 \<or> maxfails = 0"
    and "\<forall>i<nat n. 0 < pid i" "reg_file s \<noteq> None" "lists_of cd s = (up, down)" "\<forall>(ip, _)\<in>set up. length ip < 20"
    and "MemoryPoolInit ext mpa a MAX_MEM MEM_POOL_SIZE = Some pool" "mpa \<noteq> 0" "0 < a"
  shows "proxy_main C cd (of_parent pid K) junk s pool mem0 = Inr (Returned 0) \<and>
    (\<forall>k<nat n. \<exists>evs w. proxy_main C cd (of_child pid k K) junk s pool mem0 = Inr (WorkProcess evs w))"
proof -
  obtain f params where conf: "k_file K = Some f" "c_parse C f = Some root" "c_member C ''check_params'' root = Inr params"
    "c_int C ''interval'' params = Inr interval" "c_int C ''maxfails'' params = Inr maxfails" "c_str C ''type'' params = Inr type"
    "c_int C ''active'' params = Inr active" "c_int C ''passive'' params = Inr passive"
    using assms(2,5) by (auto simp: config_has_def params_have_def)
  obtain p where p: "proxy_main C cd (of_parent pid K) junk s pool mem0 = run C cd (of_parent pid K) junk s pool mem0 p" "pp_idx p = -1"
    using parent_runs[OF assms(1-4,7)] by metis
  then have "proxy_main C cd (of_parent pid K) junk s pool mem0 = Inr (Returned 0)"
    using conf assms(6) by (auto simp: run_def run_parent_def check_params_def of_parent_def parent_config_ok_def)
  then show ?thesis using worker_starts[OF assms(1-4,7-13)] by blast
qed

lemma workers_orphaned_witness:
  "\<exists>(C :: unit config_lib) pool evs w. proxy_main C plain_codec (of_parent (\<lambda>i. int i + 100) demo_kernel) 0 demo_registry pool (\<lambda>_. blank_event False) = Inr (Returned 0) \<and>
     proxy_main C plain_codec (of_child (\<lambda>i. int i + 100) 1 demo_kernel) 0 demo_registry pool (\<lambda>_. blank_event False) = Inr (WorkProcess evs w)"
proof -
  let ?C = "demo_config\<lparr>c_int := (\<lambda>name _. Inr (if name = ''interval'' then 0 else 2))\<rparr>"
  obtain pool where pool: "MemoryPoolInit 0 8 4096 MAX_MEM MEM_POOL_SIZE = Some pool"
    using MemoryPoolInit_ok[of MEM_POOL_SIZE MAX_MEM 4096 8 0]
    by (auto simp: MAX_MEM_def MEM_POOL_SIZE_def KB_def MB_def GB_def)
  have conf: "config_has ?C demo_kernel (2, 2, 2) ()" "params_have ?C () 0 2 ''tcp'' 2 2"
    by (simp_all add: config_has_def params_have_def demo_config_def demo_kernel_def)
  have "main_config_ok 2 2 2" by (simp add: main_config_ok_def)
  note o = workers_orphaned[where junk = 0 and ?mem0.0 = "\<lambda>_. blank_event False",
      OF demo_kernel_ok conf(1) this zero_less_numeral conf(2) disjI1[OF refl] demo_start(1-2) demo_registry_lists demo_start(3) pool demo_start(6,7)]
  show ?thesis using o[THEN conjunct1] o[THEN conjunct2, THEN spec, THEN mp, OF demo_start(8)] by blast
qed

end
