(* ===== verification/Server_Threads.thy ===== *)
theory Server_Threads
  imports Ticket_Replies Turns
begin

text \<open>
  The threads of the ticket server (\<^verbatim>\<open>mainServer.cpp\<close>, \<^verbatim>\<open>threadPool.cpp\<close>, \<^verbatim>\<open>thread.cpp\<close> of
  \<^verbatim>\<open>src/server_service\<close>): the main thread accepts connections and writes their descriptors to the
  socket pairs of the threads in turn, a thread reads them and serves the requests that arrive. A
  socket pair is the queue of the bytes written to it.
\<close>

section \<open>The main thread\<close>

record Server =
  m_threadCnt :: int
  m_pool :: "string list"
  robin :: int
  main_exit :: bool

definition new_ThreadPool :: "int \<Rightarrow> Server" where
  "new_ThreadPool threadCnt = \<lparr>m_threadCnt = threadCnt, m_pool = replicate (nat threadCnt) [], robin = 0, main_exit = False\<rparr>"

text \<open>\<open>m_pool[robin++ % m_threadCnt]\<close>; the counter is an \<open>int\<close> that wraps, and \<open>%\<close> keeps its sign.\<close>

definition getSubThreadSocketPairFd :: "Server \<Rightarrow> (nat \<times> Server) res" where
  "getSubThreadSocketPairFd s =
     (if m_threadCnt s = 0 then Inl Div_By_Zero
      else let r = robin s; x = (if r < 0 then - (- r mod m_threadCnt s) else r mod m_threadCnt s) in
        if 0 \<le> x \<and> x < int (length (m_pool s)) then Inr (nat x, s\<lparr>robin := s32 (r + 1)\<rparr>) else Inl Out_Of_Bounds)"

definition send_fd :: "nat \<Rightarrow> int \<Rightarrow> Server \<Rightarrow> Server" where
  "send_fd x fd s = s\<lparr>m_pool := (m_pool s)[x := m_pool s ! x @ enc_int fd]\<rparr>"

text \<open>\<open>cfd\<close> is what \<open>accept\<close> returns.\<close>

definition listenClientConnectEventCallBack :: "int \<Rightarrow> Server \<Rightarrow> Server res" where
  "listenClientConnectEventCallBack cfd s =
     bindE (guardE Assert_Failed (cfd \<noteq> -1)) (\<lambda>_.
     bindE (getSubThreadSocketPairFd s) (\<lambda>(x, s). Inr (send_fd x cfd s)))"

definition notice_all_thread :: "int \<Rightarrow> Server \<Rightarrow> Server res" where
  "notice_all_thread sig s =
     foldE (\<lambda>i s. if i < length (m_pool s) then Inr (send_fd i sig s) else Inl Out_Of_Bounds) [0..<nat (m_threadCnt s)] s"

definition server_signal_cb :: "Server \<Rightarrow> Server res" where
  "server_signal_cb s = bindE (notice_all_thread (-1) s) (\<lambda>s. Inr (s\<lparr>main_exit := True\<rparr>))"

section \<open>A thread\<close>

record sub_thread =
  served :: "int list"
  running :: bool

text \<open>
  \<open>recv(fd, &cfd, 4, 0)\<close> on \<open>int cfd = 0\<close>: fewer bytes leave the rest zero, and none, on the
  non-blocking socket, is the error that the assertion excludes.
\<close>

definition socketPairIOEventCallBack :: "string \<Rightarrow> sub_thread \<Rightarrow> (string \<times> sub_thread) res" where
  "socketPairIOEventCallBack inp th =
     bindE (guardE Assert_Failed (inp \<noteq> [])) (\<lambda>_.
     let cfd = dec_int (take 4 inp @ replicate (4 - length (take 4 inp)) NUL) in
     Inr (drop 4 inp, if cfd = -1 then th\<lparr>running := False\<rparr> else th\<lparr>served := served th @ [cfd]\<rparr>))"

text \<open>The event loop calls it as long as there are bytes and the loop was not told to stop.\<close>

fun thread_loop :: "nat \<Rightarrow> string \<Rightarrow> sub_thread \<Rightarrow> (string \<times> sub_thread) res" where
  "thread_loop 0 inp th = Inr (inp, th)"
| "thread_loop (Suc n) inp th =
     (if inp = [] \<or> \<not> running th then Inr (inp, th)
      else bindE (socketPairIOEventCallBack inp th) (\<lambda>(inp, th). thread_loop n inp th))"

text \<open>
  The requests of a connection. The connection to the data base and the time are new for every
  request: \<open>cons k\<close> and \<open>nows k\<close> for the \<open>k\<close>-th. What the loop returns is the rest of the input.
\<close>

function work_loop ::
    "'d mysql \<Rightarrow> 'v request_lib \<Rightarrow> (nat \<Rightarrow> bool) \<Rightarrow> (nat \<Rightarrow> string) \<Rightarrow> nat \<Rightarrow> string \<Rightarrow> 'd session \<Rightarrow> (string \<times> 'd session) res" where
  "work_loop D J cons nows k inp s =
     (case next_frame inp of
        Short \<Rightarrow> Inr (inp, s)
      | Overrun \<Rightarrow> Inl Out_Of_Bounds
      | Packet msg rest \<Rightarrow>
          (case r_parse J msg of
             None \<Rightarrow> Inr (rest, s)
           | Some v \<Rightarrow>
               (case Controller_process D J (cons k) (nows k) v s of
                  Inl e \<Rightarrow> Inl e
                | Inr s \<Rightarrow> work_loop D J cons nows (Suc k) rest s)))"
  by pat_completeness auto
termination by (relation "measure (\<lambda>(D, J, c, n, k, inp, s). length inp)") (auto dest: next_frame_shorter)

declare work_loop.simps [simp del]

text \<open>What the loop does with one request.\<close>

fun work_body :: "'d mysql \<Rightarrow> 'v request_lib \<Rightarrow> (nat \<Rightarrow> bool) \<Rightarrow> (nat \<Rightarrow> string) \<Rightarrow> string \<Rightarrow> nat \<times> 'd session \<Rightarrow>
    (bool \<times> nat \<times> 'd session) res" where
  "work_body D J cons nows msg (k, s) =
     (case r_parse J msg of
        None \<Rightarrow> Inr (True, k, s)
      | Some v \<Rightarrow> bindE (Controller_process D J (cons k) (nows k) v s) (\<lambda>s. Inr (False, Suc k, s)))"

interpretation served: read_loop "work_body D J cons nows" "\<lambda>inp (k, s). work_loop D J cons nows k inp s" snd
  for D J cons nows
proof
  fix inp :: string and x :: "nat \<times> 'a session"
  show "(case x of (k, s) \<Rightarrow> work_loop D J cons nows k inp s) =
     (case next_frame inp of Short \<Rightarrow> Inr (inp, snd x) | Overrun \<Rightarrow> Inl Out_Of_Bounds
      | Packet msg rest \<Rightarrow> (case work_body D J cons nows msg x of Inl e \<Rightarrow> Inl e
          | Inr (stop, s) \<Rightarrow> if stop then Inr (rest, snd s) else (case s of (k, s) \<Rightarrow> work_loop D J cons nows k rest s)))"
    by (cases x, simp, subst work_loop.simps) (auto simp: bindE_def split: frame.splits option.splits sum.splits)
qed

definition work_socket_read_cb ::
    "'d mysql \<Rightarrow> 'v request_lib \<Rightarrow> (nat \<Rightarrow> bool) \<Rightarrow> (nat \<Rightarrow> string) \<Rightarrow> string \<Rightarrow> 'd session \<Rightarrow> (string \<times> 'd session) res" where
  "work_socket_read_cb D J cons nows inp s = work_loop D J cons nows 0 inp s"

section \<open>Requests are answered in order\<close>

definition reply_to :: "'v request_lib \<Rightarrow> string \<Rightarrow> string \<Rightarrow> bool" where
  "reply_to J m f \<longleftrightarrow> (\<exists>v cs pack msg. r_parse J m = Some v \<and> r_int J ''client_sock'' v = Inr cs \<and>
     r_int J ''pack_id'' v = Inr pack \<and> f = frame_of (cstr (r_reply J cs pack msg)))"

lemma steps_answer:
  assumes "steps (work_body D J cons nows) ms (k, s) = Inr (stop, k', s')" "\<forall>m\<in>set ms. r_parse J m \<noteq> None"
  shows "\<not> stop \<and> (\<exists>fs. written s' = written s @ fs \<and> list_all2 (reply_to J) ms fs)"
  using assms
proof (induction ms arbitrary: k s)
  case (Cons m ms)
  obtain v where v: "r_parse J m = Some v" using Cons.prems(2) by auto
  obtain s1 where s1: "Controller_process D J (cons k) (nows k) v s = Inr s1"
    "steps (work_body D J cons nows) ms (Suc k, s1) = Inr (stop, k', s')"
    using Cons.prems(1) by (auto simp: v res_simps)
  obtain cs pack msg where r: "r_int J ''client_sock'' v = Inr cs" "r_int J ''pack_id'' v = Inr pack"
     "written s1 = written s @ [frame_of (cstr (r_reply J cs pack msg))]"
    using one_reply[OF s1(1)] by auto
  have "reply_to J m (frame_of (cstr (r_reply J cs pack msg)))" using v r by (auto simp: reply_to_def)
  moreover obtain fs where "\<not> stop" "written s' = written s1 @ fs" "list_all2 (reply_to J) ms fs"
    using Cons.IH[OF s1(2)] Cons.prems(2) by auto
  ultimately show ?case using r(3)
    by (intro conjI exI[of _ "frame_of (cstr (r_reply J cs pack msg)) # fs"]) simp_all
qed simp

lemma work_loop_answers:
  assumes "\<forall>m\<in>set ms. sendable m \<and> r_parse J m \<noteq> None" "next_frame rest = Short"
    and "work_loop D J cons nows k (concat (map frame_of ms) @ rest) s = Inr (left, s')"
  shows "left = rest \<and> (\<exists>fs. written s' = written s @ fs \<and> list_all2 (reply_to J) ms fs)"
proof -
  have n: "steps (work_body D J cons nows) ms (k, s) \<noteq> Inr (True, x)" for x
    using steps_answer[of D J cons nows ms k s True] assms(1) by (cases x) auto
  have "work_loop D J cons nows k (concat (map frame_of ms) @ rest) s =
     bindE (steps (work_body D J cons nows) ms (k, s)) (\<lambda>(stop, x). Inr (rest, snd x))"
    using served.loop_frames[OF _ assms(2) n] assms(1) by simp
  with assms(3) obtain stop k' where "steps (work_body D J cons nows) ms (k, s) = Inr (stop, k', s')" "left = rest"
    by (cases "steps (work_body D J cons nows) ms (k, s)") auto
  then show ?thesis using steps_answer[of D J cons nows ms k s] assms(1) by blast
qed

text \<open>C20: The requests of a connection are answered one by one, in their order. When the bytes of several
  frames have arrived, and the beginning of another, the loop consumes exactly the complete ones and
  writes for each of them one reply, with the \<open>client_sock\<close> and the \<open>pack_id\<close> by which the gateway finds
  the client; the beginning of the next frame is kept.\<close>

theorem server_answers_in_order:
  assumes "\<forall>m\<in>set ms. sendable m \<and> r_parse J m \<noteq> None" "next_frame rest = Short"
    and "work_socket_read_cb D J cons nows (concat (map frame_of ms) @ rest) s = Inr (left, s')"
  shows "left = rest \<and> (\<exists>fs. written s' = written s @ fs \<and> list_all2 (reply_to J) ms fs)"
  using work_loop_answers[OF assms(1,2)] assms(3) by (simp add: work_socket_read_cb_def)

section \<open>Connections are dealt out in turn\<close>

lemma deal_step:
  assumes "0 < n" "m_threadCnt s = int n" "length (m_pool s) = n" "robin s = int t" "t < 2147483647" "fd \<noteq> -1"
  shows "listenClientConnectEventCallBack fd s =
     Inr (s\<lparr>robin := int (Suc t), m_pool := (m_pool s)[t mod n := m_pool s ! (t mod n) @ enc_int fd]\<rparr>)"
proof -
  have "int t mod int n = int (t mod n)" by (simp add: zmod_int)
  moreover have "t mod n < n" using assms(1) by simp
  moreover have "s32 (int t + 1) = int (Suc t)" using assms(5) by (simp add: s32_def Let_def)
  ultimately show ?thesis
    using assms by (simp add: listenClientConnectEventCallBack_def getSubThreadSocketPairFd_def send_fd_def Let_def nat_mod_distrib)
qed

interpretation threads: round_robin n listenClientConnectEventCallBack "\<lambda>s. nat (robin s)" m_pool enc_int "\<lambda>fd. fd \<noteq> -1"
  "\<lambda>k s. 0 < n \<and> m_threadCnt s = int n \<and> length (m_pool s) = n \<and> 0 \<le> robin s \<and> robin s + int k < 2147483648" for n
proof (unfold_locales, goal_cases)
  case (2 k s x)
  then show ?case using deal_step[of n s "nat (robin s)" x] by (auto simp: nat_add_distrib)
qed simp

lemma notice_all:
  assumes "k \<le> length (m_pool s)"
  shows "foldE (\<lambda>i s. if i < length (m_pool s) then Inr (send_fd i sig s) else Inl Out_Of_Bounds) [0..<k] s =
    Inr (s\<lparr>m_pool := map (\<lambda>p. p @ enc_int sig) (take k (m_pool s)) @ drop k (m_pool s)\<rparr>)"
  using assms
proof (induction k)
  case (Suc k)
  then show ?case
    by (simp add: foldE_snoc send_fd_def nth_append list_update_append take_Suc_conv_app_nth flip: Cons_nth_drop_Suc)
qed simp

lemma thread_reads:
  assumes "\<forall>fd\<in>set fds. fd \<noteq> -1 \<and> - 2147483648 \<le> fd \<and> fd < 2147483648" "running th" "length fds < n"
  shows "thread_loop n (concat (map enc_int fds) @ enc_int (-1) @ rest) th = Inr (rest, \<lparr>served = served th @ fds, running = False\<rparr>)"
  using assms
proof (induction fds arbitrary: n th)
  case Nil
  then obtain m where n: "n = Suc m" by (cases n) auto
  have "dec_int (enc_int (-1)) = -1" using dec_enc_int[of "-1" "[]"] by simp
  moreover have "enc_int (-1) \<noteq> []" by (simp add: enc_int_def)
  moreover have "thread_loop m rest (th\<lparr>running := False\<rparr>) = Inr (rest, th\<lparr>running := False\<rparr>)" by (cases m) auto
  ultimately show ?case using Nil(2) by (simp add: n socketPairIOEventCallBack_def Let_def)
next
  case (Cons fd fds)
  then obtain m where n: "n = Suc m" by (cases n) auto
  have d: "dec_int (enc_int fd) = fd" using dec_enc_int[of fd "[]"] Cons.prems(1) by simp
  moreover have "enc_int fd \<noteq> []" by (simp add: enc_int_def)
  ultimately show ?case
    using Cons.IH[of "th\<lparr>served := served th @ [fd]\<rparr>" m] Cons.prems by (simp add: n socketPairIOEventCallBack_def Let_def)
qed

text \<open>Connections are dealt out in turn, and the shutdown comes after them. With \<open>n\<close> threads the
  \<open>k\<close>-th connection accepted goes to thread \<open>k mod n\<close>; after the signal every thread serves exactly the
  connections that were its turn, in their order, and then leaves its loop.\<close>

lemma connections_dealt_in_turn:
  assumes "0 < n" "length fds < 2147483648" "\<forall>fd\<in>set fds. 0 \<le> fd \<and> fd < 2147483648"
  shows "\<exists>s. bindE (foldE listenClientConnectEventCallBack fds (new_ThreadPool (int n))) server_signal_cb = Inr s \<and>
    main_exit s \<and> length (m_pool s) = n \<and>
    (\<forall>i<n. thread_loop (Suc (length fds)) (m_pool s ! i) \<lparr>served = [], running = True\<rparr> =
      Inr ([], \<lparr>served = dealt n i 0 fds, running = False\<rparr>))"
proof -
  obtain s where s: "foldE listenClientConnectEventCallBack fds (new_ThreadPool (int n)) = Inr s" "m_threadCnt s = int n"
    "length (m_pool s) = n" "\<forall>i<n. m_pool s ! i = concat (map enc_int (dealt n i 0 fds))"
    using threads.deal_all[of n "new_ThreadPool (int n)" fds 0] assms by (fastforce simp: new_ThreadPool_def)
  have "server_signal_cb s = Inr (s\<lparr>m_pool := map (\<lambda>p. p @ enc_int (-1)) (m_pool s), main_exit := True\<rparr>)"
    using notice_all[of n s "-1"] s(2,3) by (simp add: server_signal_cb_def notice_all_thread_def)
  moreover have "thread_loop (Suc (length fds)) (concat (map enc_int (dealt n i 0 fds)) @ enc_int (-1) @ []) \<lparr>served = [], running = True\<rparr> =
      Inr ([], \<lparr>served = dealt n i 0 fds, running = False\<rparr>)" for i
    using assms(3) set_dealt[of n i 0 fds] length_dealt_le[of n i 0 fds] by (subst thread_reads) (fastforce simp: le_imp_less_Suc)+
  ultimately show ?thesis using s by (intro exI[of _ "s\<lparr>m_pool := map (\<lambda>p. p @ enc_int (-1)) (m_pool s), main_exit := True\<rparr>"]) simp
qed

end
