(* ===== verification/Round_Trip.thy ===== *)
theory Round_Trip
  imports Worker_Theorems Worker_Routing Server_Threads Ticket_Demo
begin

text \<open>
  A request on its whole way: from the client through a worker of the gateway to the ticket server,
  and its reply back. Both ends use the same JSON library, with the operations that each of them needs.
\<close>

section \<open>One frame\<close>

lemma client_read_one:
  assumes "sendable msg" "map_of (client_map w) c = Some ci" "\<not> close_flag ci" "u32 c = c"
    and "client_socket_read_cb J env c (frame_of msg) w = Inr (rest, w')"
  shows "\<exists>stop. client_packet J env c msg w = Inr (stop, w')"
proof -
  have "client_read_loop J env c (frame_of msg) w = Inr (rest, w')"
    using assms(2-5) by (simp add: client_socket_read_cb_def get_client_def)
  then have l: "(case client_packet J env c msg w of Inl e \<Rightarrow> Inl e
      | Inr (stop, w) \<Rightarrow> if stop then Inr ([], w) else client_read_loop J env c [] w) = Inr (rest, w')"
    using next_frame_of[OF assms(1), of "[]"] by (simp add: client_read_loop.simps[of J env c "frame_of msg"])
  have "client_read_loop J env c [] u = Inr ([], u)" for u
    by (simp add: client_read_loop.simps[of J env c "[]"] next_frame_nil)
  with l show ?thesis by (auto split: sum.splits prod.splits if_splits)
qed

lemma server_read_one:
  assumes "sendable msg" "server_packet J msg w = Inr (False, w')"
  shows "work_server_socket_read_cb J (frame_of msg) w = Inr ([], w')"
proof -
  have "work_server_socket_read_cb J [] w' = Inr ([], w')"
    by (simp add: work_server_socket_read_cb.simps[of J "[]"] next_frame_nil)
  then show ?thesis
    using next_frame_of[OF assms(1), of "[]"] assms(2) by (simp add: work_server_socket_read_cb.simps[of J "frame_of msg"])
qed

section \<open>The library at both ends\<close>

text \<open>
  What is used of JSON for the request \<open>v\<close> of client \<open>c\<close> with the number \<open>n\<close>: the text printed for it
  is read back with these numbers, and so is the text of every reply that is given them, whose two
  routing members can be removed.
\<close>

definition carries :: "'j json_lib \<Rightarrow> 'v request_lib \<Rightarrow> int \<Rightarrow> int \<Rightarrow> 'j \<Rightarrow> bool" where
  "carries J R c n v \<longleftrightarrow>
     (\<exists>u. r_parse R (cstr (j_styled J v)) = Some u \<and> r_int R ''client_sock'' u = Inr c \<and> r_int R ''pack_id'' u = Inr n) \<and>
     (\<forall>m. \<exists>u u1 u2. j_parse J (cstr (r_reply R c n m)) = Some u \<and> j_int J ''client_sock'' u = Inr c \<and> j_int J ''pack_id'' u = Inr n \<and>
        j_remove J ''client_sock'' u = Inr u1 \<and> j_remove J ''pack_id'' u1 = Inr u2)"

text \<open>The text that a client gets for a reply.\<close>

definition stripped :: "'j json_lib \<Rightarrow> string \<Rightarrow> string \<Rightarrow> bool" where
  "stripped J txt t \<longleftrightarrow> (\<exists>u u1 u2. j_parse J txt = Some u \<and> j_remove J ''client_sock'' u = Inr u1 \<and>
     j_remove J ''pack_id'' u1 = Inr u2 \<and> t = cstr (j_styled J u2))"

text \<open>The answer of the ticket server, and what the worker does with it.\<close>

lemma request_served:
  assumes "carries J R c n v" "sendable (cstr (j_styled J v))"
    and "work_socket_read_cb D R cons nows (frame_of (cstr (j_styled J v))) s = Inr (left, s')"
  shows "\<exists>m. left = [] \<and> written s' = written s @ [frame_of (cstr (r_reply R c n m))]"
proof -
  let ?t = "cstr (j_styled J v)"
  obtain u where u: "r_parse R ?t = Some u" "r_int R ''client_sock'' u = Inr c" "r_int R ''pack_id'' u = Inr n"
    using assms(1) unfolding carries_def by blast
  have l: "work_loop D R cons nows 0 (concat (map frame_of [?t]) @ []) s = Inr (left, s')"
    using assms(3) by (simp add: work_socket_read_cb_def)
  have ok: "\<forall>m\<in>set [?t]. sendable m \<and> r_parse R m \<noteq> None" using assms(2) u(1) by simp
  obtain fs where "left = []" "written s' = written s @ fs" "list_all2 (reply_to R) [?t] fs"
    using work_loop_answers[OF ok next_frame_nil l] by blast
  then show ?thesis using u by (auto simp: list_all2_Cons1 reply_to_def)
qed

lemma answer_delivered:
  assumes "json_ok J" "worker_reach J w" "carries J R c n v" "map_of (client_map w) (u32 c) = Some ci"
    and "map_of (cli_event_map ci) n = Some e" "length (cstr (r_reply R c n m)) < BUF_LEN"
  shows "\<exists>w' a. work_server_socket_read_cb J (frame_of (cstr (r_reply R c n m))) w = Inr ([], w') \<and>
    stripped J (cstr (r_reply R c n m)) a \<and>
    calls w' = calls w @ [BevWrite (cl_bev ci) (enc_int (int (length a))), BevWrite (cl_bev ci) a] \<and>
    finish_flag (cells w' e) \<and> c_info (cells w' e) = c_info (cells w e)"
proof -
  define f where "f = cstr (r_reply R c n m)"
  obtain u u1 u2 where u: "j_parse J f = Some u" "j_int J ''client_sock'' u = Inr c" "j_int J ''pack_id'' u = Inr n"
    "j_remove J ''client_sock'' u = Inr u1" "j_remove J ''pack_id'' u1 = Inr u2"
    using assms(3) unfolding carries_def f_def by blast
  define a where "a = cstr (j_styled J u2)"
  from delivered[OF assms(1,2) u] assms(4,5) obtain w' where w': "server_packet J f w = Inr (False, w')"
    "calls w' = calls w @ [BevWrite (cl_bev ci) (enc_int (int (length a))), BevWrite (cl_bev ci) a]"
    "finish_flag (cells w' e)" "c_info (cells w' e) = c_info (cells w e)"
    by (auto simp: a_def)
  have "sendable f" using assms(6) cstr_no_NUL by (simp add: sendable_def f_def)
  then have "work_server_socket_read_cb J (frame_of f) w = Inr ([], w')" using server_read_one w'(1) by blast
  moreover have "stripped J f a" using u by (auto simp: stripped_def a_def)
  ultimately show ?thesis using w' unfolding f_def by blast
qed


section \<open>A concrete run\<close>

definition demo_routed :: "string request_lib" where
  "demo_routed = \<lparr>r_parse = Some, r_string = (\<lambda>k v. Inr (if k = ''task'' then ''pig'' else ''ann'')), r_cstring = (\<lambda>k v. Inr ''cow''),
     r_int = (\<lambda>k v. Inr (if k = ''type'' then 5 else if k = ''pack_id'' then digit_val (last v) else digit_val (last (butlast v)))),
     r_reply = (\<lambda>cs pack msg. to_string cs @ to_string pack @ msg)\<rparr>"

lemma demo_carries: "carries demo_json demo_routed 0 1 ''A01''"
proof -
  have "''01'' @ m = CHR ''0'' # CHR ''1'' # m" for m by simp
  then show ?thesis
    by (auto simp: carries_def demo_routed_def demo_json_simps small_digits small_strings cstr_def)
qed

lemma demo_served:
  assumes "next_frame rest = Short"
  shows "\<exists>s'. work_socket_read_cb (demo_mysql True) demo_routed (\<lambda>_. True) (\<lambda>_. ''2021-06-01 10:00:01'') (frame_of ''A01'' @ rest)
     (demo_session 3 [(''bob'', 1)]) = Inr (rest, s')"
proof -
  have f: "next_frame (frame_of ''A01'' @ rest) = Packet ''A01'' rest"
    by (rule next_frame_of) (simp add: sendable_def BUF_LEN_def)
  have ints: "r_int demo_routed ''type'' v = Inr 5" "r_string demo_routed k v = Inr (if k = ''task'' then ''pig'' else ''ann'')"
    "r_int demo_routed ''client_sock'' ''A01'' = Inr 0" "r_int demo_routed ''pack_id'' ''A01'' = Inr 1" "r_parse demo_routed = Some" for k v
    by (simp_all add: demo_routed_def small_digits)
  obtain s' where s': "ScrambleView (demo_mysql True) demo_routed True ''2021-06-01 10:00:01'' ''A01'' (demo_session 3 [(''bob'', 1)]) = Inr s'"
    using demo_scramble[OF ints(2-4)] by auto
  have "work_loop D R c n k rest s = Inr (rest, s)" for D :: "demo_db mysql" and R :: "string request_lib" and c n k s
    by (subst work_loop.simps) (simp add: assms)
  then have "work_socket_read_cb (demo_mysql True) demo_routed (\<lambda>_. True) (\<lambda>_. ''2021-06-01 10:00:01'') (frame_of ''A01'' @ rest)
     (demo_session 3 [(''bob'', 1)]) = Inr (rest, s')"
    unfolding work_socket_read_cb_def by (subst work_loop.simps) (simp add: f ints Controller_process_def s')
  then show ?thesis by blast
qed

theorem server_answers_in_order_witness:
  "\<exists>s' f. work_socket_read_cb (demo_mysql True) demo_routed (\<lambda>_. True) (\<lambda>_. ''2021-06-01 10:00:01'') (frame_of ''A01'' @ ''x'')
     (demo_session 3 [(''bob'', 1)]) = Inr (''x'', s') \<and> written s' = [f] \<and> reply_to demo_routed ''A01'' f"
proof -
  have x: "next_frame ''x'' = Short" by (simp add: next_frame_def SIZEOF_HEAD_def)
  obtain s' where s': "work_socket_read_cb (demo_mysql True) demo_routed (\<lambda>_. True) (\<lambda>_. ''2021-06-01 10:00:01'') (frame_of ''A01'' @ ''x'')
     (demo_session 3 [(''bob'', 1)]) = Inr (''x'', s')"
    using demo_served[OF x] by blast
  have ok: "\<forall>m\<in>set [''A01'']. sendable m \<and> r_parse demo_routed m \<noteq> None"
    by (simp add: sendable_def BUF_LEN_def demo_routed_def)
  have l: "work_socket_read_cb (demo_mysql True) demo_routed (\<lambda>_. True) (\<lambda>_. ''2021-06-01 10:00:01'')
      (concat (map frame_of [''A01'']) @ ''x'') (demo_session 3 [(''bob'', 1)]) = Inr (''x'', s')" using s' by simp
  from server_answers_in_order[OF ok x l] s' show ?thesis
    by (auto simp: list_all2_Cons1 demo_session_def)
qed


end
