(* ===== verification/Test_Client.thy ===== *)
theory Test_Client
  imports Server_Threads Pool_Config
begin

text \<open>
  The test client (\<^verbatim>\<open>src/client/client.cc\<close>): ten thousand connections, each for its own user. What
  the terminal gives is an argument, the text that the JSON library prints for a request too.
\<close>

definition COUNT :: nat where "COUNT = 10000"

text \<open>
  The name and the password of the user of connection \<open>i\<close>, and what is written for the members
  \<open>type\<close>, \<open>task\<close>, \<open>name\<close> and \<open>password\<close>.
\<close>

definition user_name :: "nat \<Rightarrow> string" where
  "user_name i = ''client'' @ to_string (int i + 1)"

definition request_frame :: "(int \<Rightarrow> string \<Rightarrow> string \<Rightarrow> string \<Rightarrow> string) \<Rightarrow> int \<Rightarrow> string \<Rightarrow> nat \<Rightarrow> string" where
  "request_frame styled ty task i = frame_of (cstr (styled ty task (user_name i) (to_string (int i + 1))))"

definition send_requests :: "(int \<Rightarrow> string \<Rightarrow> string \<Rightarrow> string \<Rightarrow> string) \<Rightarrow> int \<Rightarrow> string \<Rightarrow> nat \<Rightarrow> (nat \<times> string) list res" where
  "send_requests styled ty task conns =
     foldE (\<lambda>i ws. if i < conns then Inr (ws @ [(i, request_frame styled ty task i)]) else Inl Out_Of_Bounds) [0..<COUNT] []"

text \<open>The line that is read for the task: \<open>fgets\<close> into a zeroed array, cut at the newline.\<close>

definition task_line :: "string \<Rightarrow> string" where
  "task_line line = takeWhile (\<lambda>c. c \<noteq> CHR 0x0A) (cstr (fst (fgets (BUF_LEN - 1) line)))"

text \<open>
  \<open>got\<close> is what \<open>read\<close> delivers, \<^term>\<open>None\<close> for an error; \<open>conns\<close> is the size of \<open>buf_vec\<close>. The
  result lists the writes, each with its connection. \<open>msg[0]\<close> is not set when nothing was read.
\<close>

definition cmd_msg_cb ::
    "(int \<Rightarrow> string \<Rightarrow> string \<Rightarrow> string \<Rightarrow> string) \<Rightarrow> string option \<Rightarrow> string \<Rightarrow> nat \<Rightarrow> (nat \<times> string) list res" where
  "cmd_msg_cb styled got line conns =
     (case got of
        None \<Rightarrow> Inl Exited
      | Some [] \<Rightarrow> Inl Uninit
      | Some (c # cs) \<Rightarrow>
          if c = CHR ''1'' then send_requests styled (option_code EN_INQUIRY) (task_line line) conns
          else if c = CHR ''2'' then send_requests styled (option_code EN_SCRAMBLE) (task_line line) conns
          else Inr [])"

text \<open>
  A read event: one frame is taken, not all that have arrived. The result is the rest of the input and
  the number of replies counted.
\<close>

definition client_read_cb :: "'v request_lib \<Rightarrow> string \<Rightarrow> int \<Rightarrow> (string \<times> int) res" where
  "client_read_cb J inp receive_count =
     (case next_frame inp of
        Short \<Rightarrow> Inr (inp, receive_count)
      | Overrun \<Rightarrow> Inl Out_Of_Bounds
      | Packet msg rest \<Rightarrow>
          (case r_parse J msg of
             None \<Rightarrow> Inr (rest, receive_count)
           | Some v \<Rightarrow> bindE (r_cstring J ''message'' v) (\<lambda>_. Inr (rest, receive_count + 1))))"

section \<open>What the test measures\<close>

lemma foldE_collect:
  "k \<le> n \<Longrightarrow> foldE (\<lambda>i ws. if i < n then Inr (ws @ [f i]) else Inl Out_Of_Bounds) [0..<k] [] = Inr (map f [0..<k])"
  by (induction k) (simp_all add: foldE_snoc)

text \<open>Every connection asks once, and the users are all different.\<close>

lemma every_user_asks:
  assumes "COUNT \<le> conns"
  shows "send_requests styled ty task conns = Inr (map (\<lambda>i. (i, request_frame styled ty task i)) [0..<COUNT])"
  unfolding send_requests_def by (rule foldE_collect[OF assms])

lemma users_distinct: "user_name i = user_name j \<longleftrightarrow> i = j"
proof -
  have "to_string (int i + 1) = to_string (int j + 1) \<longleftrightarrow> int i + 1 = int j + 1" using atoi_to_string by metis
  then show ?thesis by (simp add: user_name_def)
qed

text \<open>
  The replies of one connection are counted one per event: of two frames that arrive together the
  second waits until something else arrives.
\<close>

lemma second_reply_waits:
  assumes "sendable m" "r_parse J m = Some v" "r_cstring J ''message'' v = Inr t"
  shows "client_read_cb J (frame_of m @ frame_of m') k = Inr (frame_of m', k + 1)"
  using next_frame_of[OF assms(1)] assms(2,3) by (simp add: client_read_cb_def)

text \<open>The load test asks for every user exactly once. With its ten thousand connections open, an order
  writes one frame to each connection, for a user of its own; the server that reads the bytes of a
  connection finds exactly this request, as long as its text fits the frames. With a connection
  missing the order runs off the end of the vector.\<close>

lemma order_requests:
  assumes "\<forall>name pw. length (styled (option_code EN_SCRAMBLE) (task_line line) name pw) < BUF_LEN"
  shows "if COUNT \<le> conns
    then \<exists>ws. cmd_msg_cb styled (Some (CHR ''2'' # cs)) line conns = Inr ws \<and> map fst ws = [0..<COUNT] \<and> distinct (map user_name (map fst ws)) \<and>
      (\<forall>i<COUNT. next_frame (snd (ws ! i)) =
         Packet (cstr (styled (option_code EN_SCRAMBLE) (task_line line) (user_name i) (to_string (int i + 1)))) [])
    else cmd_msg_cb styled (Some (CHR ''2'' # cs)) line conns = Inl Out_Of_Bounds"
proof (cases "COUNT \<le> conns")
  case True
  let ?ws = "map (\<lambda>i. (i, request_frame styled (option_code EN_SCRAMBLE) (task_line line) i)) [0..<COUNT]"
  have r: "cmd_msg_cb styled (Some (CHR ''2'' # cs)) line conns = Inr ?ws"
    using every_user_asks[OF True] by (simp add: cmd_msg_cb_def)
  have short: "length (cstr t) \<le> length t" for t by (simp add: cstr_def length_takeWhile_le)
  have s: "sendable (cstr (styled (option_code EN_SCRAMBLE) (task_line line) n p))" for n p
    using assms short cstr_no_NUL unfolding sendable_def by (meson le_less_trans)
  have "next_frame (snd (?ws ! i)) =
      Packet (cstr (styled (option_code EN_SCRAMBLE) (task_line line) (user_name i) (to_string (int i + 1)))) []" if "i < COUNT" for i
    using next_frame_of[OF s, of "user_name i" "to_string (int i + 1)" "[]"] that by (simp add: request_frame_def)
  moreover have "map fst ?ws = [0..<COUNT]" by (simp add: comp_def)
  moreover have "distinct (map user_name [0..<COUNT])" by (simp add: distinct_map inj_on_def users_distinct)
  ultimately show ?thesis using True r by (auto simp: comp_def)
next
  case False
  then have c: "[0..<COUNT] = [0..<conns] @ conns # [Suc conns..<COUNT]"
    using upt_add_eq_append[of 0 conns "COUNT - conns"] upt_conv_Cons[of conns COUNT] by simp
  have "send_requests styled ty task conns = Inl Out_Of_Bounds" for ty task
    unfolding send_requests_def c foldE_append
    using foldE_collect[of conns conns "\<lambda>i. (i, request_frame styled ty task i)"] by simp
  then show ?thesis using False by (simp add: cmd_msg_cb_def)
qed

end
