(* ===== verification/Program_Starts.thy ===== *)
theory Program_Starts
  imports Gateway_Start Round_Trip Test_Client
begin

text \<open>
  The starts of the other programs: the ticket server (\<^verbatim>\<open>main.cc\<close>, the constructors in
  \<^verbatim>\<open>mainServer.cpp\<close>, \<^verbatim>\<open>threadPool.cpp\<close> and \<^verbatim>\<open>thread.cpp\<close>, and the function of a thread), the
  registration tool (\<^verbatim>\<open>server_loginout.cc\<close>) and the test client (\<^verbatim>\<open>client.cc\<close>), with the
  callbacks for connections that end. System calls are answered by a \<open>kernel\<close>.
\<close>

section \<open>The ticket server\<close>

text \<open>\<open>Thread::Thread\<close>: a socket pair and a thread, each with an assertion.\<close>

definition new_Thread :: "kernel \<Rightarrow> nat \<Rightarrow> sub_thread res" where
  "new_Thread K i =
     bindE (guardE Assert_Failed (k_pair K i)) (\<lambda>_.
     bindE (guardE Assert_Failed (k_thread K i = 0)) (\<lambda>_. Inr \<lparr>served = [], running = True\<rparr>))"

definition new_threads :: "kernel \<Rightarrow> int \<Rightarrow> sub_thread list res" where
  "new_threads K threadCnt =
     foldE (\<lambda>i ts. bindE (new_Thread K i) (\<lambda>t. Inr (ts @ [t]))) [0..<nat threadCnt] []"

text \<open>\<open>threadTaskFunction\<close>: the event of the socket pair, then the loop, on the bytes \<open>inp\<close> that arrive.\<close>

definition threadTaskFunction :: "kernel \<Rightarrow> nat \<Rightarrow> string \<Rightarrow> sub_thread \<Rightarrow> (string \<times> sub_thread) res" where
  "threadTaskFunction K n inp th = bindE (guardE Assert_Failed (k_event K)) (\<lambda>_. thread_loop n inp th)"

text \<open>
  \<open>Server::Server\<close> up to the event loop: the socket it listens on, the threads and the state of the main
  thread. The port is an \<open>unsigned short\<close>.
\<close>

definition new_Server :: "kernel \<Rightarrow> int \<Rightarrow> int \<Rightarrow> (int \<times> sub_thread list \<times> Server) res" where
  "new_Server K port threadCnt =
     bindE (listen_on K 0 port 100) (\<lambda>m_listenFd.
     bindE (new_threads K threadCnt) (\<lambda>ts.
     bindE (guardE Assert_Failed (k_event K)) (\<lambda>_.
     bindE (guardE Assert_Failed (k_event_add K SIGINT = 0)) (\<lambda>_.
     bindE (guardE Assert_Failed (k_event_add K SIGTERM = 0)) (\<lambda>_.
     Inr (m_listenFd, ts, new_ThreadPool threadCnt))))))"

text \<open>\<open>main\<close>: \<^term>\<open>None\<close> when the port is missing, and the program returns 1.\<close>

definition ticket_main :: "kernel \<Rightarrow> string list \<Rightarrow> (int \<times> sub_thread list \<times> Server) option res" where
  "ticket_main K argv =
     (if length argv < 2 then Inr None
      else bindE (stoi (argv ! 1)) (\<lambda>port. bindE (new_Server K (port mod 65536) 5) (\<lambda>s. Inr (Some s))))"

text \<open>\<open>work_event_cb\<close>: the connection of a gateway ends.\<close>

definition work_event_cb :: "nat \<Rightarrow> nat set \<Rightarrow> nat set res" where
  "work_event_cb bev opened = (if bev \<in> opened then Inr (opened - {bev}) else Inl Dangling)"

lemma new_threads_ok:
  assumes "kernel_ok K" "\<forall>i. k_thread K i = 0"
  shows "new_threads K n = Inr (replicate (nat n) \<lparr>served = [], running = True\<rparr>)"
proof -
  have "foldE (\<lambda>i ts. bindE (new_Thread K i) (\<lambda>t. Inr (ts @ [t]))) [0..<k] [] = Inr (replicate k \<lparr>served = [], running = True\<rparr>)" for k
    using assms by (induction k) (simp_all add: foldE_snoc new_Thread_def kernel_ok_def replicate_append_same)
  then show ?thesis by (simp add: new_threads_def)
qed

lemma ticket_main_ok:
  assumes "kernel_ok K" "\<forall>i. k_thread K i = 0" "- 2147483648 \<le> port" "port < 2147483648"
  shows "ticket_main K [prog, to_string port] =
    Inr (Some (k_socket K 0, replicate 5 \<lparr>served = [], running = True\<rparr>, new_ThreadPool 5))"
proof -
  have "nat 5 = (5::nat)" by simp
  then show ?thesis
    using assms(1) new_threads_ok[OF assms(1,2), of 5] stoi_to_string[of port] assms(3,4)
    by (simp add: ticket_main_def new_Server_def listen_on_ok kernel_ok_def)
qed

text \<open>C24: The life of the ticket server, from its command line to its end. Started with a port on a kernel
  that refuses nothing it listens and has five threads. Of the connections accepted, in any number up to
  \<open>2^31\<close>, thread \<open>i\<close> serves exactly those whose turn is \<open>i\<close> modulo five, in their order; the signal
  ends the main loop, and every thread leaves its loop after the last connection it was given.\<close>

theorem ticket_server_lifecycle:
  assumes "kernel_ok K" "\<forall>i. k_thread K i = 0" "- 2147483648 \<le> port" "port < 2147483648"
    and "length fds < 2147483648" "\<forall>fd\<in>set fds. 0 \<le> fd \<and> fd < 2147483648"
  shows "\<exists>ts s s'. ticket_main K [prog, to_string port] = Inr (Some (k_socket K 0, ts, s)) \<and> length ts = 5 \<and>
    bindE (foldE listenClientConnectEventCallBack fds s) server_signal_cb = Inr s' \<and> main_exit s' \<and>
    (\<forall>i<5. threadTaskFunction K (Suc (length fds)) (m_pool s' ! i) (ts ! i) =
      Inr ([], \<lparr>served = dealt 5 i 0 fds, running = False\<rparr>))"
proof -
  obtain s' where s': "bindE (foldE listenClientConnectEventCallBack fds (new_ThreadPool 5)) server_signal_cb = Inr s'" "main_exit s'"
    "\<forall>i<5. thread_loop (Suc (length fds)) (m_pool s' ! i) \<lparr>served = [], running = True\<rparr> = Inr ([], \<lparr>served = dealt 5 i 0 fds, running = False\<rparr>)"
    using connections_dealt_in_turn[of 5 fds] assms(5,6) by auto
  have "k_event K" using assms(1) by (simp add: kernel_ok_def)
  then show ?thesis using ticket_main_ok[OF assms(1-4), of prog] s'
    by (intro exI[of _ s'] exI[of _ "new_ThreadPool 5"] exI[of _ "replicate 5 \<lparr>served = [], running = True\<rparr>"])
      (simp add: threadTaskFunction_def)
qed

theorem ticket_server_lifecycle_witness:
  "\<exists>ts s s'. ticket_main demo_kernel [''server'', to_string 8001] = Inr (Some (3, ts, s)) \<and>
    bindE (foldE listenClientConnectEventCallBack [7, 8, 9, 10, 11, 12] s) server_signal_cb = Inr s' \<and>
    threadTaskFunction demo_kernel 7 (m_pool s' ! 0) (ts ! 0) = Inr ([], \<lparr>served = [7, 12], running = False\<rparr>)"
proof -
  have k: "\<forall>i. k_thread demo_kernel i = 0" "k_socket demo_kernel 0 = 3" by (simp_all add: demo_kernel_def)
  let ?fds = "[7, 8, 9, 10, 11, 12] :: int list"
  have f: "length ?fds < 2147483648" "\<forall>fd\<in>set ?fds. 0 \<le> fd \<and> fd < 2147483648" "Suc (length ?fds) = 7" by simp_all
  have d: "dealt 5 0 0 ?fds = [7, 12]" by simp
  obtain ts s s' where "ticket_main demo_kernel [''server'', to_string 8001] = Inr (Some (3, ts, s))"
    "bindE (foldE listenClientConnectEventCallBack ?fds s) server_signal_cb = Inr s'"
    "\<forall>i<5. threadTaskFunction demo_kernel 7 (m_pool s' ! i) (ts ! i) = Inr ([], \<lparr>served = dealt 5 i 0 ?fds, running = False\<rparr>)"
    using ticket_server_lifecycle[OF demo_kernel_ok k(1) _ _ f(1,2), of 8001 "''server''"] unfolding k(2) f(3) by auto
  moreover from this(3) have "threadTaskFunction demo_kernel 7 (m_pool s' ! 0) (ts ! 0) = Inr ([], \<lparr>served = [7, 12], running = False\<rparr>)"
    by (metis d zero_less_numeral)
  ultimately show ?thesis by blast
qed

section \<open>The registration tool\<close>

text \<open>
  \<open>main\<close> of the tool, with the choice, the address and the port typed in: what it writes to the
  gateway, \<^term>\<open>None\<close> when it returns -1 before. A failed \<open>connect\<close> is not noticed. The port of the
  gateway has no value when the file does not parse.
\<close>

definition tool_config :: "'j config_lib \<Rightarrow> string \<Rightarrow> (string \<times> string \<times> int) res" where
  "tool_config C f =
     (case c_parse C f of
        None \<Rightarrow> Inl Uninit
      | Some root \<Rightarrow>
          bindE (c_str C ''proxy_ip'' root) (\<lambda>proxy_ip.
          bindE (c_str C ''local_ip_for_service'' root) (\<lambda>local_ip.
          bindE (c_int C ''proxy_port'' root) (\<lambda>proxy_port. Inr (proxy_ip, local_ip, proxy_port)))))"

definition login_main :: "'j config_lib \<Rightarrow> kernel \<Rightarrow> int \<Rightarrow> string \<Rightarrow> int \<Rightarrow> string option res" where
  "login_main C K select typed_ip typed_port =
     (case k_file K of
        None \<Rightarrow> Inr None
      | Some f \<Rightarrow>
          bindE (tool_config C f) (\<lambda>(proxy_ip, local_ip, proxy_port).
          if \<not> login_config_ok proxy_ip local_ip proxy_port then Inr None
          else bindE (select_request select typed_ip typed_port) (\<lambda>bs. Inr (Some bs))))"

text \<open>
  A connection of the tool or of the test client, and the end of its event loop. Both programs free the
  connection and leave the loop when it ends.
\<close>

record client_conn =
  conn_open :: bool
  loop_exit :: bool

definition load_event_cb :: "client_conn \<Rightarrow> client_conn res" where
  "load_event_cb c = (if conn_open c then Inr (c\<lparr>conn_open := False, loop_exit := True\<rparr>) else Inl Dangling)"

definition load_read :: "string \<Rightarrow> client_conn \<Rightarrow> (string \<times> string \<times> client_conn) res" where
  "load_read inp c =
     (if conn_open c then bindE (load_socket_read_cb inp) (\<lambda>(msg, rest). Inr (msg, rest, c\<lparr>conn_open := False\<rparr>))
      else Inl Dangling)"

section \<open>The test client\<close>

text \<open>
  \<open>main\<close> of the test client: the handles of its connections, in order (\<open>buf_vec\<close>), \<^term>\<open>None\<close> when it
  returns 1.
\<close>

definition client_main :: "kernel \<Rightarrow> string list \<Rightarrow> nat list option res" where
  "client_main K argv =
     (if length argv < 2 then Inr None
      else
        bindE (stoi (argv ! 1)) (\<lambda>port.
        bindE (foldE (\<lambda>i bs. bindE (guardE Assert_Failed (k_connect K i (''9.135.152.3'', port mod 65536) \<noteq> None)) (\<lambda>_.
                 Inr (bs @ [k_bev K i]))) [0..<COUNT] []) (\<lambda>buf_vec. Inr (Some buf_vec))))"

definition client_server_event_cb :: "client_conn \<Rightarrow> client_conn res" where
  "client_server_event_cb c = (if conn_open c then Inr (c\<lparr>conn_open := False, loop_exit := True\<rparr>) else Inl Dangling)"

lemma client_main_ok:
  assumes "\<forall>i<COUNT. k_connect K i (''9.135.152.3'', port mod 65536) \<noteq> None" "- 2147483648 \<le> port" "port < 2147483648"
  shows "client_main K [prog, to_string port] = Inr (Some (map (k_bev K) [0..<COUNT]))"
proof -
  have "foldE (\<lambda>i bs. bindE (guardE Assert_Failed (k_connect K i (''9.135.152.3'', port mod 65536) \<noteq> None)) (\<lambda>_.
      Inr (bs @ [k_bev K i]))) [0..<n] [] = Inr (map (k_bev K) [0..<n])" if "n \<le> COUNT" for n
    using that assms(1) by (induction n) (simp_all add: foldE_snoc)
  then show ?thesis using stoi_to_string[of port] assms(2,3) by (simp add: client_main_def)
qed



end
