(* ===== verification/Program_Ends.thy ===== *)
theory Program_Ends
  imports Program_Starts
begin

text \<open>
  What the processes of the gateway and the ticket server do after their event loops: what they free,
  and what they leave.
\<close>

section \<open>The gateway\<close>

text \<open>\<open>event_free\<close> of an event of the process; \<open>StopServerMonitor\<close> clears the flag that both threads look at.\<close>

definition event_free :: "event \<Rightarrow> event list \<Rightarrow> event list res" where
  "event_free e es = (if e \<in> set es then Inr (remove1 e es) else Inl Dangling)"

definition StopServerMonitor :: "server_monitor \<Rightarrow> server_monitor" where
  "StopServerMonitor sm = sm\<lparr>m_running := False\<rparr>"

definition end_parent :: "processpool \<Rightarrow> server_monitor \<times> event list \<Rightarrow> (server_monitor \<times> event list) res" where
  "end_parent p st =
     bindE (foldE event_free [Readable (pp_clistenfd p) ListenerClient, Readable (pp_slistenfd p) ListenerServer,
              Signal SIGINT OnSignal, Every 600 EmptyHeimingdan, Signal SIGTERM OnSignal] (snd st)) (\<lambda>es.
     Inr (StopServerMonitor (fst st), es))"

definition end_child :: "event list \<Rightarrow> event list res" where
  "end_child es = event_free (Every 1 EmptyCount) es"

lemma event_free_simps [simp]:
  "event_free e (e # es) = Inr es"
  "e \<noteq> f \<Longrightarrow> event_free e (f # es) = bindE (event_free e es) (\<lambda>es. Inr (f # es))"
  by (simp_all add: event_free_def)

text \<open>The main process frees every event that it registered, each once, and stops the health checks.\<close>

lemma parent_frees_events:
  assumes "run_parent C K p = Inr (Some (sm, es))"
  shows "end_parent p (sm, es) = Inr (sm\<lparr>m_running := False\<rparr>, [])"
proof -
  have "es = [Readable (pp_clistenfd p) ListenerClient, Readable (pp_slistenfd p) ListenerServer,
      Signal SIGINT OnSignal, Signal SIGTERM OnSignal, Every 600 EmptyHeimingdan]"
    using assms by (auto simp: run_parent_def Let_def res_simps split: option.splits if_splits)
  then show ?thesis by (simp add: end_parent_def StopServerMonitor_def SIGINT_def SIGTERM_def)
qed

text \<open>A worker frees one of its three events.\<close>

lemma child_keeps_events:
  assumes "run_child cd K junk s p w = Inr (es, w')" "es \<noteq> []"
  shows "end_child es = Inr [Every CB_TIMEOUT CheckTimeOut, ReadablePipe (nat (pp_idx p)) 1 PipeEvent]"
proof -
  have "es = [Every 1 EmptyCount, Every CB_TIMEOUT CheckTimeOut, ReadablePipe (nat (pp_idx p)) 1 PipeEvent]"
    using assms by (auto simp: run_child_def Let_def res_simps split: prod.splits if_splits)
  then show ?thesis by (simp add: end_child_def)
qed

section \<open>The ticket server\<close>

text \<open>
  \<open>~Server\<close> deletes the pool, which deletes its threads from the last to the first. The main thread has
  slept for a second but joined none: a thread that still runs goes on with an object that is gone.
\<close>

definition end_ThreadPool :: "sub_thread list \<Rightarrow> sub_thread list res" where
  "end_ThreadPool pool = foldE (\<lambda>_ ts. if running (last ts) then Inl Dangling else Inr (butlast ts)) pool pool"

text \<open>It goes without harm exactly when every thread has left its loop by then, as in
  \<open>ticket_server_lifecycle\<close>.\<close>

lemma end_ThreadPool_cases: "end_ThreadPool pool = (if \<exists>t\<in>set pool. running t then Inl Dangling else Inr [])"
proof -
  have "length xs = length ts \<Longrightarrow> foldE (\<lambda>_ ts. if running (last ts) then Inl Dangling else Inr (butlast ts)) xs ts =
      (if \<exists>t\<in>set ts. running t then Inl Dangling else Inr [])" for xs :: "sub_thread list" and ts
  proof (induction xs arbitrary: ts)
    case (Cons x xs)
    obtain us u where ts: "ts = us @ [u]" using Cons.prems by (cases ts rule: rev_cases) auto
    then have "length xs = length us" using Cons.prems by simp
    then show ?case using Cons.IH[of us] by (auto simp: ts)
  qed simp
  from this[OF refl] show ?thesis by (simp add: end_ThreadPool_def)
qed

end
