(* ===== verification/Gateway_System.thy ===== *)
theory Gateway_System
  imports Gateway_Start
begin

text \<open>
  The main process and its workers as one system. They share the pipes and the shared memory; a step is a
  callback of the main process, a round or a message of a health check, the command that a worker reads
  from its pipe, or another callback of a worker. The writes of a command are one step: a worker that
  reads while a command is being written waits in \<open>recv\<close> for the rest of it.
\<close>

section \<open>Commands\<close>

datatype command =
    AcceptClient
  | AddServer int string
  | DropServer int string
  | Stop

fun image :: "command \<Rightarrow> string" where
  "image AcceptClient = enc_int 1"
| "image (AddServer n bs) = enc_int 2 @ enc_int n @ bs"
| "image (DropServer n bs) = enc_int 3 @ enc_int n @ bs"
| "image Stop = enc_int 4"

fun command_ok :: "command \<Rightarrow> bool" where
  "command_ok (AddServer n bs) \<longleftrightarrow> 0 \<le> n \<and> n \<le> 36 \<and> length bs = nat n"
| "command_ok (DropServer n bs) \<longleftrightarrow> 0 \<le> n \<and> n \<le> 36 \<and> length bs = nat n"
| "command_ok _ \<longleftrightarrow> True"

definition images :: "command list \<Rightarrow> string" where
  "images xs = concat (map image xs)"

lemma images_simps [simp]: "images [] = []" "images (x # xs) = image x @ images xs" "images (xs @ ys) = images xs @ images ys"
  by (simp_all add: images_def)

text \<open>What a worker does with a command.\<close>

definition address_of :: "string \<Rightarrow> address" where
  "address_of bs = dec_address (bs @ drop (length bs) (enc_address (new_address 0)))"

fun obey :: "env \<Rightarrow> command \<Rightarrow> worker \<times> Hhei_Ming_Dan \<Rightarrow> (worker \<times> Hhei_Ming_Dan) res" where
  "obey env AcceptClient wh = accept_client env wh"
| "obey env (AddServer n bs) wh = Inr (add_server env (address_of bs) (fst wh), snd wh)"
| "obey env (DropServer n bs) wh = bindE (remove_server (address_of bs) (fst wh)) (\<lambda>w. Inr (w, snd wh))"
| "obey env Stop wh = bindE (shut_down (fst wh)) (\<lambda>w. Inr (w, snd wh))"

lemma recv_image:
  assumes "0 \<le> n" "n \<le> 36" "length bs = nat n"
  shows "recv_address (enc_int n @ bs @ rest) = Inr (address_of bs, rest)"
proof -
  have d: "dec_int (enc_int n @ bs @ rest) = n" using assms by (intro dec_enc_int) auto
  have u: "u64 n = n" and t: "take (nat n) (bs @ rest) = bs" and l: "length bs \<le> SIZEOF_ADDRESS"
    using assms by (simp_all add: SIZEOF_ADDRESS_def)
  have b: "\<not> (bs @ rest = [] \<and> n \<noteq> 0)" using assms by auto
  have e: "enc_int n @ bs @ rest \<noteq> []" "drop 4 (enc_int n @ bs @ rest) = bs @ rest" "\<not> length (enc_int n @ bs @ rest) < 4"
    by (simp_all add: enc_int_def[of n])
  show ?thesis
    unfolding recv_address_def Let_def d e(2) u t using b e(1,3) l by (simp add: fill_address_def address_of_def)
qed

lemma command_read:
  assumes "command_ok c"
  shows "pipe_event_CallBack env (image c @ rest) wh = bindE (obey env c wh) (\<lambda>wh. Inr (rest, wh))"
proof -
  have d: "dec_int (enc_int 2 @ t) = 2" "dec_int (enc_int 3 @ t) = 3" "enc_int n \<noteq> []" for t n
    by (simp_all add: enc_int_def[of n])
  obtain w h where wh: "wh = (w, h)" by (cases wh)
  show ?thesis
  proof (cases c)
    case (AddServer n bs)
    then show ?thesis using recv_image[of n bs rest] assms by (simp add: pipe_event_CallBack_def d wh)
  next
    case (DropServer n bs)
    then show ?thesis using recv_image[of n bs rest] assms
      by (cases "remove_server (address_of bs) w") (simp_all add: pipe_event_CallBack_def d wh)
  next
    case Stop
    then show ?thesis by (cases "shut_down w") (simp_all add: pipe_simple_commands wh)
  qed (simp add: pipe_simple_commands)
qed

section \<open>What the main process writes\<close>

text \<open>The same commands go to all pipes, and none of them is a call to accept.\<close>

definition broadcast :: "'f monitor \<Rightarrow> 'f monitor \<Rightarrow> bool" where
  "broadcast s s' \<longleftrightarrow> (\<exists>xs. (\<forall>x\<in>set xs. command_ok x \<and> x \<noteq> AcceptClient) \<and> pipes s' = map (\<lambda>p. p @ images xs) (pipes s))"

lemma broadcast_same: "pipes s' = pipes s \<Longrightarrow> broadcast s s'"
  unfolding broadcast_def by (intro exI[of _ "[]"]) simp

lemma broadcast_trans: "broadcast s t \<Longrightarrow> broadcast t u \<Longrightarrow> broadcast s u"
  unfolding broadcast_def
proof (elim exE conjE)
  fix xs ys assume "\<forall>x\<in>set xs. command_ok x \<and> x \<noteq> AcceptClient" "\<forall>x\<in>set ys. command_ok x \<and> x \<noteq> AcceptClient"
    "pipes t = map (\<lambda>p. p @ images xs) (pipes s)" "pipes u = map (\<lambda>p. p @ images ys) (pipes t)"
  then show "\<exists>xs. (\<forall>x\<in>set xs. command_ok x \<and> x \<noteq> AcceptClient) \<and> pipes u = map (\<lambda>p. p @ images xs) (pipes s)"
    by (intro exI[of _ "xs @ ys"]) (auto simp: o_def)
qed

lemma server_address_length: "server_address ip port = Inr a \<Longrightarrow> length (enc_address a) = 36"
  by (auto simp: server_address_def set_ip_def new_address_def enc_address_def res_simps dest!: length_strcpy_at)

lemma notify_broadcast:
  assumes "notify_workers k ip port s = Inr s'" "k = 2 \<or> k = 3"
  shows "broadcast s s'"
proof -
  obtain a where a: "server_address ip port = Inr a" "s' = s\<lparr>pipes := map (\<lambda>p. p @ command_bytes k a) (pipes s)\<rparr>"
    using assms(1) by (auto simp: notify_workers_def res_simps)
  let ?x = "if k = 2 then AddServer 36 (enc_address a) else DropServer 36 (enc_address a)"
  have "command_bytes k a = images [?x]" using assms(2) by (auto simp: command_bytes_def SIZEOF_ADDRESS_def)
  then show ?thesis unfolding broadcast_def
    using a server_address_length[OF a(1)] by (intro exI[of _ "[?x]"]) (auto simp del: images_simps)
qed

lemma update_broadcast: "UpdateServerList cd ls s = (r, s') \<Longrightarrow> broadcast s s'"
  by (auto simp: UpdateServerList_def split: if_splits intro!: broadcast_same)

lemma SetServerDown_broadcast: "SetServerDown cd ip port s = Inr (r, s') \<Longrightarrow> broadcast s s'"
  by (auto simp: SetServerDown_def Let_def res_simps split: prod.splits if_splits
      intro: broadcast_same update_broadcast broadcast_trans[OF update_broadcast notify_broadcast])

lemma SetServerUp_broadcast: "SetServerUp cd ip port s = Inr (r, s') \<Longrightarrow> broadcast s s'"
  by (auto simp: SetServerUp_def Let_def res_simps split: prod.splits if_splits
      intro: broadcast_same update_broadcast broadcast_trans[OF update_broadcast notify_broadcast])

lemma LoginServer_broadcast: "LoginServer cd ip port s = (r, s') \<Longrightarrow> broadcast s s'"
  by (auto simp: LoginServer_def Let_def split: prod.splits if_splits intro: broadcast_same update_broadcast)

lemma LogoutServer_broadcast: "LogoutServer cd ip port s = (r, s') \<Longrightarrow> broadcast s s'"
  by (auto simp: LogoutServer_def Let_def split: prod.splits if_splits intro: broadcast_same update_broadcast)

lemma detect_up_broadcast: "detect_up cd m reach k es (a, s) = Inr (a', s') \<Longrightarrow> broadcast s s'"
proof (induction es arbitrary: k a)
  case (Cons e es)
  obtain ip port where "e = (ip, port)" by (cases e)
  with Cons show ?case
    by (auto simp: res_simps Let_def split: if_splits dest: SetServerDown_broadcast)
qed (auto intro: broadcast_same)

lemma detect_down_broadcast: "detect_down cd reach es (a, s) = Inr (go, a', s') \<Longrightarrow> broadcast s s'"
proof (induction es)
  case (Cons e es)
  obtain ip port where "e = (ip, port)" by (cases e)
  with Cons show ?case
    by (auto simp: res_simps split: if_splits dest: SetServerUp_broadcast)
qed (auto intro: broadcast_same)

lemma active_round_broadcast: "active_round cd m reach (a, s) = Inr (go, a', s') \<Longrightarrow> broadcast s s'"
  by (auto simp: active_round_def res_simps split: option.splits
      intro: broadcast_same broadcast_trans[OF detect_up_broadcast detect_down_broadcast])

section \<open>The system\<close>

record 'f system =
  sys_main :: "'f main_process"
  sys_workers :: "worker list"

text \<open>The callbacks of a worker apart from the one that reads its pipe.\<close>

inductive own_step :: "'j json_lib \<Rightarrow> worker \<Rightarrow> worker \<Rightarrow> bool" for J where
  own_request: "client_socket_read_cb J env arg inp w = Inr (rest, w') \<Longrightarrow> own_step J w w'"
| own_hangup: "client_event_cb bev arg w = Inr w' \<Longrightarrow> own_step J w w'"
| own_reply: "work_server_socket_read_cb J inp w = Inr (rest, w') \<Longrightarrow> own_step J w w'"
| own_server: "work_server_event_cb fd bev w = Inr w' \<Longrightarrow> own_step J w w'"
| own_timeout: "check_time_out_cb now w = Some (Inr w') \<Longrightarrow> own_step J w w'"
| own_count: "empty_count_cb w = Inr w' \<Longrightarrow> own_step J w w'"

text \<open>
  A step of the system. The reconnection of the passive check, which writes half a command, is left out:
  what it does to the worker that reads it is shown in \<^verbatim>\<open>Gateway_Theorems\<close>.
\<close>

inductive sys_step :: "'f codec \<Rightarrow> 'j json_lib \<Rightarrow> 'f system \<Rightarrow> 'f system \<Rightarrow> bool" for cd J where
  clients: "ListenerClientCallBack locked (sys_main S) = Inr m \<Longrightarrow> sys_step cd J S (S\<lparr>sys_main := m\<rparr>)"
| servers: "sys_step cd J S (S\<lparr>sys_main := ListenerServerCallBack sockfd bev (sys_main S)\<rparr>)"
| registration: "server_socket_read_cb cd junk bev inp (sys_main S) = Inr (left, m) \<Longrightarrow> sys_step cd J S (S\<lparr>sys_main := m\<rparr>)"
| registered: "server_event_cb fd bev (sys_main S) = Inr m \<Longrightarrow> sys_step cd J S (S\<lparr>sys_main := m\<rparr>)"
| signal: "signal_cb sfd cfd (sys_main S) = Inr m \<Longrightarrow> sys_step cd J S (S\<lparr>sys_main := m\<rparr>)"
| active_check: "active_round cd maxfails reach (a, mon (sys_main S)) = Inr (go, a', s) \<Longrightarrow>
    sys_step cd J S (S\<lparr>sys_main := (sys_main S)\<lparr>mon := s\<rparr>\<rparr>)"
| passive_check: "\<not> (msg_type msg = 1 \<and> reach (msg_ip msg, msg_port msg)) \<Longrightarrow>
    passive_message cd reach msg (mon (sys_main S), shm (sys_main S)) = Inr (s, h) \<Longrightarrow>
    sys_step cd J S (S\<lparr>sys_main := (sys_main S)\<lparr>mon := s, shm := h\<rparr>\<rparr>)"
| reset: "sys_step cd J S (S\<lparr>sys_main := (sys_main S)\<lparr>shm := empty_heimingdan_cb (shm (sys_main S))\<rparr>\<rparr>)"
| command: "i < length (sys_workers S) \<Longrightarrow> i < length (pipes (mon (sys_main S))) \<Longrightarrow>
    pipe_event_CallBack env (pipes (mon (sys_main S)) ! i) (sys_workers S ! i, shm (sys_main S)) = Inr (inp, w, h) \<Longrightarrow>
    sys_step cd J S (S\<lparr>sys_main := (sys_main S)\<lparr>mon := (mon (sys_main S))\<lparr>pipes := (pipes (mon (sys_main S)))[i := inp]\<rparr>, shm := h\<rparr>,
      sys_workers := (sys_workers S)[i := w]\<rparr>)"
| own: "i < length (sys_workers S) \<Longrightarrow> own_step J (sys_workers S ! i) w \<Longrightarrow>
    sys_step cd J S (S\<lparr>sys_workers := (sys_workers S)[i := w]\<rparr>)"

text \<open>The system as \<^verbatim>\<open>Gateway_Start\<close> leaves it.\<close>

inductive sys_reach :: "'f codec \<Rightarrow> 'j json_lib \<Rightarrow> 'f system \<Rightarrow> bool" for cd J where
  sys_start: "pipes (mon (sys_main S)) = replicate (length (sys_workers S)) [] \<Longrightarrow> shm (sys_main S) = init_shm \<Longrightarrow> sys_reach cd J S"
| sys_next: "sys_reach cd J S \<Longrightarrow> sys_step cd J S S' \<Longrightarrow> sys_reach cd J S'"

section \<open>One client at a time\<close>

text \<open>The pipes hold whole commands, and as many calls to accept as the flag says.\<close>

definition accepts :: "command list list \<Rightarrow> nat" where
  "accepts cs = sum_list (map (\<lambda>xs. count_list xs AcceptClient) cs)"

definition pending :: "'f main_process \<Rightarrow> command list list \<Rightarrow> bool" where
  "pending m cs \<longleftrightarrow> pipes (mon m) = map images cs \<and> (\<forall>xs\<in>set cs. \<forall>x\<in>set xs. command_ok x) \<and>
     accepts cs = (if accept_flag (shm m) then 0 else 1)"

lemma pending_same:
  "pending m cs \<Longrightarrow> pipes (mon m') = pipes (mon m) \<Longrightarrow> accept_flag (shm m') = accept_flag (shm m) \<Longrightarrow> pending m' cs"
  by (simp add: pending_def)

lemma accepts_broadcast:
  assumes "\<forall>x\<in>set xs. x \<noteq> AcceptClient"
  shows "accepts (map (\<lambda>c. c @ xs) cs) = accepts cs"
proof -
  have "count_list xs AcceptClient = 0" using assms by (auto simp: count_list_0_iff)
  then show ?thesis by (simp add: accepts_def o_def count_list_append)
qed

lemma pending_broadcast:
  assumes "pending m cs" "broadcast (mon m) (mon m')" "accept_flag (shm m') = accept_flag (shm m)"
  shows "\<exists>cs'. pending m' cs'"
proof -
  obtain xs where xs: "\<forall>x\<in>set xs. command_ok x \<and> x \<noteq> AcceptClient" "pipes (mon m') = map (\<lambda>p. p @ images xs) (pipes (mon m))"
    using assms(2) unfolding broadcast_def by blast
  have "pending m' (map (\<lambda>c. c @ xs) cs)"
    using assms(1,3) xs accepts_broadcast[of xs cs] by (auto simp: pending_def o_def)
  then show ?thesis by blast
qed

lemma accepts_update:
  assumes "i < length cs"
  shows "accepts (cs[i := xs]) + count_list (cs ! i) AcceptClient = accepts cs + count_list xs AcceptClient"
  using assms
proof (induction cs arbitrary: i)
  case (Cons c cs)
  then show ?case by (cases i) (simp_all add: accepts_def)
qed simp

lemma commands_update:
  "\<forall>xs\<in>set cs. \<forall>x\<in>set xs. P x \<Longrightarrow> \<forall>x\<in>set ys. P x \<Longrightarrow> \<forall>xs\<in>set (cs[i := ys]). \<forall>x\<in>set xs. P x"
  using set_update_subset_insert[of cs i ys] by blast

lemma listener_pending:
  assumes "pending m cs" "ListenerClientCallBack locked m = Inr m'"
  shows "\<exists>cs'. pending m' cs'"
proof (cases "locked \<and> accept_flag (shm m)")
  case False
  then have "m' = m" using assms(2) by (auto simp: ListenerClientCallBack_def split: if_splits)
  then show ?thesis using assms(1) by blast
next
  case True
  let ?p = "pipes (mon m)"
  define k where "k = nat (accept_count m mod int (length ?p))"
  have ne: "?p \<noteq> []" and m': "mon m' = (mon m)\<lparr>pipes := ?p[k := ?p ! k @ enc_int 1]\<rparr>" "accept_flag (shm m') = False"
    using assms(2) True by (auto simp: ListenerClientCallBack_def Let_def k_def split: if_splits)
  have k: "k < length cs" "length cs = length ?p"
    using ne assms(1) by (auto simp: k_def pending_def nat_less_iff)
  let ?cs = "cs[k := cs ! k @ [AcceptClient]]"
  have "accepts ?cs + count_list (cs ! k) AcceptClient = accepts cs + count_list (cs ! k @ [AcceptClient]) AcceptClient"
    by (rule accepts_update[OF k(1)])
  then have "accepts ?cs = 1" using assms(1) True by (simp add: pending_def count_list_append)
  moreover have p: "?p = map images cs" using assms(1) by (simp add: pending_def)
  moreover have "?p[k := ?p ! k @ enc_int 1] = map images ?cs" unfolding p using k(1) by (simp add: map_update)
  moreover have "\<forall>xs\<in>set ?cs. \<forall>x\<in>set xs. command_ok x"
    using assms(1) nth_mem[OF k(1)] by (intro commands_update) (auto simp: pending_def)
  ultimately have "pending m' ?cs" using m' by (simp add: pending_def)
  then show ?thesis by blast
qed

lemma send_all_broadcast: "command_ok x \<Longrightarrow> x \<noteq> AcceptClient \<Longrightarrow> broadcast (mon m) (mon (send_all (image x) m))"
  unfolding broadcast_def by (intro exI[of _ "[x]"]) (simp add: send_all_def)

lemma address_bytes:
  assumes "fill_address (new_address 0) bs = Inr a"
  shows "length (enc_address a) = 36"
proof -
  have l: "length (enc_address (new_address 0)) = 36" by (simp add: enc_address_def new_address_def)
  define b where "b = bs @ drop (length bs) (enc_address (new_address 0))"
  have "length b = 36" "a = dec_address b"
    using assms by (auto simp: fill_address_def SIZEOF_ADDRESS_def l b_def split: if_splits)
  then show ?thesis by (simp add: dec_address_def enc_address_def)
qed

lemma forward_broadcast:
  assumes "forward_address k n a m = Inr m'" "k = 2 \<or> k = 3" "length (enc_address a) = 36" "- 2147483648 \<le> n" "n < 2147483648"
  shows "broadcast (mon m) (mon m') \<and> shm m' = shm m"
proof -
  have n: "u64 n \<le> 36" "m' = send_all (enc_int k @ enc_int n @ take (nat n) (enc_address a)) m"
    using assms(1) by (auto simp: forward_address_def SIZEOF_ADDRESS_def split: if_splits)
  have "0 \<le> n" using n(1) u64_wraps[of n] assms(4) by (cases "n < 0") auto
  then have b: "0 \<le> n" "n \<le> 36" using n(1) assms(5) by simp_all
  let ?x = "if k = 2 then AddServer n (take (nat n) (enc_address a)) else DropServer n (take (nat n) (enc_address a))"
  have x: "command_ok ?x" "?x \<noteq> AcceptClient" "image ?x = enc_int k @ enc_int n @ take (nat n) (enc_address a)"
    using assms(2,3) b by auto
  show ?thesis using send_all_broadcast[OF x(1,2), of m] unfolding x(3) n(2) by (simp add: send_all_def)
qed

lemma send_reply_pipes: "send_reply b j t m = Inr m' \<Longrightarrow> mon m' = mon m \<and> shm m' = shm m"
  by (auto simp: send_reply_def main_write_def res_simps split: if_splits)

lemma answered_broadcast:
  assumes "bindE (send_reply b j t (m\<lparr>mon := s\<rparr>)) (\<lambda>m. bindE (forward_address k n a m) (\<lambda>m. Inr (l, m))) = Inr (left, m')"
    and "broadcast (mon m) s" "k = 2 \<or> k = 3" "length (enc_address a) = 36" "- 2147483648 \<le> n" "n < 2147483648"
  shows "broadcast (mon m) (mon m') \<and> shm m' = shm m"
proof -
  obtain m1 where m1: "send_reply b j t (m\<lparr>mon := s\<rparr>) = Inr m1" "forward_address k n a m1 = Inr m'"
    using assms(1) by (auto simp: res_simps)
  from forward_broadcast[OF m1(2) assms(3-6)] send_reply_pipes[OF m1(1)] show ?thesis
    using broadcast_trans[OF assms(2)] by simp
qed

lemma refused_broadcast:
  assumes "bindE (send_reply bev junk t (m\<lparr>mon := s\<rparr>)) (\<lambda>m. Inr (x, m)) = Inr (left, m')" "broadcast (mon m) s"
  shows "broadcast (mon m) (mon m') \<and> shm m' = shm m"
  using assms by (auto simp: res_simps dest: send_reply_pipes)

lemma registration_broadcast:
  assumes "server_socket_read_cb cd junk bev inp m = Inr (left, m')"
  shows "broadcast (mon m) (mon m') \<and> shm m' = shm m"
proof -
  define n where "n = dec_int inp"
  define bs where "bs = take (nat (u64 n)) (drop 4 inp)"
  obtain a where a: "fill_address (new_address 0) bs = Inr a"
    using assms by (auto simp: server_socket_read_cb_def Let_def res_simps n_def bs_def split: if_splits)
  note l = address_bytes[OF a]
  have r: "- 2147483648 \<le> n" "n < 2147483648" using dec_int_range[of inp] by (simp_all add: n_def)
  obtain r1 s1 where s1: "LoginServer cd (c_ip a) (addr_port a) (mon m) = (r1, s1)" by fastforce
  obtain r2 s2 where s2: "LogoutServer cd (c_ip a) (addr_port a) (mon m) = (r2, s2)" by fastforce
  note b = LoginServer_broadcast[OF s1] LogoutServer_broadcast[OF s2]
  note run = assms[unfolded server_socket_read_cb_def Let_def n_def[symmetric] bs_def[symmetric] a bindE_Inr s1 s2 prod.case]
  consider (entered) "c_token a = ''login''" "r1 = 0" | (known) "c_token a = ''login''" "r1 \<noteq> 0"
    | (removed) "c_token a = ''logout''" "r2 = 0" | (unknown) "c_token a = ''logout''" "r2 \<noteq> 0"
    | (other) "c_token a \<noteq> ''login''" "c_token a \<noteq> ''logout''" by blast
  then show ?thesis
  proof cases
    case entered
    with run have "bindE (send_reply bev junk login_done (m\<lparr>mon := s1\<rparr>))
        (\<lambda>m. bindE (forward_address 2 n a m) (\<lambda>m. Inr (drop (length bs) (drop 4 inp), m))) = Inr (left, m')"
      by (simp split: if_splits)
    then show ?thesis by (rule answered_broadcast[OF _ b(1) _ l r]) simp
  next
    case removed
    with run have "bindE (send_reply bev junk logout_done (m\<lparr>mon := s2\<rparr>))
        (\<lambda>m. bindE (forward_address 3 n a m) (\<lambda>m. Inr (drop (length bs) (drop 4 inp), m))) = Inr (left, m')"
      by (simp split: if_splits)
    then show ?thesis by (rule answered_broadcast[OF _ b(2) _ l r]) simp
  next
    case known
    with run show ?thesis by (auto split: if_splits intro!: refused_broadcast[OF _ b(1)])
  next
    case unknown
    with run show ?thesis by (auto split: if_splits intro!: refused_broadcast[OF _ b(2)])
  next
    case other
    with run have "m' = m" by (simp split: if_splits)
    then show ?thesis by (simp add: broadcast_same)
  qed
qed

lemma frees_pipes: "foldE (\<lambda>x. main_free (snd x)) xs m = Inr m' \<Longrightarrow> mon m' = mon m \<and> shm m' = shm m"
  by (induction xs arbitrary: m) (auto simp: res_simps main_free_def split: if_splits)

lemma signal_broadcast: "signal_cb sfd cfd m = Inr m' \<Longrightarrow> broadcast (mon m) (mon m') \<and> shm m' = shm m"
  using send_all_broadcast[of Stop m] by (auto simp: signal_cb_def res_simps send_all_def dest!: frees_pipes)

lemma passive_broadcast:
  assumes "\<not> (msg_type msg = 1 \<and> reach (msg_ip msg, msg_port msg))" "passive_message cd reach msg (s, h) = Inr (s', h')"
  shows "broadcast s s' \<and> accept_flag h' = accept_flag h"
  using assms
  by (auto simp: passive_message_def Let_def res_simps add_black_def split: if_splits
      dest: SetServerDown_broadcast intro: broadcast_same)

lemma obey_flag:
  assumes "obey env c (w, h) = Inr (w', h')"
  shows "accept_flag h' = (if c = AcceptClient then True else accept_flag h)"
  using assms by (cases c) (auto simp: res_simps dest: accept_sets_flag)

lemma command_pending:
  assumes "pending m cs" "i < length cs" "pipe_event_CallBack env (pipes (mon m) ! i) (w, shm m) = Inr (inp, w', h)"
  shows "\<exists>cs'. pending (m\<lparr>mon := (mon m)\<lparr>pipes := (pipes (mon m))[i := inp]\<rparr>, shm := h\<rparr>) cs'"
proof (cases "cs ! i")
  case Nil
  then have "pipes (mon m) ! i = []" using assms(1,2) by (simp add: pending_def)
  then have "inp = pipes (mon m) ! i" "h = shm m" using assms(3) by (auto simp: pipe_event_CallBack_def)
  then show ?thesis using assms(1) by (intro exI[of _ cs] pending_same[OF assms(1)]) simp_all
next
  case (Cons c xs)
  then have c: "command_ok c" "pipes (mon m) ! i = image c @ images xs"
    using assms(1,2) nth_mem[OF assms(2)] by (auto simp: pending_def)
  have o: "obey env c (w, shm m) = Inr (w', h)" "inp = images xs"
    using assms(3) command_read[OF c(1), of env "images xs" "(w, shm m)"] by (auto simp: c(2) res_simps)
  let ?cs = "cs[i := xs]"
  have a: "accepts ?cs + (if c = AcceptClient then 1 else 0) = accepts cs"
    using accepts_update[OF assms(2), of xs] by (auto simp: Cons)
  then have "accepts ?cs = (if accept_flag h then 0 else 1)"
    using assms(1) obey_flag[OF o(1)] by (auto simp: pending_def split: if_splits)
  moreover have "\<forall>ys\<in>set ?cs. \<forall>x\<in>set ys. command_ok x"
    using assms(1) nth_mem[OF assms(2)] Cons by (intro commands_update) (auto simp: pending_def)
  ultimately have "pending (m\<lparr>mon := (mon m)\<lparr>pipes := (pipes (mon m))[i := inp]\<rparr>, shm := h\<rparr>) ?cs"
    using assms(1) o(2) by (simp add: pending_def map_update)
  then show ?thesis by blast
qed

lemma sys_step_pending:
  assumes "sys_step cd J S S'" "pending (sys_main S) cs"
  shows "\<exists>cs'. pending (sys_main S') cs'"
  using assms(1)
proof cases
  case (clients locked m)
  then show ?thesis using listener_pending[OF assms(2)] by simp
next
  case (servers sockfd bev)
  then show ?thesis
    using pending_same[OF assms(2), of "ListenerServerCallBack sockfd bev (sys_main S)"] by (auto simp: ListenerServerCallBack_def)
next
  case (registration junk bev inp left m)
  then show ?thesis using registration_broadcast[OF registration(2)] pending_broadcast[OF assms(2)] by simp
next
  case (registered fd bev m)
  then have "mon m = mon (sys_main S) \<and> shm m = shm (sys_main S)"
    by (auto simp: server_event_cb_def res_simps main_free_def split: if_splits)
  then show ?thesis using registered pending_same[OF assms(2), of m] by auto
next
  case (signal sfd cfd m)
  then show ?thesis using signal_broadcast[OF signal(2)] pending_broadcast[OF assms(2)] by simp
next
  case (active_check maxfails reach a go a' s)
  then show ?thesis
    using active_round_broadcast[OF active_check(2)] pending_broadcast[OF assms(2), of "(sys_main S)\<lparr>mon := s\<rparr>"] by simp
next
  case (passive_check msg reach s h)
  then show ?thesis
    using passive_broadcast[OF passive_check(2,3)] pending_broadcast[OF assms(2), of "(sys_main S)\<lparr>mon := s, shm := h\<rparr>"] by simp
next
  case reset
  then show ?thesis
    using pending_same[OF assms(2), of "(sys_main S)\<lparr>shm := empty_heimingdan_cb (shm (sys_main S))\<rparr>"] by (auto simp: empty_heimingdan_cb_def)
next
  case (command i env inp w h)
  have "i < length cs" using command(3) assms(2) by (simp add: pending_def)
  then show ?thesis using command command_pending[OF assms(2) _ command(4)] by simp
next
  case (own i w)
  then show ?thesis using assms(2) by auto
qed

lemma sys_reach_pending: "sys_reach cd J S \<Longrightarrow> \<exists>cs. pending (sys_main S) cs"
proof (induction rule: sys_reach.induct)
  case (sys_start S)
  have "pending (sys_main S) (replicate (length (sys_workers S)) [])"
    using sys_start by (simp add: pending_def init_shm_def accepts_def sum_list_replicate)
  then show ?case by blast
next
  case (sys_next S S')
  then show ?case using sys_step_pending by blast
qed



end
