(* ===== verification/Rate_Limit.thy ===== *)
theory Rate_Limit
  imports Gateway_System Worker_Faults
begin

text \<open>
  A client that asks too often, across the processes: the worker that counts its packets reports it on
  the message queue, the passive check writes its address into the shared memory, and every worker that
  is told to accept looks there.
\<close>

section \<open>The black list until its next reset\<close>

inductive later :: "Hhei_Ming_Dan \<Rightarrow> Hhei_Ming_Dan \<Rightarrow> bool" for h where
  later_same: "later h h"
| later_report: "later h h1 \<Longrightarrow> NUL \<notin> set ip \<Longrightarrow> length ip < 20 \<Longrightarrow> add_black ip h1 = Inr h2 \<Longrightarrow> later h h2"
| later_flag: "later h h1 \<Longrightarrow> later h (h1\<lparr>accept_flag := b\<rparr>)"

lemma black_flag [simp]: "black_rows (h\<lparr>accept_flag := b\<rparr>) = black_rows h" "black_ok (h\<lparr>accept_flag := b\<rparr>) = black_ok h"
  by (simp_all add: black_rows_def black_ok_def)

text \<open>Further reports never take a row away.\<close>

lemma later_keeps: "later h h1 \<Longrightarrow> black_ok h \<Longrightarrow> black_ok h1 \<and> set (black_rows h) \<subseteq> set (black_rows h1)"
proof (induction rule: later.induct)
  case (later_report h1 ip h2)
  then have ok: "black_ok h1" "set (black_rows h) \<subseteq> set (black_rows h1)" by simp_all
  show ?case
  proof (cases "hmd_count h1 = 1000")
    case True
    then have "h2 = h1" using later_report.hyps(4) by (simp add: add_black_full)
    then show ?thesis using ok by simp
  next
    case False
    then have "hmd_count h1 < 1000" using ok(1) by (simp add: black_ok_def)
    from add_black_rows[OF ok(1) later_report.hyps(2,3) this] show ?thesis using ok(2) later_report.hyps(4) by auto
  qed
qed simp_all

text \<open>A worker that is told to accept closes the connection of an address on the list.\<close>

lemma accept_refuses:
  assumes "e_accept env = Some (fd, ip)" "NUL \<notin> set ip" "length ip < 20" "ip \<in> set (black_rows h)"
  shows "accept_client env (w, h) = Inr (emit (CloseFd fd) w, h\<lparr>accept_flag := True\<rparr>)"
  using verify_client_ip_iff[OF assms(2,3), of "h\<lparr>accept_flag := True\<rparr>"] assms(1,4) by (simp add: accept_client_def)

section \<open>The way of a report\<close>

lemma read_over_limit:
  assumes "map_of (client_map w) (u32 arg) = Some ci" "\<not> close_flag ci" "10 \<le> cl_count ci"
    and "next_frame inp = Packet msg rest" "j_parse J msg = Some v" "m_Serverlist w \<noteq> []"
    and "NUL \<notin> set (cl_ip ci)" "length (cl_ip ci) < 20"
  shows "client_socket_read_cb J env arg inp w = Inr (rest, over_limit (u32 arg) ci w)"
  using packet_over_limit[OF assms(1,3,5-8), of env] assms(1,2,4)
  by (simp add: client_socket_read_cb_def get_client_def client_read_loop.simps)

lemma marked_not_read:
  "client_socket_read_cb J env arg inp (over_limit (u32 arg) ci w) = Inr (inp, over_limit (u32 arg) ci w)"
  by (simp add: client_socket_read_cb_def get_client_def over_limit_def marked_client_def update_conv')

lemma ban_recorded:
  assumes "black_ok h" "hmd_count h < 1000" "NUL \<notin> set (cl_ip ci)" "length (cl_ip ci) < 20"
  shows "\<exists>h'. passive_message cd reach (ban_message ci w) (s, h) = Inr (s, h') \<and> black_ok h' \<and> cl_ip ci \<in> set (black_rows h')"
  using add_black_rows[OF assms(1,3,4,2)] by (auto simp: passive_message_def ban_message_def)

text \<open>C12: A client that asks too often is locked out of the whole gateway. The first packet behind the ten
  that its worker allows is not forwarded, the client is marked, and nothing more is read from it. The
  one thing the worker does is to send a message, and when the passive check takes it, whatever the list
  of servers is and whichever of them answer, it changes nothing but the black list. From then on, until
  the list is reset, whatever other clients are reported, any worker that is told to accept and gets a
  connection from this address closes it and goes on unchanged.\<close>

theorem greedy_client_banned:
  assumes "map_of (client_map w) (u32 arg) = Some ci" "\<not> close_flag ci" "10 \<le> cl_count ci"
    and "next_frame inp = Packet msg rest" "j_parse J msg = Some v" "m_Serverlist w \<noteq> []"
    and ip: "NUL \<notin> set (cl_ip ci)" "length (cl_ip ci) < 20" and h: "black_ok h" "hmd_count h < 1000"
  shows "\<exists>w' m h'. client_socket_read_cb J env arg inp w = Inr (rest, w') \<and> calls w' = calls w @ [MsgSnd m] \<and>
    (\<forall>env2 inp2. client_socket_read_cb J env2 arg inp2 w' = Inr (inp2, w')) \<and>
    passive_message cd reach m (s, h) = Inr (s, h') \<and>
    (\<forall>h2 env2 w2 fd more. later h' h2 \<and> e_accept env2 = Some (fd, cl_ip ci) \<longrightarrow>
       pipe_event_CallBack env2 (image AcceptClient @ more) (w2, h2) =
         Inr (more, emit (CloseFd fd) w2, h2\<lparr>accept_flag := True\<rparr>))"
proof -
  obtain h' where h': "passive_message cd reach (ban_message ci w) (s, h) = Inr (s, h')" "black_ok h'" "cl_ip ci \<in> set (black_rows h')"
    using ban_recorded[OF h ip] by blast
  have refused: "pipe_event_CallBack env2 (image AcceptClient @ more) (w2, h2) =
      Inr (more, emit (CloseFd fd) w2, h2\<lparr>accept_flag := True\<rparr>)"
    if "later h' h2" "e_accept env2 = Some (fd, cl_ip ci)" for h2 env2 w2 fd more
    using accept_refuses[OF that(2) ip, of h2 w2] later_keeps[OF that(1) h'(2)] h'(3)
    by (subst command_read) auto
  have "calls (over_limit (u32 arg) ci w) = calls w @ [MsgSnd (ban_message ci w)]" by (simp add: over_limit_def)
  then show ?thesis
    using read_over_limit[OF assms(1-8), of env] marked_not_read h'(1) refused by blast
qed

theorem greedy_client_banned_witness:
  "\<exists>w' m h'. client_socket_read_cb demo_json (demo_env 102 4 False) 0 (frame_of ''A'') busy_worker = Inr ([], w') \<and>
     calls w' = calls busy_worker @ [MsgSnd m] \<and>
     passive_message plain_codec (\<lambda>_. True) m (demo_registry, init_shm) = Inr (demo_registry, h') \<and>
     pipe_event_CallBack (demo_env 103 5 False) (image AcceptClient) (worker0, h') =
       Inr ([], emit (CloseFd 5) worker0, h'\<lparr>accept_flag := True\<rparr>)"
proof -
  have c: "map_of (client_map busy_worker) (u32 0) = Some (demo_client\<lparr>cl_count := 10\<rparr>)" "m_Serverlist busy_worker \<noteq> []"
    by (simp_all add: busy_worker_def u32_0 worker3_eval(2) worker2_eval(2) worker1_eq)
  have i: "cl_ip demo_client = ''10.1.1.1''" "\<not> close_flag demo_client" by (simp_all add: demo_client_def new_client_information_def)
  have s: "hmd_count init_shm < 1000" by (simp add: init_shm_def)
  from greedy_client_banned[OF c(1) _ _ next_frame_A _ c(2) _ _ init_shm_ok(1) s, of demo_json "''A''" "demo_env 102 4 False"
      plain_codec "\<lambda>_. True" demo_registry]
  obtain w' m h' where w': "client_socket_read_cb demo_json (demo_env 102 4 False) 0 (frame_of ''A'') busy_worker = Inr ([], w')"
    "calls w' = calls busy_worker @ [MsgSnd m]"
    "passive_message plain_codec (\<lambda>_. True) m (demo_registry, init_shm) = Inr (demo_registry, h')"
    "\<forall>h2 env2 w2 fd more. later h' h2 \<and> e_accept env2 = Some (fd, ''10.1.1.1'') \<longrightarrow>
       pipe_event_CallBack env2 (image AcceptClient @ more) (w2, h2) =
         Inr (more, emit (CloseFd fd) w2, h2\<lparr>accept_flag := True\<rparr>)"
    by (auto simp: i demo_json_simps)
  moreover have "e_accept (demo_env 103 5 False) = Some (5, ''10.1.1.1'')" by (simp add: demo_env_def)
  ultimately show ?thesis using w'(4)[rule_format, of h' "demo_env 103 5 False" 5 "[]" worker0] later_same
    by (intro exI[of _ w'] exI[of _ m] exI[of _ h']) simp
qed

end
