(* ===== verification/Registry_Races.thy ===== *)
theory Registry_Races
  imports Registry_Theorems
begin

text \<open>
  The operations on \<^verbatim>\<open>server_list.json\<close> under threads. The main thread enters and removes servers, the two
  health checks mark them, and no lock is held from the reading of the file (\<open>LoadServerList\<close>) to its
  writing (\<open>UpdateServerList\<close>): here each operation is these two steps, and a schedule says whose turn it is.
\<close>

section \<open>Threads\<close>

text \<open>What each operation does with the lists it has loaded.\<close>

definition SetServerDown_store :: "'f codec \<Rightarrow> string \<Rightarrow> int \<Rightarrow> server list \<times> server list \<Rightarrow> 'f monitor \<Rightarrow> (int \<times> 'f monitor) res" where
  "SetServerDown_store cd ip port = (\<lambda>(up, down) s.
     if (ip, port) \<notin> set up then Inr (-1, s)
     else let (ret, s) = UpdateServerList cd (filter (\<lambda>e. e \<noteq> (ip, port)) up, down @ [(ip, port)]) s in
       if ret \<noteq> 0 then Inr (-1, s) else bindE (notify_workers 3 ip port s) (\<lambda>s. Inr (0, s)))"

definition SetServerUp_store :: "'f codec \<Rightarrow> string \<Rightarrow> int \<Rightarrow> server list \<times> server list \<Rightarrow> 'f monitor \<Rightarrow> (int \<times> 'f monitor) res" where
  "SetServerUp_store cd ip port = (\<lambda>(up, down) s.
     if (ip, port) \<notin> set down then Inr (-1, s)
     else let (ret, s) = UpdateServerList cd (up @ [(ip, port)], filter (\<lambda>e. e \<noteq> (ip, port)) down) s in
       if ret \<noteq> 0 then Inr (-1, s) else bindE (notify_workers 2 ip port s) (\<lambda>s. Inr (0, s)))"

definition LoginServer_store :: "'f codec \<Rightarrow> string \<Rightarrow> int \<Rightarrow> server list \<times> server list \<Rightarrow> 'f monitor \<Rightarrow> (int \<times> 'f monitor) res" where
  "LoginServer_store cd ip port = (\<lambda>(up, down) s.
     if (ip, port) \<in> set up \<or> (ip, port) \<in> set down then Inr (-1, s)
     else let (ret, s) = UpdateServerList cd (up @ [(ip, port)], down) s in Inr (if ret \<noteq> 0 then -1 else 0, s))"

definition LogoutServer_store :: "'f codec \<Rightarrow> string \<Rightarrow> int \<Rightarrow> server list \<times> server list \<Rightarrow> 'f monitor \<Rightarrow> (int \<times> 'f monitor) res" where
  "LogoutServer_store cd ip port = (\<lambda>(up, down) s.
     if (ip, port) \<notin> set up \<and> (ip, port) \<notin> set down then Inr (-1, s)
     else let (ret, s) = UpdateServerList cd (filter (\<lambda>e. e \<noteq> (ip, port)) up, filter (\<lambda>e. e \<noteq> (ip, port)) down) s in
       Inr (if ret \<noteq> 0 then -1 else 0, s))"

lemmas store_defs = SetServerDown_store_def SetServerUp_store_def LoginServer_store_def LogoutServer_store_def

fun store_phase :: "'f codec \<Rightarrow> change \<times> server \<Rightarrow> server list \<times> server list \<Rightarrow> 'f monitor \<Rightarrow> (int \<times> 'f monitor) res" where
  "store_phase cd (Mark_Down, ip, port) = SetServerDown_store cd ip port"
| "store_phase cd (Mark_Up, ip, port) = SetServerUp_store cd ip port"
| "store_phase cd (Enter, ip, port) = LoginServer_store cd ip port"
| "store_phase cd (Remove, ip, port) = LogoutServer_store cd ip port"

text \<open>A thread: the operations it still has to do, the lists loaded for the first of them, and the answers so far.\<close>

record thread =
  todo :: "(change \<times> server) list"
  loaded :: "(server list \<times> server list) option"
  answers :: "int list"

definition new_thread :: "(change \<times> server) list \<Rightarrow> thread" where
  "new_thread rs = \<lparr>todo = rs, loaded = None, answers = []\<rparr>"

text \<open>The next step of a thread: it loads, or it ends the operation with what it loaded.\<close>

definition thread_step :: "'f codec \<Rightarrow> thread \<Rightarrow> 'f monitor \<Rightarrow> (thread \<times> 'f monitor) res" where
  "thread_step cd t s =
     (case todo t of
        [] \<Rightarrow> Inr (t, s)
      | r # rs \<Rightarrow>
          (case loaded t of
             None \<Rightarrow>
               let (ret, ls) = LoadServerList cd s ([], []) in
               if ret \<noteq> 0 then Inr (t\<lparr>todo := rs, answers := answers t @ [-1]\<rparr>, s) else Inr (t\<lparr>loaded := Some ls\<rparr>, s)
           | Some ls \<Rightarrow>
               bindE (store_phase cd r ls s) (\<lambda>(a, s). Inr (\<lparr>todo = rs, loaded = None, answers = answers t @ [a]\<rparr>, s))))"

definition turn :: "'f codec \<Rightarrow> nat \<Rightarrow> thread list \<times> 'f monitor \<Rightarrow> (thread list \<times> 'f monitor) res" where
  "turn cd i c = bindE (thread_step cd (fst c ! i) (snd c)) (\<lambda>(t, s). Inr ((fst c)[i := t], s))"

text \<open>One step directly after the other is the operation.\<close>

lemma perform_phases:
  "perform cd r s = (let (ret, ls) = LoadServerList cd s ([], []) in if ret \<noteq> 0 then Inr (-1, s) else store_phase cd r ls s)"
proof (cases "(cd, r, s)" rule: perform.cases)
  case (1 cd ip port s)
  then show ?thesis by (auto simp: SetServerDown_def store_defs Let_def split: prod.splits)
next
  case (2 cd ip port s)
  then show ?thesis by (auto simp: SetServerUp_def store_defs Let_def split: prod.splits)
next
  case (3 cd ip port s)
  then show ?thesis by (auto simp: LoginServer_def store_defs Let_def split: prod.splits)
next
  case (4 cd ip port s)
  then show ?thesis by (auto simp: LogoutServer_def store_defs Let_def split: prod.splits)
qed

section \<open>Undisturbed schedules\<close>

definition storing :: "thread \<Rightarrow> bool" where
  "storing t \<longleftrightarrow> todo t \<noteq> [] \<and> loaded t \<noteq> None"

text \<open>The operations in the order in which a schedule ends them.\<close>

fun stored :: "'f codec \<Rightarrow> nat list \<Rightarrow> thread list \<times> 'f monitor \<Rightarrow> (change \<times> server) list" where
  "stored cd [] c = []"
| "stored cd (i # is) c =
     (if storing (fst c ! i) then [hd (todo (fst c ! i))] else []) @
     (case turn cd i c of Inl _ \<Rightarrow> [] | Inr c \<Rightarrow> stored cd is c)"

text \<open>No operation works on lists that another one has changed since they were loaded.\<close>

fun undisturbed :: "'f codec \<Rightarrow> nat list \<Rightarrow> thread list \<times> 'f monitor \<Rightarrow> bool" where
  "undisturbed cd [] c = True"
| "undisturbed cd (i # is) c \<longleftrightarrow>
     (storing (fst c ! i) \<longrightarrow> loaded (fst c ! i) = Some (lists_of cd (snd c))) \<and>
     (case turn cd i c of Inl _ \<Rightarrow> True | Inr c \<Rightarrow> undisturbed cd is c)"

definition all_fit :: "thread list \<Rightarrow> bool" where
  "all_fit ts \<longleftrightarrow> (\<forall>t\<in>set ts. \<forall>r\<in>set (todo t). length (fst (snd r)) < 20)"

definition all_answers :: "thread list \<Rightarrow> int multiset" where
  "all_answers ts = mset (concat (map answers ts))"

lemma all_fit_update: "all_fit ts \<Longrightarrow> i < length ts \<Longrightarrow> set (todo t) \<subseteq> set (todo (ts ! i)) \<Longrightarrow> all_fit (ts[i := t])"
  unfolding all_fit_def using set_update_subset_insert[of ts i t] nth_mem[of i ts] by blast

lemma all_answers_update:
  "i < length ts \<Longrightarrow> answers t = answers (ts ! i) @ as \<Longrightarrow> all_answers (ts[i := t]) = all_answers ts + mset as"
  unfolding all_answers_def
  by (induction ts arbitrary: i) (auto split: nat.splits simp: nth_Cons')

lemma store_fresh: "registry_ok cd s \<Longrightarrow> store_phase cd r (lists_of cd s) s = perform cd r s"
  by (simp add: perform_phases load_ok registry_ok_def)

text \<open>A turn ends an operation as if it were done at once, or changes no list.\<close>

lemma turn_effect:
  assumes ok: "registry_ok cd s" and fit: "all_fit ts" and i: "i < length ts"
    and und: "storing (ts ! i) \<longrightarrow> loaded (ts ! i) = Some (lists_of cd s)"
  shows "\<exists>t s'. turn cd i (ts, s) = Inr (ts[i := t], s') \<and> registry_ok cd s' \<and> all_fit (ts[i := t]) \<and>
    (if storing (ts ! i)
     then \<exists>a. perform cd (hd (todo (ts ! i))) s = Inr (a, s') \<and> all_answers (ts[i := t]) = all_answers ts + {#a#}
     else s' = s \<and> all_answers (ts[i := t]) = all_answers ts)"
proof (cases "todo (ts ! i)")
  case Nil
  then show ?thesis using ok fit i
    by (intro exI[of _ "ts ! i"] exI[of _ s]) (simp add: turn_def thread_step_def storing_def)
next
  case (Cons r rs)
  show ?thesis
  proof (cases "loaded (ts ! i)")
    case None
    let ?t = "(ts ! i)\<lparr>loaded := Some (lists_of cd s)\<rparr>"
    have "turn cd i (ts, s) = Inr (ts[i := ?t], s)"
      using load_ok[of s cd] ok by (simp add: turn_def thread_step_def Cons None registry_ok_def)
    then show ?thesis using ok all_fit_update[OF fit i, of ?t] all_answers_update[OF i, of ?t "[]"] None
      by (intro exI[of _ ?t] exI[of _ s]) (simp add: storing_def)
  next
    case (Some ls)
    have st1: "storing (ts ! i)" unfolding storing_def Cons Some by simp
    have "Some ls = Some (lists_of cd s)" using mp[OF und st1] unfolding Some .
    then have st: "storing (ts ! i)" "ls = lists_of cd s" using st1 by simp_all
    obtain ch e where r: "r = (ch, e)" by (cases r)
    have "length (fst e) < 20" using fit nth_mem[OF i] Cons unfolding all_fit_def r by (metis list.set_intros(1) snd_conv)
    from servers.answered[OF ok this, of ch] obtain a s' where p: "perform cd r s = Inr (a, s')" "registry_ok cd s'"
      by (auto simp: r)
    let ?t = "\<lparr>todo = rs, loaded = None, answers = answers (ts ! i) @ [a]\<rparr>"
    have "turn cd i (ts, s) = Inr (ts[i := ?t], s')"
      using p(1) store_fresh[OF ok, of r] by (simp add: turn_def thread_step_def Cons Some st(2))
    then show ?thesis using p st(1) all_fit_update[OF fit i, of ?t] all_answers_update[OF i, of ?t "[a]"]
      by (intro exI[of _ ?t] exI[of _ s']) (auto simp: Cons)
  qed
qed

lemma undisturbed_serial:
  assumes "registry_ok cd s" "all_fit ts" "\<forall>i\<in>set sched. i < length ts" "undisturbed cd sched (ts, s)"
  shows "\<exists>ts' s' as. foldE (turn cd) sched (ts, s) = Inr (ts', s') \<and> registry_ok cd s' \<and>
    perform_all (perform cd) (stored cd sched (ts, s)) s = Inr (as, s') \<and> all_answers ts' = all_answers ts + mset as"
  using assms
proof (induction sched arbitrary: ts s)
  case (Cons i sched)
  have u: "storing (ts ! i) \<longrightarrow> loaded (ts ! i) = Some (lists_of cd s)" "i < length ts" using Cons.prems(3,4) by simp_all
  obtain t s1 where t: "turn cd i (ts, s) = Inr (ts[i := t], s1)" "registry_ok cd s1" "all_fit (ts[i := t])"
    "if storing (ts ! i)
     then \<exists>a. perform cd (hd (todo (ts ! i))) s = Inr (a, s1) \<and> all_answers (ts[i := t]) = all_answers ts + {#a#}
     else s1 = s \<and> all_answers (ts[i := t]) = all_answers ts"
    using turn_effect[OF Cons.prems(1,2) u(2,1)] by blast
  have "undisturbed cd sched (ts[i := t], s1)" "\<forall>j\<in>set sched. j < length (ts[i := t])" using Cons.prems(3,4) t(1) by simp_all
  from Cons.IH[OF t(2,3) this(2,1)] obtain ts' s' as where IH: "foldE (turn cd) sched (ts[i := t], s1) = Inr (ts', s')" "registry_ok cd s'"
    "perform_all (perform cd) (stored cd sched (ts[i := t], s1)) s1 = Inr (as, s')" "all_answers ts' = all_answers (ts[i := t]) + mset as"
    by blast
  show ?case
  proof (cases "storing (ts ! i)")
    case True
    then obtain a where "perform cd (hd (todo (ts ! i))) s = Inr (a, s1)" "all_answers (ts[i := t]) = all_answers ts + {#a#}" using t(4) by auto
    then show ?thesis using IH t(1) True by (intro exI[of _ ts'] exI[of _ s'] exI[of _ "a # as"]) simp
  next
    case False
    then show ?thesis using IH t(1,4) by (intro exI[of _ ts'] exI[of _ s'] exI[of _ as]) simp
  qed
qed simp


text \<open>Two threads: one marks a server down, the other enters one.\<close>

definition two_threads :: "server \<Rightarrow> server \<Rightarrow> thread list" where
  "two_threads d e = [new_thread [(Mark_Down, d)], new_thread [(Enter, e)]]"

lemma two_threads_simps [simp]:
  "length (two_threads d e) = 2" "two_threads d e ! 0 = new_thread [(Mark_Down, d)]" "two_threads d e ! Suc 0 = new_thread [(Enter, e)]"
  by (simp_all add: two_threads_def)


section \<open>Lost updates\<close>

text \<open>C40: An answer of success can be lost. Nothing keeps two threads from disturbing each other: when a health check
  has loaded the list to mark a server down, and another server logs in before it writes, the login is
  answered with 0, the health check too, and then the server that logged in is not in the list; when one
  logs out instead it is in the list again.\<close>

theorem registration_lost:
  assumes ok: "registry_ok cd s" and d: "registry cd s d = Some Up" "length (fst d) < 20"
  shows "(registry cd s e = None \<longrightarrow>
      (\<exists>ts' s'. foldE (turn cd) [0, 1, 1, 0] ([new_thread [(Mark_Down, d)], new_thread [(Enter, e)]], s) = Inr (ts', s') \<and>
        map answers ts' = [[0], [0]] \<and> registry cd s' = (registry cd s)(d \<mapsto> Down))) \<and>
    (registry cd s e \<noteq> None \<longrightarrow>
      (\<exists>ts' s'. foldE (turn cd) [0, 1, 1, 0] ([new_thread [(Mark_Down, d)], new_thread [(Remove, e)]], s) = Inr (ts', s') \<and>
        map answers ts' = [[0], [0]] \<and> registry cd s' = (registry cd s)(d \<mapsto> Down)))"
proof -
  obtain up down where l: "lists_of cd s = (up, down)" by (cases "lists_of cd s")
  obtain ip port ip' port' where de: "d = (ip, port)" "e = (ip', port')" by (cases d, cases e)
  have r: "codec_ok cd" "reg_file s \<noteq> None" "reg_writable s" "distinct up" "distinct down" "set up \<inter> set down = {}"
    using ok by (auto simp: registry_ok_def l)
  have up: "d \<in> set up" using d(1) by (simp add: registry_Up l)
  let ?ls = "(filter (\<lambda>x. x \<noteq> d) up, down @ [d])"
  have ld: "LoadServerList cd s ([], []) = (0, up, down)" using load_ok[OF r(2), of cd] l by simp
  have last: "\<exists>ts' s'. foldE (turn cd) [0, 1, 1, 0] ([new_thread [(Mark_Down, d)], new_thread [r]], s) = Inr (ts', s') \<and>
      map answers ts' = [[0], [0]] \<and> registry cd s' = (registry cd s)(d \<mapsto> Down)"
    if "store_phase cd r (up, down) s = Inr (0, s\<lparr>reg_file := Some f\<rparr>)" for r f
  proof -
    obtain a where "notify_workers 3 ip port (s\<lparr>reg_file := Some (wr cd ?ls)\<rparr>) =
        Inr (s\<lparr>reg_file := Some (wr cd ?ls), pipes := map (\<lambda>p. p @ command_bytes 3 a) (pipes s)\<rparr>)"
      using notify_workers_ok[of ip port 3 "s\<lparr>reg_file := Some (wr cd ?ls)\<rparr>"] d(2) de by auto
    moreover have "registry cd (s\<lparr>reg_file := Some (wr cd ?ls), pipes := ps\<rparr>) = (registry cd s)(d \<mapsto> Down)" for ps
      using lists_of_update[OF r(1), of ?ls s] up by (intro ext) (auto simp: registry_def status_of_def l)
    ultimately show ?thesis using that ld up r(3) de
      by (simp add: turn_def thread_step_def new_thread_def UpdateServerList_def SetServerDown_store_def)
  qed
  show ?thesis using last[of "(Enter, e)"] last[of "(Remove, e)"] r(3)
    by (auto simp: de store_defs UpdateServerList_def registry_None l)
qed

theorem registration_lost_witness:
  "\<exists>ts' s'. foldE (turn plain_codec) [0, 1, 1, 0]
       ([new_thread [(Mark_Down, ''10.0.0.2'', 8002)], new_thread [(Enter, ''10.0.0.4'', 8004)]], demo_registry) = Inr (ts', s') \<and>
     map answers ts' = [[0], [0]] \<and> registry plain_codec s' (''10.0.0.4'', 8004) = None"
proof -
  have "registry plain_codec demo_registry (''10.0.0.2'', 8002) = Some Up" "registry plain_codec demo_registry (''10.0.0.4'', 8004) = None"
    by (simp_all add: registry_def demo_registry_lists status_of_def)
  then show ?thesis using registration_lost[OF demo_registry_ok, of "(''10.0.0.2'', 8002)" "(''10.0.0.4'', 8004)"] by force
qed

section \<open>The black list\<close>

text \<open>
  The passive check takes no lock when it writes a row and then counts it, so that readers and the reset
  may come between the two.
\<close>

definition report_store :: "string \<Rightarrow> Hhei_Ming_Dan \<Rightarrow> Hhei_Ming_Dan res" where
  "report_store ip h = bindE (strcpy_at (hmd_buffer h) (nat (20 * hmd_count h)) ip) (\<lambda>b. Inr (h\<lparr>hmd_buffer := b\<rparr>))"

definition report_count :: "Hhei_Ming_Dan \<Rightarrow> Hhei_Ming_Dan" where
  "report_count h = h\<lparr>hmd_count := hmd_count h + 1\<rparr>"

lemma add_black_phases:
  "hmd_count h \<noteq> 1000 \<Longrightarrow> add_black ip h = bindE (report_store ip h) (\<lambda>h. Inr (report_count h))"
  by (cases "strcpy_at (hmd_buffer h) (nat (20 * hmd_count h)) ip") (simp_all add: add_black_def report_store_def report_count_def)

text \<open>A reader between the two sees the list before; a reset between them loses the report and leaves an empty
  row in its place.\<close>

lemma report_disturbed:
  assumes ok: "black_ok h" "hmd_count h < 1000" and ip: "NUL \<notin> set ip" "length ip < 20" "ip \<noteq> []"
  shows "\<exists>h1. report_store ip h = Inr h1 \<and> black_rows h1 = black_rows h \<and>
    black_rows (report_count h1) = black_rows h @ [ip] \<and> black_rows (report_count (empty_heimingdan_cb h1)) = [[]] \<and>
    verify_client_ip (report_count (empty_heimingdan_cb h1)) ip = Inr False"
proof -
  obtain h' where h': "add_black ip h = Inr h'" "black_rows h' = black_rows h @ [ip]"
    using add_black_rows[OF ok(1) ip(1,2) ok(2)] by blast
  moreover have "hmd_count h \<noteq> 1000" using ok(2) by simp
  ultimately obtain h1 where h1: "report_store ip h = Inr h1" "h' = report_count h1" by (auto simp: add_black_phases res_simps)
  have c: "hmd_count h1 = hmd_count h" "0 \<le> hmd_count h" using h1(1) ok(1) by (auto simp: report_store_def res_simps black_ok_def)
  have "nat (hmd_count h1 + 1) = Suc (nat (hmd_count h1))" using c by simp
  then have "black_rows h' = black_rows h1 @ [row (hmd_buffer h1) (nat (hmd_count h1))]"
    by (simp add: h1(2) report_count_def black_rows_def)
  then have "black_rows h1 = black_rows h" using h'(2) by simp
  moreover have e: "black_rows (report_count (empty_heimingdan_cb h1)) = [[]]"
    by (simp add: report_count_def empty_heimingdan_cb_def black_rows_def row_def HEI_MING_DAN_BUFFER_SIZE_def cstr_def)
  moreover have "verify_client_ip (report_count (empty_heimingdan_cb h1)) ip = Inr False"
    using verify_client_ip_iff[OF ip(1,2), of "report_count (empty_heimingdan_cb h1)"] ip(3) e by simp
  ultimately show ?thesis using h1 h'(2) by blast
qed

end
