(* ===== verification/Spec2Isabelle.thy ===== *)
theory Spec2Isabelle
  imports Pool_Theorems Registry_Theorems Worker_Faults Gateway_Theorems Http_Theorems Log_Theorems Connection_Pool
    Ticket_History Program_Ends Rate_Limit Registry_Races
begin

text \<open>
  \<^bold>\<open>A gateway for distributed servers, and the ticket server behind it\<close>

  \<^bold>\<open>The program.\<close> Clients send requests to a gateway, which passes them to one of several ticket servers
  and the answers back. The gateway is one main process and \<open>n\<close> workers (\<^verbatim>\<open>src/proxy/proxy.cc\<close>,
  \<^verbatim>\<open>include/pool.h\<close>), forked by the main process and connected to it by socket pairs. The main process
  tells a worker that a client waits (command 1), that a server came (2) or went (3), and to stop (4).
  Servers are entered and removed by a tool (\<^verbatim>\<open>src/server_loginout\<close>); the list of servers is a JSON
  file, which two health check threads keep up to date (\<^verbatim>\<open>src/proxy/server_monitor.cc\<close>). A worker
  keeps every request in a memory pool (\<^verbatim>\<open>src/proxy/memorypool.cpp\<close>) until it is answered, and sends
  it again after a time. Messages of the workers report lost servers and clients that ask too often;
  the latter go to a black list in shared memory (\<^verbatim>\<open>include/structure.h\<close>). The ticket server
  (\<^verbatim>\<open>src/server_service\<close>) deals the connections of the gateway to its threads and answers requests
  from a MySQL data base through a pool of connections. All programs write a log (\<^verbatim>\<open>src/log\<close>), and a
  test client (\<^verbatim>\<open>src/client\<close>) makes the load.

  \<^bold>\<open>Conventions.\<close> A C++ statement that does not finish normally is a value of \<open>fault\<close>; \<open>'a res\<close> is
  \<open>fault + 'a\<close>, and \<open>bindE\<close>, \<open>guardE\<close> and \<open>foldE\<close> sequence statements (\<^verbatim>\<open>Prelude\<close>). Integers are
  \<open>int\<close> with the wrap-around of \<open>size_t\<close>, \<open>unsigned\<close> and \<open>int\<close> written as \<open>u64\<close>, \<open>u32\<close> and \<open>s32\<close> where
  the code can reach it. Strings and byte buffers are \<open>string\<close>; a \<open>char\<close> array is its bytes, \<open>cstr\<close> the C
  string in it, and \<open>strcpy_at\<close> fails where \<open>strcpy\<close> leaves the array. Callbacks are functions from the
  state of their process; calls into libevent, sockets and message queues go into a log of \<open>call\<close>s, and
  what they return is an argument (\<open>env\<close> for a worker, \<open>kernel\<close> for the start of a process). jsoncpp and
  MySQL are libraries: the operations that the code uses are the fields of \<open>json_lib\<close>, \<open>request_lib\<close>,
  \<open>codec\<close>, \<open>config_lib\<close> and \<open>mysql\<close>, over arbitrary types; what the code relies on are the hypotheses
  \<open>json_ok\<close>, \<open>codec_ok\<close> and \<open>ticket_laws\<close>, and each theorem that has one is applied to a concrete library.

  \<^bold>\<open>Theories.\<close>
  \<^item> \<^verbatim>\<open>Prelude\<close>, \<^verbatim>\<open>Structures\<close>: faults, wrap-around, little-endian integers, C strings, the erase-by-swap
    idiom; the constants and objects of \<^verbatim>\<open>structure.h\<close>.
  \<^item> \<^verbatim>\<open>Memory_Pool\<close>: blocks, chunk headers and the pointers at the end of chunks as a store of addresses,
    with every operation of the pool. \<^verbatim>\<open>Chunk_Lists\<close>, \<^verbatim>\<open>Chunk_Blocks\<close>, \<^verbatim>\<open>Chunk_Steps\<close> and \<^verbatim>\<open>Chunk_Merge\<close>
    show that its steps keep the doubly linked lists and the tiling of a block; \<^verbatim>\<open>Memory_Pool_Spec\<close> lifts
    this to the pool and abstracts it to the set of live regions; \<^verbatim>\<open>Pool_Contract\<close> states the interface
    as the locale \<open>allocator\<close>, interpreted on the pool, and \<^verbatim>\<open>Pool_Theorems\<close> has its properties.
  \<^item> \<^verbatim>\<open>Ring_Queue\<close>: the two circular queues of a worker, an interpretation of the locale \<open>event_fifo\<close>, as is
    the queue of the logger in \<^verbatim>\<open>Blocking_Queue\<close>.
  \<^item> \<^verbatim>\<open>Framing\<close>: frames on a connection, and the locales \<open>read_loop\<close> and \<open>read_callback\<close>, which every read
    callback interprets: what a loop keeps, what it does to a stream of frames, and that the pieces in
    which the stream arrives do not matter.
  \<^item> \<^verbatim>\<open>Turns\<close>: the locale \<open>round_robin\<close>, interpreted on the hand-over of clients to workers and of
    connections to threads.
  \<^item> \<^verbatim>\<open>Http_Helper\<close>, \<^verbatim>\<open>Http_Theorems\<close>: the HTTP helper class and the round trip of the content length.
  \<^item> \<^verbatim>\<open>Black_List\<close>, \<^verbatim>\<open>Server_Registry\<close>, \<^verbatim>\<open>Registry_Theorems\<close>: the black list, the server list and the health
    checks. \<^verbatim>\<open>Status_Store\<close>: the operations on the list as the locale \<open>status_store\<close>, guarded changes of
    a map from servers to their status, and what follows for any history of them. \<^verbatim>\<open>Registry_Races\<close>: the
    operations in two steps, load and store, by threads that a schedule interleaves.
  \<^item> \<^verbatim>\<open>Worker\<close>: the callbacks of a worker, one definition per callback and per loop body, in the order of
    the code. \<^verbatim>\<open>Worker_Inv\<close>, \<^verbatim>\<open>Worker_Requests\<close>, \<^verbatim>\<open>Worker_Replies\<close>, \<^verbatim>\<open>Worker_Timers\<close> and \<^verbatim>\<open>Worker_Numbers\<close>
    prove its invariants callback by callback; \<open>worker_step\<close> and \<open>worker_reach\<close> are its step relation
    and its reachable states. \<^verbatim>\<open>Worker_Theorems\<close>, \<^verbatim>\<open>Worker_Routing\<close> and \<^verbatim>\<open>Worker_Faults\<close> have the properties,
    \<^verbatim>\<open>Worker_Demo\<close> the concrete worker they are applied to.
  \<^item> \<^verbatim>\<open>Main_Process\<close>, \<^verbatim>\<open>Login_Client\<close>, \<^verbatim>\<open>Gateway\<close>, \<^verbatim>\<open>Gateway_Theorems\<close>: the main process, the registration tool, and
    the processes together. \<^verbatim>\<open>Gateway_Start\<close>: \<open>main\<close>, the loop around \<open>fork\<close>, and how the processes come
    to the states in which the other theories find them. \<^verbatim>\<open>Gateway_System\<close>: main process, health checks
    and workers as one transition system over the pipes and the shared memory. \<^verbatim>\<open>Rate_Limit\<close>: the way of a
    report from the worker that counts to all workers that accept.
  \<^item> \<^verbatim>\<open>Pool_Config\<close>, \<^verbatim>\<open>Connection_Pool\<close>: the configuration of the data base pool and the pool, as steps under
    its mutex.
  \<^item> \<^verbatim>\<open>Ticket_Views\<close>: the three views of the ticket server statement by statement. \<^verbatim>\<open>Ticket_Replies\<close>: every
    request gets one reply. \<^verbatim>\<open>Ticket_Sales\<close>: what the statements do to the tickets on a data base with
    transactions. \<^verbatim>\<open>Ticket_Theorems\<close>, \<^verbatim>\<open>Ticket_Demo\<close>: transactions, faults and a concrete data base.
    \<^verbatim>\<open>Ticket_History\<close>: any sequence of requests for the tickets of a task.
  \<^item> \<^verbatim>\<open>Server_Threads\<close>, \<^verbatim>\<open>Round_Trip\<close>: the threads of the ticket server, and a request on its whole way.
    \<^verbatim>\<open>Test_Client\<close>, \<^verbatim>\<open>Program_Starts\<close>, \<^verbatim>\<open>Program_Ends\<close>: the test client, the starts of the ticket server, the
    tool and the client, and what the processes free in the end.
  \<^item> \<^verbatim>\<open>Log_Buffer\<close>, \<^verbatim>\<open>Blocking_Queue\<close>, \<^verbatim>\<open>Mini_Log\<close>, \<^verbatim>\<open>Log_Theorems\<close>: the logger.

  \<^bold>\<open>What is shown.\<close> Functional correctness of the allocator against its abstract regions, with its
  accounting and limit; memory safety and the absence of leaks of a worker in every reachable state;
  routing, delivery, timeouts, the rate limit and the ban that follows it; the independence of the pieces in which replies arrive; the
  server list as a status map through any history, also of threads that do not disturb each other (and what
  is lost when they do), and the way of a registration from the tool to the workers; the safety of the
  main process and the turns of the workers; that the pipes of the running system hold whole commands and
  at most one call to accept; the start of all processes; that tickets are not oversold, through any history of requests, whose answers say who got one, and that
  every request is answered once; the accounting of the data base connections; the logger as a queue of
  bytes, and its runs with and without a thread, which lose no line. Where the code fails, the outcome is proved as it is: a
  client over its limit breaks the iteration of a map, a server that returns is freed twice, the second of two
  servers that log out is looked for beyond the end of a vector, cached events
  are used uninitialised, and others, which the theories state as lemmas.

  \<^bold>\<open>Loops.\<close> Loops over frames, files and headers end because the input gets shorter; the walks over the
  lists of the memory pool, the timers' loops and the loop around a rollback are
  \<open>partial_function (option)\<close>, where \<^term>\<open>None\<close> means that the loop does not end, and it is proved of the
  pool and of the timers that they do. The loop of a thread takes the number of its rounds as an argument:
  one more than the connections dealt out is enough. The constants are those of the code (queues of 100000
  events, frames of 1024 bytes, 1000 black rows of 20 bytes, ten packets, five threads).

  \<^bold>\<open>Not modelled.\<close> jsoncpp, libevent, MySQL and the C library beyond the functions used; the float ratios of
  the memory pool; the release of the shared memory and of connections at the end of a process; prompts and
  the time printed by the test client; \<open>fflush\<close>; interleavings inside a callback, but for the threads that share the server list and the row
  that the passive check writes without the lock (\<^verbatim>\<open>Registry_Races\<close>; reading and writing the file are one
  step each there), or between the writes of a command;
  the half command of the passive check is not a step of the system, its effect on the worker that reads
  it is proved instead. Command 3 is a step of
  \<open>worker_reach\<close> as long as the server has the same place in both vectors (\<open>in_step\<close>), as all have until the
  first command 3; the failures that follow when it has not are proved instead.
\<close>

end
